(* ===== verification/Py_Text.thy ===== *)
theory Py_Text
  imports Gateway_Prelude
begin

text \<open>
  The parts of Python's text library the gateway leans on, as far as it uses them: the
  UTF-8, UTF-16 and UTF-32 codecs (strict and \<open>surrogatepass\<close>), case folding and
  stripping of header values, and \<open>urllib.parse.unquote\<close>. The codecs round-trip, and a
  second \<open>unquote\<close> is the identity on a string without a percent escape.
\<close>

section \<open>UTF-8\<close>

definition is_surrogate :: "nat \<Rightarrow> bool" where
  "is_surrogate c \<longleftrightarrow> 0xD800 \<le> c \<and> c \<le> 0xDFFF"

definition scalar_ok :: "bool \<Rightarrow> nat \<Rightarrow> bool" where
  "scalar_ok sp c \<longleftrightarrow> c \<le> 0x10FFFF \<and> (sp \<or> \<not> is_surrogate c)"

text \<open>One code point; the caller has checked \<open>scalar_ok\<close>.\<close>

definition utf8_char :: "nat \<Rightarrow> nat list" where
  "utf8_char c =
     (if c < 0x80 then [c]
      else if c < 0x800 then [0xC0 + c div 64, 0x80 + c mod 64]
      else if c < 0x10000 then [0xE0 + c div 4096, 0x80 + c div 64 mod 64, 0x80 + c mod 64]
      else [0xF0 + c div 262144, 0x80 + c div 4096 mod 64, 0x80 + c div 64 mod 64, 0x80 + c mod 64])"

text \<open>
  \<open>s.encode("utf-8")\<close>, with the \<open>surrogatepass\<close> error handler when \<open>sp\<close>;
  \<open>None\<close> is \<open>UnicodeEncodeError\<close>.
\<close>

definition utf8_enc :: "bool \<Rightarrow> ustr \<Rightarrow> nat list option" where
  "utf8_enc sp s = (if list_all (scalar_ok sp) s then Some (concat (map utf8_char s)) else None)"

definition cont_byte :: "nat \<Rightarrow> bool" where
  "cont_byte b \<longleftrightarrow> 0x80 \<le> b \<and> b < 0xC0"

text \<open>\<open>b.decode("utf-8")\<close>: no overlong form, nothing above U+10FFFF, no lone byte.\<close>

fun utf8_dec :: "bool \<Rightarrow> nat list \<Rightarrow> ustr option" where
  "utf8_dec sp [] = Some []"
| "utf8_dec sp (b # r) =
     (if b < 0x80 then map_option (Cons b) (utf8_dec sp r)
      else if 0xC2 \<le> b \<and> b < 0xE0 then
        (case r of
          b1 # r' \<Rightarrow>
            if cont_byte b1
            then map_option (Cons ((b - 0xC0) * 64 + (b1 - 0x80))) (utf8_dec sp r')
            else None
        | _ \<Rightarrow> None)
      else if 0xE0 \<le> b \<and> b < 0xF0 then
        (case r of
          b1 # b2 # r' \<Rightarrow>
            let c = (b - 0xE0) * 4096 + (b1 - 0x80) * 64 + (b2 - 0x80) in
            if cont_byte b1 \<and> cont_byte b2 \<and> 0x800 \<le> c \<and> scalar_ok sp c
            then map_option (Cons c) (utf8_dec sp r')
            else None
        | _ \<Rightarrow> None)
      else if 0xF0 \<le> b \<and> b < 0xF5 then
        (case r of
          b1 # b2 # b3 # r' \<Rightarrow>
            let c = (b - 0xF0) * 262144 + (b1 - 0x80) * 4096 + (b2 - 0x80) * 64 + (b3 - 0x80) in
            if cont_byte b1 \<and> cont_byte b2 \<and> cont_byte b3 \<and> 0x10000 \<le> c \<and> c \<le> 0x10FFFF
            then map_option (Cons c) (utf8_dec sp r')
            else None
        | _ \<Rightarrow> None)
      else None)"

lemma digits3: "c div 4096 * 4096 + c div 64 mod 64 * 64 + c mod 64 = (c::nat)"
proof -
  have "c div 64 div 64 * 64 + c div 64 mod 64 = c div 64" by simp
  then have "(c div 4096 * 64 + c div 64 mod 64) * 64 + c mod 64 = c"
    by (simp add: div_mult2_eq [symmetric])
  then show ?thesis by (simp add: algebra_simps)
qed

lemma digits4:
  "c div 262144 * 262144 + c div 4096 mod 64 * 4096 + c div 64 mod 64 * 64 + c mod 64 = (c::nat)"
proof -
  have "c div 4096 div 64 * 64 + c div 4096 mod 64 = c div 4096" by simp
  then have "(c div 262144 * 64 + c div 4096 mod 64) * 4096 + c div 64 mod 64 * 64 + c mod 64 = c"
    using digits3 [of c] by (simp add: div_mult2_eq [symmetric])
  then show ?thesis by (simp add: algebra_simps)
qed

lemma utf8_dec_char:
  assumes "scalar_ok sp c"
  shows "utf8_dec sp (utf8_char c @ bs) = map_option (Cons c) (utf8_dec sp bs)"
proof -
  consider "c < 0x80" | "0x80 \<le> c" "c < 0x800" | "0x800 \<le> c" "c < 0x10000" | "0x10000 \<le> c"
    by linarith
  then show ?thesis
  proof cases
    case 1
    then show ?thesis by (simp add: utf8_char_def)
  next
    case 2
    obtain q r where c: "c = 64 * q + r" and r: "r < 64"
      by (metis mod_less_divisor mult_div_mod_eq zero_less_numeral)
    then have q: "c div 64 = q" "c mod 64 = r" by auto
    with 2 c r have "2 \<le> q" "q < 32" by auto
    with 2 r c show ?thesis unfolding utf8_char_def q by (simp add: cont_byte_def mult.commute)
  next
    case 3
    have "c div 4096 * 4096 + c div 64 mod 64 * 64 + c mod 64 = c" by (rule digits3)
    moreover from 3 have "c div 4096 < 16" by auto
    ultimately show ?thesis using 3 assms
      by (simp add: utf8_char_def cont_byte_def Let_def)
  next
    case 4
    have "c div 262144 * 262144 + c div 4096 mod 64 * 4096 + c div 64 mod 64 * 64 + c mod 64 = c"
      by (rule digits4)
    moreover from 4 assms have "c div 262144 < 5" by (auto simp: scalar_ok_def)
    ultimately show ?thesis using 4 assms
      by (simp add: utf8_char_def cont_byte_def scalar_ok_def Let_def)
  qed
qed

text \<open>What was encoded decodes to itself.\<close>

lemma utf8_roundtrip: "utf8_enc sp s = Some bs \<Longrightarrow> utf8_dec sp bs = Some s"
proof (induction s arbitrary: bs)
  case Nil
  then show ?case by (simp add: utf8_enc_def)
next
  case (Cons c s)
  from Cons.prems have ok: "scalar_ok sp c" and rest: "utf8_enc sp s = Some (concat (map utf8_char s))"
    and bs: "bs = utf8_char c @ concat (map utf8_char s)"
    by (auto simp: utf8_enc_def split: if_splits)
  show ?case using Cons.IH [OF rest] by (simp add: bs utf8_dec_char [OF ok])
qed

lemma utf8_enc_ascii: "\<forall>c \<in> set s. c < 128 \<Longrightarrow> utf8_enc sp s = Some s"
proof (induction s)
  case Nil
  then show ?case by (simp add: utf8_enc_def)
next
  case (Cons c s)
  then show ?case
    by (auto simp: utf8_enc_def scalar_ok_def is_surrogate_def utf8_char_def split: if_splits)
qed

lemma utf8_enc_inj: "utf8_enc sp s = Some bs \<Longrightarrow> utf8_enc sp t = Some bs \<Longrightarrow> s = t"
  by (metis option.inject utf8_roundtrip)

lemma utf8_char_high: "128 \<le> c \<Longrightarrow> b \<in> set (utf8_char c) \<Longrightarrow> 128 \<le> b"
  by (auto simp: utf8_char_def split: if_splits)

text \<open>The same as \<open>bytes\<close>: \<open>s.encode("utf-8")\<close>, \<open>None\<close> for a lone surrogate.\<close>

definition encode_utf8 :: "ustr \<Rightarrow> bytes option" where
  "encode_utf8 s = map_option (map of_nat) (utf8_enc False s)"

lemma utf8_char_byte:
  assumes c: "c \<le> 0x10FFFF"
  shows "list_all (\<lambda>b. b < 256) (utf8_char c)"
proof -
  have d: "c div 64 < 32" if "c < 2048" using that by (simp add: less_mult_imp_div_less)
  have e: "c div 4096 < 16" if "c < 65536" using that by (simp add: less_mult_imp_div_less)
  have f: "c div 262144 < 5" using c by (simp add: less_mult_imp_div_less)
  have m: "128 + x mod 64 < 256" for x :: nat
    using mod_less_divisor [of 64 x] by linarith
  consider "c < 128" | "128 \<le> c" "c < 2048" | "2048 \<le> c" "c < 65536" | "65536 \<le> c"
    by linarith
  then show ?thesis
  proof cases
    case 1 then show ?thesis by (simp add: utf8_char_def)
  next
    case 2 then show ?thesis using d m [of c] by (simp add: utf8_char_def)
  next
    case 3 then show ?thesis using e m [of c] m [of "c div 64"] by (simp add: utf8_char_def)
  next
    case 4
    then show ?thesis using f m [of c] m [of "c div 64"] m [of "c div 4096"]
      by (simp add: utf8_char_def)
  qed
qed

lemma utf8_enc_byte:
  assumes "utf8_enc sp s = Some bs"
  shows "list_all (\<lambda>b. b < 256) bs"
proof -
  have ok: "list_all (scalar_ok sp) s" and bs: "bs = concat (map utf8_char s)"
    using assms by (auto simp: utf8_enc_def split: if_splits)
  have "list_all (\<lambda>b. b < 256) (concat (map utf8_char s))" using ok
  proof (induction s)
    case (Cons c s)
    then show ?case using utf8_char_byte [of c] by (simp add: scalar_ok_def)
  qed simp
  then show ?thesis by (simp add: bs)
qed

lemma byte_of_nat: "b < 256 \<Longrightarrow> unat (of_nat b :: byte) = b"
  by (simp add: unsigned_of_nat take_bit_nat_eq_self)

lemma bytes_of_nats: "list_all (\<lambda>b. b < 256) bs \<Longrightarrow> map unat (map of_nat bs :: bytes) = bs"
proof (induction bs)
  case (Cons b bs)
  then show ?case using byte_of_nat [of b] by simp
qed simp

lemma encode_utf8_SomeD:
  assumes "encode_utf8 s = Some b"
  shows "utf8_enc False s = Some (map unat b)"
proof -
  obtain bs where "utf8_enc False s = Some bs" "b = map of_nat bs"
    using assms by (auto simp: encode_utf8_def)
  then show ?thesis using bytes_of_nats [OF utf8_enc_byte] by metis
qed

lemma encode_utf8_decode: "encode_utf8 s = Some b \<Longrightarrow> utf8_dec False (map unat b) = Some s"
  by (rule utf8_roundtrip) (rule encode_utf8_SomeD)

lemma encode_utf8_inj: "encode_utf8 s = Some b \<Longrightarrow> encode_utf8 t = Some b \<Longrightarrow> s = t"
  using encode_utf8_decode [of s b] encode_utf8_decode [of t b] by simp

section \<open>UTF-16 and UTF-32\<close>

text \<open>
  Only \<open>json.loads\<close> reaches these, for a body whose first bytes look like them; it
  always passes \<open>surrogatepass\<close>, so a lone surrogate is kept.
\<close>

fun units16 :: "bool \<Rightarrow> nat list \<Rightarrow> nat list option" where
  "units16 le [] = Some []"
| "units16 le [b] = None"
| "units16 le (a # b # r) =
     map_option (Cons (if le then a + 256 * b else 256 * a + b)) (units16 le r)"

fun join16 :: "nat list \<Rightarrow> ustr" where
  "join16 (h # l # r) =
     (if 0xD800 \<le> h \<and> h < 0xDC00 \<and> 0xDC00 \<le> l \<and> l < 0xE000
      then (0x10000 + (h - 0xD800) * 1024 + (l - 0xDC00)) # join16 r
      else h # join16 (l # r))"
| "join16 r = r"

definition utf16_dec :: "bool \<Rightarrow> nat list \<Rightarrow> ustr option" where
  "utf16_dec le bs = map_option join16 (units16 le bs)"

fun utf32_dec :: "bool \<Rightarrow> nat list \<Rightarrow> ustr option" where
  "utf32_dec le [] = Some []"
| "utf32_dec le (a # b # c # d # r) =
     (let x = (if le then a + 256 * b + 65536 * c + 16777216 * d
               else 16777216 * a + 65536 * b + 256 * c + d) in
      if x \<le> 0x10FFFF then map_option (Cons x) (utf32_dec le r) else None)"
| "utf32_dec le bs = None"

section \<open>Header values\<close>

text \<open>
  ASGI header names and values are decoded as latin-1, so every code point is below 256;
  \<open>lower\<close> is \<open>str.lower\<close> on that range (U+00D7 is the multiplication sign).
\<close>

definition lower_char :: "nat \<Rightarrow> nat" where
  "lower_char c =
     (if (65 \<le> c \<and> c \<le> 90) \<or> (0xC0 \<le> c \<and> c \<le> 0xDE \<and> c \<noteq> 0xD7) then c + 32 else c)"

definition lower :: "ustr \<Rightarrow> ustr" where
  "lower s = map lower_char s"

lemma lower_idem [simp]: "lower (lower s) = lower s"
  by (induction s) (auto simp: lower_def lower_char_def)

text \<open>The characters \<open>str.strip()\<close> removes.\<close>

definition py_isspace :: "nat \<Rightarrow> bool" where
  "py_isspace c \<longleftrightarrow>
     (9 \<le> c \<and> c \<le> 13) \<or> (28 \<le> c \<and> c \<le> 32) \<or> c = 133 \<or> c = 160 \<or> c = 5760
     \<or> (8192 \<le> c \<and> c \<le> 8202) \<or> c = 8232 \<or> c = 8233 \<or> c = 8239 \<or> c = 8287 \<or> c = 12288"

definition rstrip_of :: "(nat \<Rightarrow> bool) \<Rightarrow> ustr \<Rightarrow> ustr" where
  "rstrip_of P s = rev (dropWhile P (rev s))"

definition strip :: "ustr \<Rightarrow> ustr" where
  "strip s = rstrip_of py_isspace (dropWhile py_isspace s)"

lemma rstrip_of_id_iff: "rstrip_of P s = s \<longleftrightarrow> s = [] \<or> \<not> P (last s)"
proof (cases s rule: rev_cases)
  case Nil
  then show ?thesis by (simp add: rstrip_of_def)
next
  case (snoc ys y)
  have "length (rev (dropWhile P (rev ys))) < length (ys @ [y])"
    using length_dropWhile_le [of P "rev ys"] by simp
  then have "rev (dropWhile P (rev ys)) \<noteq> ys @ [y]" by fastforce
  with snoc show ?thesis by (simp add: rstrip_of_def)
qed

text \<open>
  \<open>upper\<close> is \<open>str.upper\<close> restricted to ASCII. It is used only to test membership in a
  set of ASCII names made of the letters of CON, PRN, AUX, NUL, COM and LPT and digits, and
  no other code point has an upper-case form made of those letters.
\<close>

definition ascii_upper :: "ustr \<Rightarrow> ustr" where
  "ascii_upper s = map (\<lambda>c. if 97 \<le> c \<and> c \<le> 122 then c - 32 else c) s"

section \<open>Percent decoding\<close>

definition hex_val :: "nat \<Rightarrow> nat option" where
  "hex_val c =
     (if 48 \<le> c \<and> c \<le> 57 then Some (c - 48)
      else if 65 \<le> c \<and> c \<le> 70 then Some (c - 55)
      else if 97 \<le> c \<and> c \<le> 102 then Some (c - 87)
      else None)"

definition is_hex :: "nat \<Rightarrow> bool" where
  "is_hex c \<longleftrightarrow> hex_val c \<noteq> None"

lemma hex_val_lt: "hex_val c = Some v \<Longrightarrow> v < 16"
  by (auto simp: hex_val_def split: if_splits)

text \<open>\<open>re.search("%[0-9A-Fa-f]{2}", s)\<close>\<close>

fun has_escape :: "ustr \<Rightarrow> bool" where
  "has_escape (c # h # l # r) \<longleftrightarrow> (c = 37 \<and> is_hex h \<and> is_hex l) \<or> has_escape (h # l # r)"
| "has_escape _ \<longleftrightarrow> False"

text \<open>
  \<open>unquote_to_bytes\<close> on an ASCII run: an escape becomes its byte, a \<open>%\<close> that starts no
  escape stays.
\<close>

fun unquote_bytes :: "ustr \<Rightarrow> nat list" where
  "unquote_bytes (c # h # l # r) =
     (if c = 37 \<and> is_hex h \<and> is_hex l
      then (16 * the (hex_val h) + the (hex_val l)) # unquote_bytes r
      else c # unquote_bytes (h # l # r))"
| "unquote_bytes s = s"

text \<open>The maximal ASCII runs, each with the non-ASCII text before it.\<close>

fun unquote_run :: "nat \<Rightarrow> ustr \<Rightarrow> ustr option" where
  "unquote_run 0 s = (if s = [] then Some [] else None)"
| "unquote_run (Suc n) s =
     (let pre = takeWhile (\<lambda>c. 128 \<le> c) s;
          s1 = dropWhile (\<lambda>c. 128 \<le> c) s;
          run = takeWhile (\<lambda>c. c < 128) s1;
          s2 = dropWhile (\<lambda>c. c < 128) s1
      in if s1 = [] then Some pre
         else (case utf8_dec False (unquote_bytes run) of
                 None \<Rightarrow> None
               | Some t \<Rightarrow> map_option (\<lambda>r. pre @ t @ r) (unquote_run n s2)))"

text \<open>\<open>urllib.parse.unquote(s, "utf-8", errors="strict")\<close>; \<open>None\<close> is \<open>UnicodeDecodeError\<close>.\<close>

definition unquote :: "ustr \<Rightarrow> ustr option" where
  "unquote s = (if 37 \<notin> set s then Some s else unquote_run (Suc (length s)) s)"

lemma unquote_bytes_id: "\<not> has_escape s \<Longrightarrow> unquote_bytes s = s"
  by (induction s rule: unquote_bytes.induct) auto

lemma utf8_dec_ascii: "\<forall>c \<in> set s. c < 128 \<Longrightarrow> utf8_dec sp s = Some s"
  by (induction s) auto

lemma has_escape_append: "has_escape t \<Longrightarrow> has_escape (s @ t)"
proof (induction s)
  case Nil
  then show ?case by simp
next
  case (Cons a s)
  then show ?case by (cases "s @ t" rule: has_escape.cases) auto
qed

lemma has_escape_prefix: "has_escape s \<Longrightarrow> has_escape (s @ t)"
  by (induction s rule: has_escape.induct) auto

lemma not_escape_split:
  assumes "\<not> has_escape s"
  shows "\<not> has_escape (takeWhile P s)" and "\<not> has_escape (dropWhile P s)"
proof -
  have eq: "s = takeWhile P s @ dropWhile P s" by simp
  show "\<not> has_escape (takeWhile P s)"
    using assms eq has_escape_prefix by metis
  show "\<not> has_escape (dropWhile P s)"
    using assms eq has_escape_append by metis
qed

lemma length_dropWhile_less: "s \<noteq> [] \<Longrightarrow> P (hd s) \<Longrightarrow> length (dropWhile P s) < length s"
  by (cases s) (auto simp: length_dropWhile_le le_imp_less_Suc)

text \<open>On a string without an escape, percent decoding is the identity.\<close>

lemma unquote_run_id: "length s < n \<Longrightarrow> \<not> has_escape s \<Longrightarrow> unquote_run n s = Some s"
proof (induction n arbitrary: s)
  case 0
  then show ?case by simp
next
  case (Suc n)
  define pre where "pre = takeWhile (\<lambda>c. 128 \<le> c) s"
  define s1 where "s1 = dropWhile (\<lambda>c. 128 \<le> c) s"
  define run where "run = takeWhile (\<lambda>c. c < 128) s1"
  define s2 where "s2 = dropWhile (\<lambda>c. c < 128) s1"
  have parts: "s = pre @ run @ s2"
    by (simp add: pre_def s1_def run_def s2_def)
  show ?case
  proof (cases "s1 = []")
    case True
    then have "pre = s" by (metis append_Nil2 pre_def s1_def takeWhile_dropWhile_id)
    with True show ?thesis by (auto simp: Let_def pre_def s1_def)
  next
    case False
    have ascii: "\<forall>c \<in> set run. c < 128"
      by (auto simp: run_def dest: set_takeWhileD)
    have ne: "\<not> has_escape run" "\<not> has_escape s2"
      using Suc.prems(2) by (auto simp: run_def s2_def s1_def intro!: not_escape_split)
    have hd: "hd s1 < 128"
      using False hd_dropWhile [of "\<lambda>c. 128 \<le> c" s] by (auto simp: s1_def)
    have "length s2 < length s1"
      unfolding s2_def using False hd by (intro length_dropWhile_less)
    also have "length s1 \<le> length s"
      by (simp add: s1_def length_dropWhile_le)
    finally have "unquote_run n s2 = Some s2"
      using Suc.prems(1) ne by (intro Suc.IH) auto
    then have "unquote_run (Suc n) s = Some (pre @ run @ s2)"
      unfolding unquote_run.simps Let_def pre_def [symmetric] s1_def [symmetric] run_def [symmetric]
        s2_def [symmetric]
      using False by (simp add: unquote_bytes_id [OF ne(1)] utf8_dec_ascii [OF ascii])
    then show ?thesis by (simp only: parts [symmetric])
  qed
qed

lemma unquote_id: "\<not> has_escape s \<Longrightarrow> unquote s = Some s"
  by (simp add: unquote_def unquote_run_id del: unquote_run.simps)

end
