(* ===== verification/Gateway_Errors.thy ===== *)
theory Gateway_Errors
  imports Py_Text
begin

text \<open>
  \<open>gateway/errors.py\<close>: the lifecycle stages, the closed vocabulary of reason codes, the
  wire shape and client text of a denial, and the exceptions that travel through the
  pipeline. The lemmas show that the string form of a code determines it, that every
  code carries the prefix of its unit, and that no denial has a success status.
\<close>

section \<open>Stages and reason codes\<close>

datatype stage =
    TRANSPORT | PROTOCOL | IDENTITY | REGISTRY | CANONICAL | POLICY | ROUTE | RESPONSE | AUDIT

definition all_stages :: "stage list" where
  "all_stages = [TRANSPORT, PROTOCOL, IDENTITY, REGISTRY, CANONICAL, POLICY, ROUTE, RESPONSE, AUDIT]"

fun stage_value :: "stage \<Rightarrow> string" where
  "stage_value TRANSPORT = ''transport''"
| "stage_value PROTOCOL = ''protocol''"
| "stage_value IDENTITY = ''identity''"
| "stage_value REGISTRY = ''registry''"
| "stage_value CANONICAL = ''canonical''"
| "stage_value POLICY = ''policy''"
| "stage_value ROUTE = ''route''"
| "stage_value RESPONSE = ''response''"
| "stage_value AUDIT = ''audit''"

datatype (plugins only: code) reason_code =
    PROTO_MESSAGE_TOO_LARGE
  | PROTO_FRAMING_INVALID
  | PROTO_ORIGIN_REJECTED
  | PROTO_HEADER_BODY_METHOD_MISMATCH
  | PROTO_HEADER_BODY_NAME_MISMATCH
  | PROTO_HEADER_BODY_PARAM_MISMATCH
  | PROTO_METADATA_MISSING
  | PROTO_METADATA_UNEXPECTED
  | PROTO_METADATA_DUPLICATE
  | PROTO_METADATA_INVALID
  | PROTO_VERSION_UNSUPPORTED
  | PROTO_VERSION_MISMATCH
  | PROTO_JSON_INVALID
  | PROTO_JSONRPC_INVALID
  | PROTO_DUPLICATE_FIELD
  | PROTO_LIMIT_EXCEEDED
  | PROTO_METHOD_NOT_ALLOWED
  | PROTO_MRTR_UNSUPPORTED
  | REG_SERVER_UNAVAILABLE
  | REG_TOOL_UNKNOWN
  | REG_TOOL_QUARANTINED
  | REG_SCHEMA_DRIFT
  | REG_SCHEMA_UNVERIFIED
  | REG_ARGS_INVALID
  | REG_ARGS_UNKNOWN_FIELD
  | CANON_ENCODING_INVALID
  | CANON_NULL_BYTE
  | CANON_PATH_REJECTED
  | CANON_OUTSIDE_ROOT
  | CANON_SYMLINK_ESCAPE
  | CANON_RESOLUTION_FAILED
  | CANON_SENSITIVE_PATH
  | POLICY_UNAVAILABLE
  | POLICY_TIMEOUT
  | POLICY_RESULT_INVALID
  | POLICY_REVISION_UNKNOWN
  | POLICY_DEFAULT_DENY
  | POLICY_PROHIBITED
  | POLICY_PATH_NOT_PERMITTED
  | POLICY_OPERATION_NOT_PERMITTED
  | POLICY_SCOPED_READ
  | POLICY_SCOPED_WRITE
  | POLICY_METADATA_READ
  | POLICY_OBLIGATION_CLAMPED
  | ROUTE_NO_DECISION
  | ROUTE_AUTHORIZATION_DIVERGENCE
  | ROUTE_UPSTREAM_UNAVAILABLE
  | ROUTE_TIMEOUT
  | ROUTE_CANCELLED
  | RESP_ENVELOPE_INVALID
  | RESP_UNSOLICITED
  | RESP_TOO_LARGE
  | RESP_LIMIT_EXCEEDED
  | RESP_SHAPE_INVALID
  | RESP_MRTR_UNSUPPORTED
  | AUDIT_WRITE_FAILED
  | AUDIT_SCHEMA_INVALID
  | INTERNAL_ERROR

primrec reason_value :: "reason_code \<Rightarrow> string" where
  "reason_value PROTO_MESSAGE_TOO_LARGE = ''PROTO_MESSAGE_TOO_LARGE''"
| "reason_value PROTO_FRAMING_INVALID = ''PROTO_FRAMING_INVALID''"
| "reason_value PROTO_ORIGIN_REJECTED = ''PROTO_ORIGIN_REJECTED''"
| "reason_value PROTO_HEADER_BODY_METHOD_MISMATCH = ''PROTO_HEADER_BODY_METHOD_MISMATCH''"
| "reason_value PROTO_HEADER_BODY_NAME_MISMATCH = ''PROTO_HEADER_BODY_NAME_MISMATCH''"
| "reason_value PROTO_HEADER_BODY_PARAM_MISMATCH = ''PROTO_HEADER_BODY_PARAM_MISMATCH''"
| "reason_value PROTO_METADATA_MISSING = ''PROTO_METADATA_MISSING''"
| "reason_value PROTO_METADATA_UNEXPECTED = ''PROTO_METADATA_UNEXPECTED''"
| "reason_value PROTO_METADATA_DUPLICATE = ''PROTO_METADATA_DUPLICATE''"
| "reason_value PROTO_METADATA_INVALID = ''PROTO_METADATA_INVALID''"
| "reason_value PROTO_VERSION_UNSUPPORTED = ''PROTO_VERSION_UNSUPPORTED''"
| "reason_value PROTO_VERSION_MISMATCH = ''PROTO_VERSION_MISMATCH''"
| "reason_value PROTO_JSON_INVALID = ''PROTO_JSON_INVALID''"
| "reason_value PROTO_JSONRPC_INVALID = ''PROTO_JSONRPC_INVALID''"
| "reason_value PROTO_DUPLICATE_FIELD = ''PROTO_DUPLICATE_FIELD''"
| "reason_value PROTO_LIMIT_EXCEEDED = ''PROTO_LIMIT_EXCEEDED''"
| "reason_value PROTO_METHOD_NOT_ALLOWED = ''PROTO_METHOD_NOT_ALLOWED''"
| "reason_value PROTO_MRTR_UNSUPPORTED = ''PROTO_MRTR_UNSUPPORTED''"
| "reason_value REG_SERVER_UNAVAILABLE = ''REG_SERVER_UNAVAILABLE''"
| "reason_value REG_TOOL_UNKNOWN = ''REG_TOOL_UNKNOWN''"
| "reason_value REG_TOOL_QUARANTINED = ''REG_TOOL_QUARANTINED''"
| "reason_value REG_SCHEMA_DRIFT = ''REG_SCHEMA_DRIFT''"
| "reason_value REG_SCHEMA_UNVERIFIED = ''REG_SCHEMA_UNVERIFIED''"
| "reason_value REG_ARGS_INVALID = ''REG_ARGS_INVALID''"
| "reason_value REG_ARGS_UNKNOWN_FIELD = ''REG_ARGS_UNKNOWN_FIELD''"
| "reason_value CANON_ENCODING_INVALID = ''CANON_ENCODING_INVALID''"
| "reason_value CANON_NULL_BYTE = ''CANON_NULL_BYTE''"
| "reason_value CANON_PATH_REJECTED = ''CANON_PATH_REJECTED''"
| "reason_value CANON_OUTSIDE_ROOT = ''CANON_OUTSIDE_ROOT''"
| "reason_value CANON_SYMLINK_ESCAPE = ''CANON_SYMLINK_ESCAPE''"
| "reason_value CANON_RESOLUTION_FAILED = ''CANON_RESOLUTION_FAILED''"
| "reason_value CANON_SENSITIVE_PATH = ''CANON_SENSITIVE_PATH''"
| "reason_value POLICY_UNAVAILABLE = ''POLICY_UNAVAILABLE''"
| "reason_value POLICY_TIMEOUT = ''POLICY_TIMEOUT''"
| "reason_value POLICY_RESULT_INVALID = ''POLICY_RESULT_INVALID''"
| "reason_value POLICY_REVISION_UNKNOWN = ''POLICY_REVISION_UNKNOWN''"
| "reason_value POLICY_DEFAULT_DENY = ''POLICY_DEFAULT_DENY''"
| "reason_value POLICY_PROHIBITED = ''POLICY_PROHIBITED''"
| "reason_value POLICY_PATH_NOT_PERMITTED = ''POLICY_PATH_NOT_PERMITTED''"
| "reason_value POLICY_OPERATION_NOT_PERMITTED = ''POLICY_OPERATION_NOT_PERMITTED''"
| "reason_value POLICY_SCOPED_READ = ''POLICY_SCOPED_READ''"
| "reason_value POLICY_SCOPED_WRITE = ''POLICY_SCOPED_WRITE''"
| "reason_value POLICY_METADATA_READ = ''POLICY_METADATA_READ''"
| "reason_value POLICY_OBLIGATION_CLAMPED = ''POLICY_OBLIGATION_CLAMPED''"
| "reason_value ROUTE_NO_DECISION = ''ROUTE_NO_DECISION''"
| "reason_value ROUTE_AUTHORIZATION_DIVERGENCE = ''ROUTE_AUTHORIZATION_DIVERGENCE''"
| "reason_value ROUTE_UPSTREAM_UNAVAILABLE = ''ROUTE_UPSTREAM_UNAVAILABLE''"
| "reason_value ROUTE_TIMEOUT = ''ROUTE_TIMEOUT''"
| "reason_value ROUTE_CANCELLED = ''ROUTE_CANCELLED''"
| "reason_value RESP_ENVELOPE_INVALID = ''RESP_ENVELOPE_INVALID''"
| "reason_value RESP_UNSOLICITED = ''RESP_UNSOLICITED''"
| "reason_value RESP_TOO_LARGE = ''RESP_TOO_LARGE''"
| "reason_value RESP_LIMIT_EXCEEDED = ''RESP_LIMIT_EXCEEDED''"
| "reason_value RESP_SHAPE_INVALID = ''RESP_SHAPE_INVALID''"
| "reason_value RESP_MRTR_UNSUPPORTED = ''RESP_MRTR_UNSUPPORTED''"
| "reason_value AUDIT_WRITE_FAILED = ''AUDIT_WRITE_FAILED''"
| "reason_value AUDIT_SCHEMA_INVALID = ''AUDIT_SCHEMA_INVALID''"
| "reason_value INTERNAL_ERROR = ''INTERNAL_ERROR''"

definition all_codes :: "reason_code list" where
  "all_codes =
    [PROTO_MESSAGE_TOO_LARGE,
     PROTO_FRAMING_INVALID,
     PROTO_ORIGIN_REJECTED,
     PROTO_HEADER_BODY_METHOD_MISMATCH,
     PROTO_HEADER_BODY_NAME_MISMATCH,
     PROTO_HEADER_BODY_PARAM_MISMATCH,
     PROTO_METADATA_MISSING,
     PROTO_METADATA_UNEXPECTED,
     PROTO_METADATA_DUPLICATE,
     PROTO_METADATA_INVALID,
     PROTO_VERSION_UNSUPPORTED,
     PROTO_VERSION_MISMATCH,
     PROTO_JSON_INVALID,
     PROTO_JSONRPC_INVALID,
     PROTO_DUPLICATE_FIELD,
     PROTO_LIMIT_EXCEEDED,
     PROTO_METHOD_NOT_ALLOWED,
     PROTO_MRTR_UNSUPPORTED,
     REG_SERVER_UNAVAILABLE,
     REG_TOOL_UNKNOWN,
     REG_TOOL_QUARANTINED,
     REG_SCHEMA_DRIFT,
     REG_SCHEMA_UNVERIFIED,
     REG_ARGS_INVALID,
     REG_ARGS_UNKNOWN_FIELD,
     CANON_ENCODING_INVALID,
     CANON_NULL_BYTE,
     CANON_PATH_REJECTED,
     CANON_OUTSIDE_ROOT,
     CANON_SYMLINK_ESCAPE,
     CANON_RESOLUTION_FAILED,
     CANON_SENSITIVE_PATH,
     POLICY_UNAVAILABLE,
     POLICY_TIMEOUT,
     POLICY_RESULT_INVALID,
     POLICY_REVISION_UNKNOWN,
     POLICY_DEFAULT_DENY,
     POLICY_PROHIBITED,
     POLICY_PATH_NOT_PERMITTED,
     POLICY_OPERATION_NOT_PERMITTED,
     POLICY_SCOPED_READ,
     POLICY_SCOPED_WRITE,
     POLICY_METADATA_READ,
     POLICY_OBLIGATION_CLAMPED,
     ROUTE_NO_DECISION,
     ROUTE_AUTHORIZATION_DIVERGENCE,
     ROUTE_UPSTREAM_UNAVAILABLE,
     ROUTE_TIMEOUT,
     ROUTE_CANCELLED,
     RESP_ENVELOPE_INVALID,
     RESP_UNSOLICITED,
     RESP_TOO_LARGE,
     RESP_LIMIT_EXCEEDED,
     RESP_SHAPE_INVALID,
     RESP_MRTR_UNSUPPORTED,
     AUDIT_WRITE_FAILED,
     AUDIT_SCHEMA_INVALID,
     INTERNAL_ERROR]"

text \<open>\<open>ReasonCode(s)\<close>: the member with that value, or \<open>ValueError\<close>.\<close>

definition reason_of_value :: "string \<Rightarrow> reason_code option" where
  "reason_of_value s = find (\<lambda>c. reason_value c = s) all_codes"

definition ALLOW_CODES :: "reason_code list" where
  "ALLOW_CODES = [POLICY_SCOPED_READ, POLICY_SCOPED_WRITE, POLICY_METADATA_READ]"

definition ADVISORY_CODES :: "reason_code list" where
  "ADVISORY_CODES = [POLICY_OBLIGATION_CLAMPED]"

definition VALID_PREFIXES :: "string list" where
  "VALID_PREFIXES =
     [''PROTO_'', ''IDENT_'', ''REG_'', ''CANON_'', ''POLICY_'', ''ROUTE_'', ''RESP_'',
      ''AUDIT_'', ''INTERNAL_'']"

section \<open>Wire mapping\<close>

definition HEADER_MISMATCH_CODES :: "reason_code list" where
  "HEADER_MISMATCH_CODES =
     [PROTO_HEADER_BODY_METHOD_MISMATCH, PROTO_HEADER_BODY_NAME_MISMATCH,
      PROTO_HEADER_BODY_PARAM_MISMATCH, PROTO_METADATA_MISSING, PROTO_METADATA_UNEXPECTED,
      PROTO_METADATA_DUPLICATE, PROTO_METADATA_INVALID, PROTO_VERSION_MISMATCH]"

abbreviation JSONRPC_HEADER_MISMATCH :: int where "JSONRPC_HEADER_MISMATCH \<equiv> - 32020"
abbreviation JSONRPC_METHOD_NOT_FOUND :: int where "JSONRPC_METHOD_NOT_FOUND \<equiv> - 32601"
abbreviation JSONRPC_INVALID_REQUEST :: int where "JSONRPC_INVALID_REQUEST \<equiv> - 32600"
abbreviation JSONRPC_PARSE_ERROR :: int where "JSONRPC_PARSE_ERROR \<equiv> - 32700"
abbreviation JSONRPC_INVALID_PARAMS :: int where "JSONRPC_INVALID_PARAMS \<equiv> - 32602"
abbreviation JSONRPC_INTERNAL :: int where "JSONRPC_INTERNAL \<equiv> - 32603"

definition wire_shape :: "reason_code \<Rightarrow> int \<times> int" where
  "wire_shape code =
     (if code \<in> set HEADER_MISMATCH_CODES then (400, JSONRPC_HEADER_MISMATCH)
      else (case code of
        PROTO_ORIGIN_REJECTED \<Rightarrow> (403, JSONRPC_INVALID_REQUEST)
      | PROTO_VERSION_UNSUPPORTED \<Rightarrow> (400, JSONRPC_INVALID_REQUEST)
      | PROTO_METHOD_NOT_ALLOWED \<Rightarrow> (404, JSONRPC_METHOD_NOT_FOUND)
      | PROTO_JSON_INVALID \<Rightarrow> (400, JSONRPC_PARSE_ERROR)
      | PROTO_JSONRPC_INVALID \<Rightarrow> (400, JSONRPC_INVALID_REQUEST)
      | PROTO_DUPLICATE_FIELD \<Rightarrow> (400, JSONRPC_INVALID_REQUEST)
      | PROTO_MESSAGE_TOO_LARGE \<Rightarrow> (413, JSONRPC_INVALID_REQUEST)
      | PROTO_LIMIT_EXCEEDED \<Rightarrow> (413, JSONRPC_INVALID_REQUEST)
      | REG_ARGS_INVALID \<Rightarrow> (400, JSONRPC_INVALID_PARAMS)
      | REG_ARGS_UNKNOWN_FIELD \<Rightarrow> (400, JSONRPC_INVALID_PARAMS)
      | ROUTE_TIMEOUT \<Rightarrow> (504, JSONRPC_INTERNAL)
      | POLICY_TIMEOUT \<Rightarrow> (504, JSONRPC_INTERNAL)
      | POLICY_UNAVAILABLE \<Rightarrow> (503, JSONRPC_INTERNAL)
      | ROUTE_UPSTREAM_UNAVAILABLE \<Rightarrow> (503, JSONRPC_INTERNAL)
      | INTERNAL_ERROR \<Rightarrow> (500, JSONRPC_INTERNAL)
      | _ \<Rightarrow> (403, JSONRPC_INVALID_REQUEST)))"

text \<open>
  The explicit table, then \<open>setdefault\<close> for every header-mismatch code, then the default.
\<close>

definition SAFE_MESSAGES :: "(reason_code \<times> string) list" where
  "SAFE_MESSAGES =
     foldl (\<lambda>d c. if dict_has d c then d
                  else dict_set d c ''Request headers do not match the request body.'')
       [(PROTO_ORIGIN_REJECTED, ''Origin not permitted.''),
        (PROTO_VERSION_UNSUPPORTED, ''Unsupported MCP protocol version.''),
        (PROTO_METHOD_NOT_ALLOWED, ''Method not found.''),
        (PROTO_JSON_INVALID, ''Malformed JSON.''),
        (PROTO_JSONRPC_INVALID, ''Malformed JSON-RPC request.''),
        (PROTO_MESSAGE_TOO_LARGE, ''Request too large.''),
        (PROTO_LIMIT_EXCEEDED, ''Request exceeds a structural limit.''),
        (ROUTE_TIMEOUT, ''Upstream timed out.''),
        (ROUTE_CANCELLED, ''Request cancelled.''),
        (RESP_TOO_LARGE, ''Upstream response too large.'')]
       HEADER_MISMATCH_CODES"

definition safe_message :: "reason_code \<Rightarrow> string" where
  "safe_message code =
     (case dict_get SAFE_MESSAGES code of Some m \<Rightarrow> m | None \<Rightarrow> ''Request denied.'')"

section \<open>Exceptions\<close>

text \<open>
  A \<open>GatewayDenial\<close> is its subclass, given by the stage the class carries (the base class
  carries \<open>PROTOCOL\<close>), and its reason code; \<open>detail\<close> goes to a diagnostic sink only and is
  left out. The other constructors are the exceptions the code lets through or raises
  on purpose: an anyio cancellation, a \<open>TimeoutError\<close>, a broken invariant, a startup
  failure, and any other Python exception by its class name.
\<close>

datatype exc =
    Denial stage reason_code
  | Cancelled
  | TimeoutError
  | ProgrammingError
  | ConfigError
  | PyError string

type_synonym 'a result = "exc + 'a"

definition denial_stage :: "exc \<Rightarrow> stage option" where
  "denial_stage e = (case e of Denial st _ \<Rightarrow> Some st | _ \<Rightarrow> None)"

definition is_denial :: "exc \<Rightarrow> bool" where
  "is_denial e = (case e of Denial _ _ \<Rightarrow> True | _ \<Rightarrow> False)"

section \<open>Properties of the vocabulary\<close>

lemma all_codes_complete: "c \<in> set all_codes"
  by (cases c) (simp_all add: all_codes_def)

lemma distinct_code_values: "distinct (map reason_value all_codes)"
  by (simp add: all_codes_def)

lemma reason_value_inj: "reason_value a = reason_value b \<Longrightarrow> a = b"
  using distinct_code_values all_codes_complete [of a] all_codes_complete [of b]
  by (auto simp: distinct_map inj_on_def)

lemma reason_of_value_Some: "reason_of_value s = Some c \<Longrightarrow> reason_value c = s"
  unfolding reason_of_value_def by (auto simp: find_Some_iff)

lemma reason_of_value_value: "reason_of_value (reason_value c) = Some c"
proof (cases "reason_of_value (reason_value c)")
  case None
  then have "\<not> (\<exists>x. x \<in> set all_codes \<and> reason_value x = reason_value c)"
    by (simp add: reason_of_value_def find_None_iff)
  with all_codes_complete [of c] show ?thesis by blast
next
  case (Some c')
  then have "reason_value c' = reason_value c" by (rule reason_of_value_Some)
  with Some show ?thesis using reason_value_inj by simp
qed

section \<open>Properties\<close>

text \<open>
  a reason code's wire spelling identifies it, so a code that travels through the policy
  engine as text comes back as the same code or not at all.
\<close>

lemma reason_code_roundtrip: "reason_of_value s = Some c \<longleftrightarrow> s = reason_value c"
  using reason_of_value_Some reason_of_value_value by blast

lemma all_codesI: "list_all P all_codes \<Longrightarrow> P c"
  using all_codes_complete [of c] by (auto simp: list_all_iff)

text \<open>
  every denial has a response. Whatever the reason code, the HTTP status is an error
  status between 400 and 504, the JSON-RPC code lies in the reserved range, and the code's
  spelling starts with the prefix of a known stage.
\<close>

lemma wire_shape_bounds:
  "400 \<le> fst (wire_shape c) \<and> fst (wire_shape c) \<le> 504
   \<and> - 32768 \<le> snd (wire_shape c) \<and> snd (wire_shape c) \<le> - 32000
   \<and> list_ex (\<lambda>p. starts_with p (reason_value c)) VALID_PREFIXES"
  by (rule all_codesI [of "\<lambda>c. 400 \<le> fst (wire_shape c) \<and> fst (wire_shape c) \<le> 504
      \<and> - 32768 \<le> snd (wire_shape c) \<and> snd (wire_shape c) \<le> - 32000
      \<and> list_ex (\<lambda>p. starts_with p (reason_value c)) VALID_PREFIXES"]) code_simp

end
