(* ===== verification/Py_Value.thy ===== *)
theory Py_Value
  imports Gateway_Errors "HOL-Library.List_Lexorder"
begin

text \<open>
  The Python values that travel through the gateway (decoded JSON, and its deep-frozen
  form), \<open>deep_freeze\<close> and \<open>thaw\<close> of \<open>gateway/types.py\<close>, and the container measures the
  structural limits speak about. A list and a tuple, a dict and a \<open>MappingProxyType\<close>, are
  one constructor each with a mutability flag, since \<open>isinstance(v, list)\<close> and
  \<open>isinstance(v, Mapping)\<close> tell them apart differently.
\<close>

section \<open>Values\<close>

text \<open>A finite float is kept as its sign, decimal digits and power of ten.\<close>

datatype pyfloat = Dec bool nat int | PosInf | NegInf | NaN

datatype mutability = Mut | Frz

datatype pyval =
    PNone
  | PBool bool
  | PInt int
  | PFloat pyfloat
  | PStr ustr
  | PArr mutability "pyval list"
  | PObj mutability "(ustr \<times> pyval) list"

definition is_mapping :: "pyval \<Rightarrow> bool" where
  "is_mapping v = (case v of PObj _ _ \<Rightarrow> True | _ \<Rightarrow> False)"

definition is_dict :: "pyval \<Rightarrow> bool" where
  "is_dict v = (case v of PObj Mut _ \<Rightarrow> True | _ \<Rightarrow> False)"

definition is_list :: "pyval \<Rightarrow> bool" where
  "is_list v = (case v of PArr Mut _ \<Rightarrow> True | _ \<Rightarrow> False)"

definition is_str :: "pyval \<Rightarrow> bool" where
  "is_str v = (case v of PStr _ \<Rightarrow> True | _ \<Rightarrow> False)"

section \<open>Freezing\<close>

primrec deep_freeze :: "pyval \<Rightarrow> pyval" where
  "deep_freeze PNone = PNone"
| "deep_freeze (PBool b) = PBool b"
| "deep_freeze (PInt i) = PInt i"
| "deep_freeze (PFloat f) = PFloat f"
| "deep_freeze (PStr s) = PStr s"
| "deep_freeze (PArr m xs) = PArr Frz (map deep_freeze xs)"
| "deep_freeze (PObj m kvs) = PObj Frz (map (map_prod id deep_freeze) kvs)"

primrec thaw :: "pyval \<Rightarrow> pyval" where
  "thaw PNone = PNone"
| "thaw (PBool b) = PBool b"
| "thaw (PInt i) = PInt i"
| "thaw (PFloat f) = PFloat f"
| "thaw (PStr s) = PStr s"
| "thaw (PArr m xs) = PArr Mut (map thaw xs)"
| "thaw (PObj m kvs) = PObj Mut (map (map_prod id thaw) kvs)"

text \<open>\<open>all_mut m v\<close>: every container in \<open>v\<close>, at any depth, has mutability \<open>m\<close>.\<close>

primrec all_mut :: "mutability \<Rightarrow> pyval \<Rightarrow> bool" where
  "all_mut m PNone \<longleftrightarrow> True"
| "all_mut m (PBool b) \<longleftrightarrow> True"
| "all_mut m (PInt i) \<longleftrightarrow> True"
| "all_mut m (PFloat f) \<longleftrightarrow> True"
| "all_mut m (PStr s) \<longleftrightarrow> True"
| "all_mut m (PArr m' xs) \<longleftrightarrow> m' = m \<and> list_all id (map (all_mut m) xs)"
| "all_mut m (PObj m' kvs) \<longleftrightarrow> m' = m \<and> list_all snd (map (map_prod id (all_mut m)) kvs)"

lemma list_all_map_id: "list_all id (map f xs) \<longleftrightarrow> (\<forall>x \<in> set xs. f x)"
  by (simp add: list_all_iff)

lemma list_all_map_snd: "list_all snd (map (map_prod id f) kvs) \<longleftrightarrow> (\<forall>(k, v) \<in> set kvs. f v)"
  by (auto simp: list_all_iff)

lemma deep_freeze_frozen: "all_mut Frz (deep_freeze v)"
  by (induction v) (auto simp: list_all_iff)

lemma thaw_deep_freeze: "thaw (deep_freeze v) = thaw v"
  by (induction v) (auto simp: map_prod_def)

lemma thaw_plain: "all_mut Mut v \<Longrightarrow> thaw v = v"
proof (induction v)
  case (PArr m xs)
  then show ?case by (auto simp: list_all_iff intro: map_idI)
next
  case (PObj m kvs)
  then show ?case by (fastforce simp: list_all_iff intro!: map_idI)
qed auto

lemma thaw_mut: "all_mut Mut (thaw v)"
  by (induction v) (auto simp: list_all_iff)

lemma deep_freeze_thaw: "deep_freeze (thaw v) = deep_freeze v"
  by (induction v) (auto simp: map_prod_def)

lemma thaw_idem [simp]: "thaw (thaw v) = thaw v"
  by (rule thaw_plain [OF thaw_mut])

lemma deep_freeze_idem [simp]: "deep_freeze (deep_freeze v) = deep_freeze v"
  by (metis deep_freeze_thaw thaw_deep_freeze)

section \<open>Reading a mapping\<close>

text \<open>\<open>v.get(k)\<close>, \<open>k in v\<close> for a mapping; a missing key and a null value are told apart by
  \<open>obj_has\<close>, as in the source.\<close>

definition items :: "pyval \<Rightarrow> (ustr \<times> pyval) list" where
  "items v = (case v of PObj _ kvs \<Rightarrow> kvs | _ \<Rightarrow> [])"

definition obj_get :: "pyval \<Rightarrow> ustr \<Rightarrow> pyval" where
  "obj_get v k = (case dict_get (items v) k of None \<Rightarrow> PNone | Some x \<Rightarrow> x)"

definition obj_has :: "pyval \<Rightarrow> ustr \<Rightarrow> bool" where
  "obj_has v k = dict_has (items v) k"

lemma items_PObj [simp]: "items (PObj m kvs) = kvs"
  by (simp add: items_def)

section \<open>Measures\<close>

text \<open>Nesting depth counted in containers, as the byte prescan counts it.\<close>

primrec container_depth :: "pyval \<Rightarrow> nat" where
  "container_depth PNone = 0"
| "container_depth (PBool b) = 0"
| "container_depth (PInt i) = 0"
| "container_depth (PFloat f) = 0"
| "container_depth (PStr s) = 0"
| "container_depth (PArr m xs) = Suc (foldr max (map container_depth xs) 0)"
| "container_depth (PObj m kvs) = Suc (foldr max (map snd (map (map_prod id container_depth) kvs)) 0)"

text \<open>The number of object members in the whole document.\<close>

primrec total_fields :: "pyval \<Rightarrow> nat" where
  "total_fields PNone = 0"
| "total_fields (PBool b) = 0"
| "total_fields (PInt i) = 0"
| "total_fields (PFloat f) = 0"
| "total_fields (PStr s) = 0"
| "total_fields (PArr m xs) = sum_list (map total_fields xs)"
| "total_fields (PObj m kvs) = length kvs + sum_list (map snd (map (map_prod id total_fields) kvs))"

lemma foldr_max_le_iff: "foldr max xs 0 \<le> (n::nat) \<longleftrightarrow> (\<forall>x \<in> set xs. x \<le> n)"
  by (induction xs) auto

text \<open>Every object of the value has distinct keys, as a dict has.\<close>

primrec keys_distinct :: "pyval \<Rightarrow> bool" where
  "keys_distinct PNone \<longleftrightarrow> True"
| "keys_distinct (PBool b) \<longleftrightarrow> True"
| "keys_distinct (PInt i) \<longleftrightarrow> True"
| "keys_distinct (PFloat f) \<longleftrightarrow> True"
| "keys_distinct (PStr s) \<longleftrightarrow> True"
| "keys_distinct (PArr m xs) \<longleftrightarrow> list_all id (map keys_distinct xs)"
| "keys_distinct (PObj m kvs) \<longleftrightarrow>
     distinct_keys kvs \<and> list_all snd (map (map_prod id keys_distinct) kvs)"

section \<open>Properties\<close>

text \<open>
  freezing a decoded document loses nothing and leaves nothing writable: every container
  of the frozen value is immutable at every depth, and thawing gives the document back.
\<close>

lemma freeze_thaw:
  "all_mut Frz (deep_freeze v) \<and> all_mut Mut (thaw v) \<and> thaw (deep_freeze v) = thaw v
   \<and> deep_freeze (thaw v) = deep_freeze v \<and> (all_mut Mut v = (thaw v = v))"
  using deep_freeze_frozen thaw_mut thaw_deep_freeze deep_freeze_thaw thaw_plain by metis

end
