(* ===== verification/Json_Text.thy ===== *)
theory Json_Text
  imports Py_Value "HOL-Library.Multiset"
begin

text \<open>
  The standard library's \<open>json\<close> as the gateway calls it: \<open>json.loads\<close> on a byte body with
  an \<open>object_pairs_hook\<close> and a \<open>parse_constant\<close> hook, and \<open>json.dumps\<close> with sorted keys
  and tight separators. Both follow the C accelerator of CPython: where the interpreter
  stops (malformed text, an integer literal beyond the conversion limit, the recursion
  limit, a hook that raises) is a branch of its own. The main results are that the fuel of
  the scanner is always enough (\<open>json_decode_no_fuel\<close>) and that what \<open>dumps\<close> writes
  \<open>loads\<close> reads back, with keys sorted (\<open>decode_text\<close>).
\<close>

section \<open>Writing\<close>

fun digits_rev :: "nat \<Rightarrow> nat list" where
  "digits_rev n = (if n < 10 then [48 + n] else (48 + n mod 10) # digits_rev (n div 10))"

declare digits_rev.simps [simp del]

definition nat_text :: "nat \<Rightarrow> ustr" where
  "nat_text n = rev (digits_rev n)"

definition int_text :: "int \<Rightarrow> ustr" where
  "int_text i = (if i < 0 then 45 # nat_text (nat (- i)) else nat_text (nat i))"

definition hex_digit :: "nat \<Rightarrow> nat" where
  "hex_digit v = (if v < 10 then 48 + v else 87 + v)"

text \<open>\<open>ensure_ascii=False\<close>: only the quote, the backslash and the control characters.\<close>

definition escape_char :: "nat \<Rightarrow> ustr" where
  "escape_char c =
     (if c = 34 then [92, 34] else if c = 92 then [92, 92]
      else if c = 10 then [92, 110] else if c = 13 then [92, 114] else if c = 9 then [92, 116]
      else if c = 12 then [92, 102] else if c = 8 then [92, 98]
      else if c < 32 then [92, 117, 48, 48, hex_digit (c div 16), hex_digit (c mod 16)]
      else [c])"

definition string_text :: "ustr \<Rightarrow> ustr" where
  "string_text s = 34 # concat (map escape_char s) @ [34]"

text \<open>\<open>sort_keys=True, separators=(",", ":")\<close>; \<open>fr\<close> is \<open>float.__repr__\<close>.\<close>

primrec json_text :: "(pyfloat \<Rightarrow> ustr) \<Rightarrow> pyval \<Rightarrow> ustr" where
  "json_text fr PNone = u ''null''"
| "json_text fr (PBool b) = (if b then u ''true'' else u ''false'')"
| "json_text fr (PInt i) = int_text i"
| "json_text fr (PFloat f) = fr f"
| "json_text fr (PStr s) = string_text s"
| "json_text fr (PArr m xs) = 91 # join_with [44] (map (json_text fr) xs) @ [93]"
| "json_text fr (PObj m kvs) =
     123 # join_with [44]
             (map (\<lambda>(k, t). string_text k @ 58 # t)
                (sort_key fst (map (map_prod id (json_text fr)) kvs))) @ [125]"

text \<open>\<open>allow_nan=False\<close>: a non-finite float anywhere is a \<open>ValueError\<close>.\<close>

primrec no_nan :: "pyval \<Rightarrow> bool" where
  "no_nan PNone \<longleftrightarrow> True"
| "no_nan (PBool b) \<longleftrightarrow> True"
| "no_nan (PInt i) \<longleftrightarrow> True"
| "no_nan (PFloat f) \<longleftrightarrow> (case f of Dec _ _ _ \<Rightarrow> True | _ \<Rightarrow> False)"
| "no_nan (PStr s) \<longleftrightarrow> True"
| "no_nan (PArr m xs) \<longleftrightarrow> list_all id (map no_nan xs)"
| "no_nan (PObj m kvs) \<longleftrightarrow> list_all snd (map (map_prod id no_nan) kvs)"

section \<open>Reading\<close>

datatype 'e jexc =
    JSONDecodeError
  | UnicodeDecodeError
  | IntTooLong
  | RecursionError
  | Hook 'e
  | OutOfFuel

definition is_ws :: "nat \<Rightarrow> bool" where
  "is_ws c \<longleftrightarrow> c = 32 \<or> c = 9 \<or> c = 10 \<or> c = 13"

definition skip_ws :: "ustr \<Rightarrow> ustr" where
  "skip_ws s = dropWhile is_ws s"

definition is_digit :: "nat \<Rightarrow> bool" where
  "is_digit c \<longleftrightarrow> 48 \<le> c \<and> c \<le> 57"

definition expect :: "nat \<Rightarrow> ustr \<Rightarrow> 'e jexc + ustr" where
  "expect c s = (case s of x # r \<Rightarrow> if x = c then Inr r else Inl JSONDecodeError
                 | [] \<Rightarrow> Inl JSONDecodeError)"

text \<open>The character after a backslash, \<open>u\<close> aside.\<close>

definition simple_escape :: "nat \<Rightarrow> nat option" where
  "simple_escape e =
     (if e = 34 \<or> e = 92 \<or> e = 47 then Some e
      else if e = 98 then Some 8 else if e = 102 then Some 12 else if e = 110 then Some 10
      else if e = 114 then Some 13 else if e = 116 then Some 9 else None)"

text \<open>Four hexadecimal digits and what follows them.\<close>

definition hex4 :: "ustr \<Rightarrow> (nat \<times> ustr) option" where
  "hex4 s = (case s of a # b # c # d # r \<Rightarrow>
       (case (hex_val a, hex_val b, hex_val c, hex_val d) of
          (Some va, Some vb, Some vc, Some vd) \<Rightarrow>
            Some (4096 * va + 256 * vb + 16 * vc + vd, r)
        | _ \<Rightarrow> None)
     | _ \<Rightarrow> None)"

text \<open>
  A \<open>\u\<close> escape: a high surrogate directly followed by the escape of a low one makes one
  code point; any other code unit stands for itself.
\<close>

definition unicode_escape :: "ustr \<Rightarrow> (nat \<times> ustr) option" where
  "unicode_escape s = (case hex4 s of None \<Rightarrow> None
     | Some (h, r) \<Rightarrow>
         if 0xD800 \<le> h \<and> h < 0xDC00 \<and> starts_with [92, 117] r
         then (case hex4 (drop 2 r) of None \<Rightarrow> None
               | Some (l, r2) \<Rightarrow>
                   if 0xDC00 \<le> l \<and> l < 0xE000
                   then Some (0x10000 + (h - 0xD800) * 1024 + (l - 0xDC00), r2)
                   else Some (h, r))
         else Some (h, r))"

lemma length_hex4: "hex4 s = Some (v, r) \<Longrightarrow> length r < length s"
  by (auto simp: hex4_def split: list.splits option.splits)

lemma length_unicode_escape: "unicode_escape s = Some (v, r) \<Longrightarrow> length r < length s"
proof -
  assume a: "unicode_escape s = Some (v, r)"
  then obtain h r1 where h: "hex4 s = Some (h, r1)"
    by (auto simp: unicode_escape_def split: option.splits)
  note l1 = length_hex4 [OF h]
  show ?thesis
  proof (cases "r = r1")
    case True
    with l1 show ?thesis by simp
  next
    case False
    with a h obtain l where "hex4 (drop 2 r1) = Some (l, r)"
      by (auto simp: unicode_escape_def split: if_splits option.splits)
    from length_hex4 [OF this] l1 show ?thesis by simp
  qed
qed

text \<open>The text of a string after its opening quote (strict: no raw control character).\<close>

function scan_string :: "ustr \<Rightarrow> 'e jexc + (ustr \<times> ustr)" where
  "scan_string [] = Inl JSONDecodeError"
| "scan_string (c # r) =
     (if c = 34 then Inr ([], r)
      else if c = 92 then
        (case r of [] \<Rightarrow> Inl JSONDecodeError
         | e # r1 \<Rightarrow>
             if e = 117
             then (case unicode_escape r1 of None \<Rightarrow> Inl JSONDecodeError
                   | Some (v, r2) \<Rightarrow> mapR (map_prod (Cons v) id) (scan_string r2))
             else (case simple_escape e of None \<Rightarrow> Inl JSONDecodeError
                   | Some v \<Rightarrow> mapR (map_prod (Cons v) id) (scan_string r1)))
      else if c < 32 then Inl JSONDecodeError
      else mapR (map_prod (Cons c) id) (scan_string r))"
  by pat_completeness auto
termination
  by (relation "measure length") (auto dest: length_unicode_escape)

subsection \<open>Numbers\<close>

fun nat_of_digits :: "nat \<Rightarrow> ustr \<Rightarrow> nat" where
  "nat_of_digits a [] = a"
| "nat_of_digits a (c # r) = nat_of_digits (10 * a + (c - 48)) r"

text \<open>\<open>sys.get_int_max_str_digits()\<close>, which the source does not change.\<close>

definition INT_MAX_STR_DIGITS :: nat where
  "INT_MAX_STR_DIGITS = 4300"

text \<open>
  \<open>float(text)\<close>: a magnitude of at least 2^1024 - 2^970 rounds to infinity, which is not
  an error and does not go through \<open>parse_constant\<close>.
\<close>

definition float_of_decimal :: "bool \<Rightarrow> nat \<Rightarrow> int \<Rightarrow> pyfloat" where
  "float_of_decimal neg m e =
     (let big = (if 0 \<le> e then (2::nat) ^ 1024 - 2 ^ 970 \<le> m * 10 ^ nat e
                 else (2 ^ 1024 - 2 ^ 970) * 10 ^ nat (- e) \<le> m)
      in if big then (if neg then NegInf else PosInf) else Dec neg m e)"

definition scan_int_part :: "ustr \<Rightarrow> (ustr \<times> ustr) option" where
  "scan_int_part s = (case s of [] \<Rightarrow> None
     | d # r \<Rightarrow> if d = 48 then Some ([48], r)
               else if is_digit d then Some (takeWhile is_digit s, dropWhile is_digit s)
               else None)"

definition scan_frac :: "ustr \<Rightarrow> ustr option \<times> ustr" where
  "scan_frac s = (case s of [] \<Rightarrow> (None, s)
     | c # r \<Rightarrow> if c = 46 \<and> takeWhile is_digit r \<noteq> []
               then (Some (takeWhile is_digit r), dropWhile is_digit r) else (None, s))"

definition scan_exp :: "ustr \<Rightarrow> int option \<times> ustr" where
  "scan_exp s = (case s of [] \<Rightarrow> (None, s)
     | c # r \<Rightarrow>
         if c = 101 \<or> c = 69 then
           (let (neg, r1) = (case r of x # r' \<Rightarrow> if x = 45 then (True, r')
                                                else if x = 43 then (False, r') else (False, r)
                             | [] \<Rightarrow> (False, r));
                ds = takeWhile is_digit r1
            in if ds = [] then (None, s)
               else (Some ((if neg then - 1 else 1) * int (nat_of_digits 0 ds)),
                     dropWhile is_digit r1))
         else (None, s))"

definition scan_number :: "ustr \<Rightarrow> 'e jexc + (pyval \<times> ustr)" where
  "scan_number s =
     (let (neg, s1) = (case s of x # r \<Rightarrow> if x = 45 then (True, r) else (False, s)
                       | [] \<Rightarrow> (False, s))
      in case scan_int_part s1 of None \<Rightarrow> Inl JSONDecodeError
         | Some (ds, s2) \<Rightarrow>
             (let (frac, s3) = scan_frac s2; (ex, s4) = scan_exp s3 in
              if frac = None \<and> ex = None then
                (if INT_MAX_STR_DIGITS < length ds then Inl IntTooLong
                 else Inr (PInt ((if neg then - 1 else 1) * int (nat_of_digits 0 ds)), s2))
              else
                (let fd = (case frac of None \<Rightarrow> [] | Some f \<Rightarrow> f);
                     x = (case ex of None \<Rightarrow> 0 | Some i \<Rightarrow> i)
                 in Inr (PFloat (float_of_decimal neg (nat_of_digits 0 (ds @ fd))
                                   (x - int (length fd))), s4))))"

subsection \<open>Values\<close>

text \<open>
  \<open>scan_once\<close> reads one value; \<open>scan_items\<close> the elements of an array after its bracket
  (at least one), \<open>scan_members\<close> the members of an object after the quote of its first
  key. \<open>d\<close> is the number of open containers and \<open>rl\<close> the interpreter's recursion limit;
  the first argument is fuel.
\<close>

definition run_hook :: "'e + 'a \<Rightarrow> 'e jexc + 'a" where
  "run_hook r = (case r of Inl e \<Rightarrow> Inl (Hook e) | Inr v \<Rightarrow> Inr v)"

lemma run_hook_simps [simp]:
  "run_hook (Inl e) = Inl (Hook e)"
  "run_hook (Inr v) = Inr v"
  by (simp_all add: run_hook_def)

lemma run_hook_iff:
  "run_hook r = Inr v \<longleftrightarrow> r = Inr v"
  "run_hook r = Inl e \<longleftrightarrow> (\<exists>e'. e = Hook e' \<and> r = Inl e')"
  by (cases r; auto)+

definition special_const :: "(string \<Rightarrow> 'e + pyval) \<Rightarrow> string \<Rightarrow> ustr \<Rightarrow> 'e jexc + (pyval \<times> ustr)" where
  "special_const pc name r = mapR (\<lambda>v. (v, r)) (run_hook (pc name))"

definition scan_atom :: "(string \<Rightarrow> 'e + pyval) \<Rightarrow> ustr \<Rightarrow> 'e jexc + (pyval \<times> ustr)" where
  "scan_atom pc s =
     (if starts_with (u ''null'') s then Inr (PNone, drop 4 s)
      else if starts_with (u ''true'') s then Inr (PBool True, drop 4 s)
      else if starts_with (u ''false'') s then Inr (PBool False, drop 5 s)
      else if starts_with (u ''NaN'') s then special_const pc ''NaN'' (drop 3 s)
      else if starts_with (u ''Infinity'') s then special_const pc ''Infinity'' (drop 8 s)
      else if starts_with (u ''-Infinity'') s then special_const pc ''-Infinity'' (drop 9 s)
      else scan_number s)"

fun scan_once :: "((ustr \<times> pyval) list \<Rightarrow> 'e + pyval) \<Rightarrow> (string \<Rightarrow> 'e + pyval) \<Rightarrow> nat
    \<Rightarrow> nat \<Rightarrow> nat \<Rightarrow> ustr \<Rightarrow> 'e jexc + (pyval \<times> ustr)"
  and scan_items :: "((ustr \<times> pyval) list \<Rightarrow> 'e + pyval) \<Rightarrow> (string \<Rightarrow> 'e + pyval) \<Rightarrow> nat
    \<Rightarrow> nat \<Rightarrow> nat \<Rightarrow> ustr \<Rightarrow> 'e jexc + (pyval list \<times> ustr)"
  and scan_members :: "((ustr \<times> pyval) list \<Rightarrow> 'e + pyval) \<Rightarrow> (string \<Rightarrow> 'e + pyval) \<Rightarrow> nat
    \<Rightarrow> nat \<Rightarrow> nat \<Rightarrow> ustr \<Rightarrow> 'e jexc + ((ustr \<times> pyval) list \<times> ustr)" where
  "scan_once h pc rl 0 d s = Inl OutOfFuel"
| "scan_once h pc rl (Suc n) d s =
     (case s of [] \<Rightarrow> Inl JSONDecodeError
      | x # r \<Rightarrow>
          if x = 34 then mapR (map_prod PStr id) (scan_string r)
          else if x = 123 then
            (if rl \<le> d then Inl RecursionError
             else if starts_with [125] (skip_ws r) then
               mapR (\<lambda>v. (v, tl (skip_ws r))) (run_hook (h []))
             else bindR (expect 34 (skip_ws r)) (\<lambda>r1.
                  bindR (scan_members h pc rl n (Suc d) r1) (\<lambda>(kvs, r2).
                  mapR (\<lambda>v. (v, r2)) (run_hook (h kvs)))))
          else if x = 91 then
            (if rl \<le> d then Inl RecursionError
             else if starts_with [93] (skip_ws r) then Inr (PArr Mut [], tl (skip_ws r))
             else mapR (map_prod (PArr Mut) id) (scan_items h pc rl n (Suc d) (skip_ws r)))
          else scan_atom pc s)"
| "scan_items h pc rl 0 d s = Inl OutOfFuel"
| "scan_items h pc rl (Suc n) d s =
     bindR (scan_once h pc rl n d s) (\<lambda>(v, r).
       if starts_with [44] (skip_ws r)
       then mapR (map_prod (Cons v) id) (scan_items h pc rl n d (skip_ws (tl (skip_ws r))))
       else mapR (\<lambda>r2. ([v], r2)) (expect 93 (skip_ws r)))"
| "scan_members h pc rl 0 d s = Inl OutOfFuel"
| "scan_members h pc rl (Suc n) d s =
     bindR (scan_string s) (\<lambda>(k, r).
     bindR (expect 58 (skip_ws r)) (\<lambda>r1.
     bindR (scan_once h pc rl n d (skip_ws r1)) (\<lambda>(v, r2).
       if starts_with [44] (skip_ws r2)
       then bindR (expect 34 (skip_ws (tl (skip_ws r2)))) (\<lambda>r3.
            mapR (map_prod (Cons (k, v)) id) (scan_members h pc rl n d r3))
       else mapR (\<lambda>r3. ([(k, v)], r3)) (expect 125 (skip_ws r2)))))"

declare scan_once.simps [simp del] scan_items.simps [simp del] scan_members.simps [simp del]

text \<open>\<open>JSONDecoder.decode\<close>: one value, nothing but white space around it.\<close>

definition json_decode :: "((ustr \<times> pyval) list \<Rightarrow> 'e + pyval) \<Rightarrow> (string \<Rightarrow> 'e + pyval)
    \<Rightarrow> nat \<Rightarrow> ustr \<Rightarrow> 'e jexc + pyval" where
  "json_decode h pc rl s =
     bindR (scan_once h pc rl (2 * length s + 2) 0 (skip_ws s)) (\<lambda>(v, r).
       if skip_ws r = [] then Inr v else Inl JSONDecodeError)"

text \<open>\<open>json.detect_encoding\<close> and the decoding of the body it selects.\<close>

definition json_decode_bytes :: "nat list \<Rightarrow> ustr option" where
  "json_decode_bytes b =
     (if starts_with [0, 0, 0xFE, 0xFF] b then utf32_dec False (drop 4 b)
      else if starts_with [0xFF, 0xFE, 0, 0] b then utf32_dec True (drop 4 b)
      else if starts_with [0xFE, 0xFF] b then utf16_dec False (drop 2 b)
      else if starts_with [0xFF, 0xFE] b then utf16_dec True (drop 2 b)
      else if starts_with [0xEF, 0xBB, 0xBF] b then utf8_dec True (drop 3 b)
      else if 4 \<le> length b then
        (if b ! 0 = 0 then (if b ! 1 \<noteq> 0 then utf16_dec False b else utf32_dec False b)
         else if b ! 1 = 0
           then (if b ! 2 \<noteq> 0 \<or> b ! 3 \<noteq> 0 then utf16_dec True b else utf32_dec True b)
         else utf8_dec True b)
      else if length b = 2 then
        (if b ! 0 = 0 then utf16_dec False b
         else if b ! 1 = 0 then utf16_dec True b else utf8_dec True b)
      else utf8_dec True b)"

definition json_loads :: "((ustr \<times> pyval) list \<Rightarrow> 'e + pyval) \<Rightarrow> (string \<Rightarrow> 'e + pyval)
    \<Rightarrow> nat \<Rightarrow> bytes \<Rightarrow> 'e jexc + pyval" where
  "json_loads h pc rl body =
     (case json_decode_bytes (map unat body) of
        None \<Rightarrow> Inl UnicodeDecodeError
      | Some s \<Rightarrow> json_decode h pc rl s)"

section \<open>The scanner consumes, and its fuel is enough\<close>

lemma starts_with_length: "starts_with p s \<Longrightarrow> length p \<le> length s"
  by (auto simp: starts_with_iff)

lemma length_skip_ws: "length (skip_ws s) \<le> length s"
  by (simp add: skip_ws_def length_dropWhile_le)

lemma expect_Inr: "expect c s = Inr r \<longleftrightarrow> s = c # r"
  by (auto simp: expect_def split: list.splits)

lemma expect_Inl: "expect c s = Inl e \<Longrightarrow> e = JSONDecodeError"
  by (auto simp: expect_def split: list.splits if_splits)

lemma scan_string_shorter: "scan_string s = Inr (t, r) \<Longrightarrow> length r < length s"
proof (induction s arbitrary: t r rule: scan_string.induct)
  case 1
  then show ?case by simp
next
  case (2 c s)
  show ?case
  proof (cases "c = 34 \<or> c < 32 \<and> c \<noteq> 92 \<or> s = []")
    case True
    with 2 show ?thesis by (auto split: if_splits simp: mapR_Inr_iff)
  next
    case False
    with 2 show ?thesis
      by (fastforce split: if_splits list.splits option.splits simp: mapR_Inr_iff
          dest: length_unicode_escape)
  qed
qed

lemma scan_string_error: "scan_string s = Inl e \<Longrightarrow> e = JSONDecodeError"
  by (induction s rule: scan_string.induct)
    (auto split: if_splits list.splits option.splits simp: mapR_Inl_iff)

lemma length_dropWhile_hd: "takeWhile P s \<noteq> [] \<Longrightarrow> length (dropWhile P s) < length s"
  by (cases s) (auto simp: length_dropWhile_le le_imp_less_Suc split: if_splits)

lemma scan_frac_le: "scan_frac s = (f, r) \<Longrightarrow> length r \<le> length s"
  by (auto simp: scan_frac_def length_dropWhile_le le_SucI split: list.splits if_splits)

lemma scan_exp_le: "scan_exp s = (x, r) \<Longrightarrow> length r \<le> length s"
  unfolding scan_exp_def
  by (auto simp: Let_def length_dropWhile_le le_SucI split: list.splits if_splits)

lemma scan_int_part_less: "scan_int_part s = Some (d, r) \<Longrightarrow> length r < length s"
  by (auto simp: scan_int_part_def length_dropWhile_le le_imp_less_Suc split: list.splits if_splits)

lemma scan_number_shorter: 
  assumes "scan_number s = Inr (v, r)" shows "length r < length s"
proof -
  obtain neg s1 where n: "(case s of x # r \<Rightarrow> if x = 45 then (True, r) else (False, s) | [] \<Rightarrow> (False, s)) = (neg, s1)"
    by (metis surj_pair)
  have l1: "length s1 \<le> length s" using n by (auto split: list.splits if_splits)
  obtain ds s2 where i: "scan_int_part s1 = Some (ds, s2)"
    using assms n by (auto simp: scan_number_def Let_def split: option.splits)
  obtain f s3 where f: "scan_frac s2 = (f, s3)" by (metis surj_pair)
  obtain x s4 where x: "scan_exp s3 = (x, s4)" by (metis surj_pair)
  have "r = s2 \<or> r = s4"
    using assms unfolding scan_number_def n i f x Let_def prod.case option.case f x by (auto split: if_splits)
  with l1 scan_int_part_less [OF i] scan_frac_le [OF f] scan_exp_le [OF x] show ?thesis by auto
qed

lemma scan_number_error: "scan_number s = Inl e \<Longrightarrow> e = JSONDecodeError \<or> e = IntTooLong"
  by (auto simp: scan_number_def Let_def split: option.splits prod.splits if_splits)

lemma scan_atom_shorter: "scan_atom pc s = Inr (v, r) \<Longrightarrow> length r < length s"
  by (auto simp: scan_atom_def special_const_def mapR_Inr_iff dest!: starts_with_length
      dest: scan_number_shorter split: if_splits sum.splits)

lemma scan_atom_fuel: "scan_atom pc s \<noteq> Inl OutOfFuel"
  using scan_number_error [of s OutOfFuel]
  by (auto simp: scan_atom_def special_const_def mapR_Inl_iff run_hook_iff split: if_splits)
lemma skip_ws_less: "skip_ws r = x # r1 \<Longrightarrow> length r1 < length r"
  using length_skip_ws [of r] by simp

lemma tl_skip_ws_less: "starts_with [c] (skip_ws r) \<Longrightarrow> length (tl (skip_ws r)) < length r"
  using length_skip_ws [of r] by (auto simp: starts_with_iff)

lemma scan_shorter:
  fixes h :: "(ustr \<times> pyval) list \<Rightarrow> 'e + pyval"
  shows
  "scan_once h pc rl n d s = Inr (v, r) \<Longrightarrow> length r < length s"
  "scan_items h pc rl n d s = Inr (vs, r) \<Longrightarrow> length r < length s"
  "scan_members h pc rl n d s = Inr (kvs, r) \<Longrightarrow> length r < length s"
proof (induction n arbitrary: d s v r vs kvs)
  case 0
  {
    case 1 then show ?case by (simp add: scan_once.simps)
  next
    case 2 then show ?case by (simp add: scan_items.simps)
  next
    case 3 then show ?case by (simp add: scan_members.simps)
  }
next
  case (Suc n)
  {
    case 1
    then obtain x s1 where s: "s = x # s1" by (cases s) (auto simp: scan_once.simps)
    consider (str) "x = 34" | (obj) "x = 123" | (arr) "x = 91" | (atom) "x \<noteq> 34" "x \<noteq> 123" "x \<noteq> 91"
      by blast
    then show ?case
    proof cases
      case str
      with "1" s show ?thesis
        by (auto simp: scan_once.simps mapR_Inr_iff dest: scan_string_shorter)
    next
      case obj
      show ?thesis
      proof (cases "starts_with [125] (skip_ws s1)")
        case True
        with "1" s obj tl_skip_ws_less [OF True] show ?thesis
          by (auto simp: scan_once.simps mapR_Inr_iff split: if_splits)
      next
        case False
        with "1" s obj obtain r1 kvs where e: "skip_ws s1 = 34 # r1"
          and m: "scan_members h pc rl n (Suc d) r1 = Inr (kvs, r)"
          by (cases "rl \<le> d")
            (auto simp: scan_once.simps bindR_Inr_iff mapR_Inr_iff expect_Inr)
        from Suc.IH(3) [OF m] skip_ws_less [OF e] s show ?thesis by simp
      qed
    next
      case arr
      with "1" s show ?thesis
        using length_skip_ws [of s1]
        by (auto simp: scan_once.simps mapR_Inr_iff split: if_splits
            dest!: Suc.IH(2) dest: tl_skip_ws_less)
    next
      case atom
      with "1" s show ?thesis
        by (auto simp: scan_once.simps dest: scan_atom_shorter)
    qed
  next
    case 2
    then obtain v r1 where v: "scan_once h pc rl n d s = Inr (v, r1)"
      by (auto simp: scan_items.simps bindR_Inr_iff)
    from Suc.IH(1) [OF this] have l: "length r1 < length s" .
    show ?case
    proof (cases "starts_with [44] (skip_ws r1)")
      case True
      with "2" v obtain vs' where
        "scan_items h pc rl n d (skip_ws (tl (skip_ws r1))) = Inr (vs', r)"
        by (auto simp: scan_items.simps mapR_Inr_iff)
      from Suc.IH(2) [OF this] tl_skip_ws_less [OF True] length_skip_ws [of "tl (skip_ws r1)"] l
      show ?thesis by simp
    next
      case False
      with "2" v l show ?thesis
        by (auto simp: scan_items.simps mapR_Inr_iff expect_Inr dest: skip_ws_less)
    qed
  next
    case 3
    then obtain k r1 r2 v r3 where k: "(scan_string s :: 'e jexc + (ustr \<times> ustr)) = Inr (k, r1)"
      and c: "skip_ws r1 = 58 # r2" and v: "scan_once h pc rl n d (skip_ws r2) = Inr (v, r3)"
      by (fastforce simp: scan_members.simps bindR_Inr_iff expect_Inr)
    have l: "length r3 < length s"
      using scan_string_shorter [OF k] skip_ws_less [OF c] Suc.IH(1) [OF v] length_skip_ws [of r2]
      by simp
    show ?case
    proof (cases "starts_with [44] (skip_ws r3)")
      case True
      with "3" k c v obtain r4 kvs' where e: "skip_ws (tl (skip_ws r3)) = 34 # r4"
        and m: "scan_members h pc rl n d r4 = Inr (kvs', r)"
        by (auto simp: scan_members.simps mapR_Inr_iff bindR_Inr_iff expect_Inr)
      from Suc.IH(3) [OF m] skip_ws_less [OF e] tl_skip_ws_less [OF True] l
      show ?thesis by simp
    next
      case False
      with "3" k c v l show ?thesis
        by (auto simp: scan_members.simps mapR_Inr_iff bindR_Inr_iff expect_Inr dest: skip_ws_less)
    qed
  }
qed

lemma scan_fuel:
  fixes h :: "(ustr \<times> pyval) list \<Rightarrow> 'e + pyval"
  shows
  "2 * length s < n \<Longrightarrow> scan_once h pc rl n d s \<noteq> Inl OutOfFuel"
  "2 * length s + 1 < n \<Longrightarrow> scan_items h pc rl n d s \<noteq> Inl OutOfFuel"
  "2 * length s < n \<Longrightarrow> scan_members h pc rl n d s \<noteq> Inl OutOfFuel"
proof (induction n arbitrary: d s)
  case 0
  {
    case 1 then show ?case by simp
  next
    case 2 then show ?case by simp
  next
    case 3 then show ?case by simp
  }
next
  case (Suc n)
  {
    case 1
    show ?case
    proof (cases s)
      case Nil
      then show ?thesis by (simp add: scan_once.simps)
    next
      case (Cons x s1)
      have o: "scan_members h pc rl n (Suc d) r1 \<noteq> Inl OutOfFuel" if "skip_ws s1 = 34 # r1" for r1
        using that "1" Cons skip_ws_less [OF that] by (intro Suc.IH(3)) simp
      have a: "scan_items h pc rl n (Suc d) (skip_ws s1) \<noteq> Inl OutOfFuel"
        using "1" Cons length_skip_ws [of s1] by (intro Suc.IH(2)) simp
      show ?thesis using Cons o a scan_atom_fuel [of pc s] scan_string_error [of s1 OutOfFuel]
        by (auto simp: scan_once.simps bindR_Inl_iff mapR_Inl_iff expect_Inr run_hook_iff
            dest: expect_Inl)
    qed
  next
    case 2
    have v: "scan_once h pc rl n d s \<noteq> Inl OutOfFuel"
      using "2" by (intro Suc.IH(1)) simp
    have i: "scan_items h pc rl n d (skip_ws (tl (skip_ws r))) \<noteq> Inl OutOfFuel"
      if "scan_once h pc rl n d s = Inr (v, r)" "starts_with [44] (skip_ws r)" for v r
      using scan_shorter(1) [OF that(1)] tl_skip_ws_less [OF that(2)]
        length_skip_ws [of "tl (skip_ws r)"] "2" by (intro Suc.IH(2)) simp
    show ?case using v i
      by (auto simp: scan_items.simps bindR_Inl_iff mapR_Inl_iff dest: expect_Inl)
  next
    case 3
    have v: "scan_once h pc rl n d (skip_ws r1) \<noteq> Inl OutOfFuel"
      if "(scan_string s :: 'e jexc + (ustr \<times> ustr)) = Inr (k, r)" "skip_ws r = 58 # r1" for k r r1
      using scan_string_shorter [OF that(1)] skip_ws_less [OF that(2)] length_skip_ws [of r1] "3"
      by (intro Suc.IH(1)) simp
    have m: "scan_members h pc rl n d r4 \<noteq> Inl OutOfFuel"
      if "(scan_string s :: 'e jexc + (ustr \<times> ustr)) = Inr (k, r)" "skip_ws r = 58 # r1"
        "scan_once h pc rl n d (skip_ws r1) = Inr (v, r2)" "starts_with [44] (skip_ws r2)"
        "skip_ws (tl (skip_ws r2)) = 34 # r4" for k r r1 v r2 r4
      using scan_string_shorter [OF that(1)] skip_ws_less [OF that(2)] length_skip_ws [of r1]
        scan_shorter(1) [OF that(3)] tl_skip_ws_less [OF that(4)] skip_ws_less [OF that(5)] "3"
      by (intro Suc.IH(3)) simp
    show ?case using scan_string_error [of s OutOfFuel]
      by (auto simp: scan_members.simps bindR_Inl_iff mapR_Inl_iff expect_Inr
          dest: expect_Inl v m)
  }
qed

lemma json_decode_no_fuel: "json_decode h pc rl s \<noteq> Inl OutOfFuel"
proof -
  have "scan_once h pc rl (2 * length s + 2) 0 (skip_ws s) \<noteq> Inl OutOfFuel"
    using length_skip_ws [of s] by (intro scan_fuel(1)) simp
  then show ?thesis by (auto simp: json_decode_def bindR_Inl_iff)
qed

lemma json_loads_no_fuel: "json_loads h pc rl b \<noteq> Inl OutOfFuel"
  by (simp add: json_loads_def json_decode_no_fuel split: option.split)
section \<open>What is written is read back\<close>

text \<open>The value \<open>loads\<close> returns for the text of \<open>v\<close>: plain containers, keys sorted.\<close>

primrec sort_keys :: "pyval \<Rightarrow> pyval" where
  "sort_keys PNone = PNone"
| "sort_keys (PBool b) = PBool b"
| "sort_keys (PInt i) = PInt i"
| "sort_keys (PFloat f) = PFloat f"
| "sort_keys (PStr s) = PStr s"
| "sort_keys (PArr m xs) = PArr Mut (map sort_keys xs)"
| "sort_keys (PObj m kvs) = PObj Mut (sort_key fst (map (map_prod id sort_keys) kvs))"

text \<open>No float, every integer within the conversion limit, distinct keys.\<close>

primrec plain_json :: "pyval \<Rightarrow> bool" where
  "plain_json PNone \<longleftrightarrow> True"
| "plain_json (PBool b) \<longleftrightarrow> True"
| "plain_json (PInt i) \<longleftrightarrow> length (nat_text (nat \<bar>i\<bar>)) \<le> INT_MAX_STR_DIGITS"
| "plain_json (PFloat f) \<longleftrightarrow> False"
| "plain_json (PStr s) \<longleftrightarrow> True"
| "plain_json (PArr m xs) \<longleftrightarrow> list_all id (map plain_json xs)"
| "plain_json (PObj m kvs) \<longleftrightarrow> distinct_keys kvs \<and> list_all snd (map (map_prod id plain_json) kvs)"

lemma digits_rev_is_digit: "\<forall>c \<in> set (digits_rev n). is_digit c"
proof (induction n rule: digits_rev.induct)
  case (1 n)
  then show ?case by (subst digits_rev.simps) (auto simp: is_digit_def)
qed

lemma digits_rev_not_Nil [simp]: "digits_rev n \<noteq> []"
  by (subst digits_rev.simps) simp

lemma nat_text_digits: "c \<in> set (nat_text n) \<Longrightarrow> is_digit c"
  using digits_rev_is_digit by (simp add: nat_text_def)

lemma nat_text_not_Nil [simp]: "nat_text n \<noteq> []"
  by (simp add: nat_text_def)

lemma nat_of_digits_append: "nat_of_digits a (s @ [c]) = 10 * nat_of_digits a s + (c - 48)"
  by (induction a s rule: nat_of_digits.induct) auto

lemma nat_of_digits_text: "nat_of_digits 0 (nat_text n) = n"
proof (induction n rule: digits_rev.induct)
  case (1 n)
  show ?case
  proof (cases "n < 10")
    case True
    then show ?thesis by (simp add: nat_text_def digits_rev.simps)
  next
    case False
    then have "nat_text n = nat_text (n div 10) @ [48 + n mod 10]"
      by (simp add: nat_text_def digits_rev.simps [of n])
    with "1" [OF False] show ?thesis by (simp add: nat_of_digits_append)
  qed
qed

lemma nat_text_hd: "n \<noteq> 0 \<Longrightarrow> hd (nat_text n) \<noteq> 48"
proof (induction n rule: digits_rev.induct)
  case (1 n)
  show ?case
  proof (cases "n < 10")
    case True
    with "1.prems" show ?thesis by (simp add: nat_text_def digits_rev.simps)
  next
    case False
    then have t: "nat_text n = nat_text (n div 10) @ [48 + n mod 10]"
      by (simp add: nat_text_def digits_rev.simps [of n])
    from False have "n div 10 \<noteq> 0" by auto
    with "1.IH" [OF False] show ?thesis by (simp add: t)
  qed
qed

lemma nat_text_zero: "nat_text 0 = [48]"
  by (simp add: nat_text_def digits_rev.simps)

definition term_ok :: "ustr \<Rightarrow> bool" where
  "term_ok r \<longleftrightarrow> r = [] \<or> hd r = 44 \<or> hd r = 93 \<or> hd r = 125"

lemma term_ok_not_digit: "term_ok r \<Longrightarrow> takeWhile is_digit r = [] \<and> dropWhile is_digit r = r"
  by (cases r) (auto simp: term_ok_def is_digit_def)

lemma takeWhile_digits_text:
  assumes "term_ok r"
  shows "takeWhile is_digit (nat_text n @ r) = nat_text n" "dropWhile is_digit (nat_text n @ r) = r"
  using term_ok_not_digit [OF assms] nat_text_digits
  by (simp_all add: takeWhile_append2 dropWhile_append2)

lemma scan_int_part_text: "term_ok r \<Longrightarrow> scan_int_part (nat_text n @ r) = Some (nat_text n, r)"
proof (cases "n = 0")
  case True
  then show ?thesis by (simp add: nat_text_zero scan_int_part_def)
next
  case False
  assume r: "term_ok r"
  obtain c s where t: "nat_text n = c # s" by (meson neq_Nil_conv nat_text_not_Nil)
  from False nat_text_hd [OF False] nat_text_digits [of c n] t
  have c: "c \<noteq> 48" "is_digit c" by auto
  from takeWhile_digits_text [OF r, of n] c show ?thesis
    unfolding scan_int_part_def t by simp
qed

lemma scan_number_text:
  assumes r: "term_ok r" and len: "length (nat_text (nat \<bar>i\<bar>)) \<le> INT_MAX_STR_DIGITS"
  shows "scan_number (int_text i @ r) = Inr (PInt i, r)"
proof -
  have f: "scan_frac r = (None, r)" and x: "scan_exp r = (None, r)"
    using r by (auto simp: scan_frac_def scan_exp_def term_ok_def split: list.splits)
  show ?thesis
  proof (cases "i < 0")
    case True
    with len show ?thesis
      by (simp add: scan_number_def int_text_def scan_int_part_text [OF r] f x nat_of_digits_text)
  next
    case False
    obtain c s where t: "nat_text (nat i) = c # s" by (meson neq_Nil_conv nat_text_not_Nil)
    have "c \<noteq> 45" using nat_text_digits [of c "nat i"] t by (auto simp: is_digit_def)
    then have neg: "(case nat_text (nat i) @ r of x # ra \<Rightarrow> if x = 45 then (True, ra)
        else (False, nat_text (nat i) @ r) | [] \<Rightarrow> (False, nat_text (nat i) @ r))
        = (False, nat_text (nat i) @ r)"
      by (simp add: t)
    from False len show ?thesis
      by (simp add: scan_number_def int_text_def neg scan_int_part_text [OF r] f x nat_of_digits_text)
  qed
qed

lemma int_text_cons: "\<exists>c t. int_text i = c # t \<and> (is_digit c \<or> c = 45 \<and> (\<exists>d s. t = d # s \<and> is_digit d))"
proof -
  obtain c t where "nat_text (nat \<bar>i\<bar>) = c # t" by (meson neq_Nil_conv nat_text_not_Nil)
  with nat_text_digits [of c "nat \<bar>i\<bar>"] show ?thesis
    by (cases "i < 0") (auto simp: int_text_def)
qed

lemma u_literals:
  "u ''null'' = [110, 117, 108, 108]" "u ''true'' = [116, 114, 117, 101]"
  "u ''false'' = [102, 97, 108, 115, 101]" "u ''NaN'' = [78, 97, 78]"
  "u ''Infinity'' = [73, 110, 102, 105, 110, 105, 116, 121]"
  "u ''-Infinity'' = [45, 73, 110, 102, 105, 110, 105, 116, 121]"
  by (simp_all add: u_def)

lemma starts_with_Cons:
  "starts_with [] s" "\<not> starts_with (x # p) []"
  "starts_with (x # p) (y # s) \<longleftrightarrow> x = y \<and> starts_with p s"
  by (auto simp: starts_with_def)

lemma scan_atom_number:
  assumes "term_ok r" "length (nat_text (nat \<bar>i\<bar>)) \<le> INT_MAX_STR_DIGITS"
  shows "scan_atom pc (int_text i @ r) = Inr (PInt i, r)"
proof -
  obtain c t where c: "int_text i = c # t"
      and d: "is_digit c \<or> c = 45 \<and> (\<exists>d s. t = d # s \<and> is_digit d)"
    using int_text_cons [of i] by metis
  have ne: "c \<noteq> 110" "c \<noteq> 116" "c \<noteq> 102" "c \<noteq> 78" "c \<noteq> 73"
    using d by (auto simp: is_digit_def)
  have inf: "\<not> starts_with [45, 73, 110, 102, 105, 110, 105, 116, 121] (c # t @ r)"
    using d by (auto simp: starts_with_Cons is_digit_def)
  have "scan_atom pc ((c # t) @ r) = scan_number ((c # t) @ r)"
    unfolding scan_atom_def u_literals append_Cons starts_with_Cons
    using ne inf [unfolded starts_with_Cons] by auto
  with c scan_number_text [OF assms] show ?thesis by simp
qed

lemma hex_val_digit: "v < 16 \<Longrightarrow> hex_val (hex_digit v) = Some v"
  by (auto simp: hex_val_def hex_digit_def)

lemma scan_string_text: "scan_string (concat (map escape_char s) @ 34 # r) = Inr (s, r)"
proof (induction s)
  case Nil
  then show ?case by simp
next
  case (Cons c s)
  have h: "hex4 (48 # 48 # hex_digit (c div 16) # hex_digit (c mod 16) # t) = Some (c, t)"
    if "c < 32" for t
  proof -
    have "hex_val 48 = Some 0" by (simp add: hex_val_def)
    moreover have "c div 16 < 16" "c mod 16 < 16" using that by auto
    ultimately show ?thesis by (simp add: hex4_def hex_val_digit)
  qed
  show ?case using Cons.IH
    by (simp add: escape_char_def simple_escape_def unicode_escape_def h)
qed

lemma insort_key_map:
  "insort_key fst (k, f v) (map (map_prod id f) xs) = map (map_prod id f) (insort_key fst (k, v) xs)"
  by (induction xs) (auto simp: map_prod_def)

lemma sort_key_map: "sort_key fst (map (map_prod id f) xs) = map (map_prod id f) (sort_key fst xs)"
proof (induction xs)
  case Nil
  then show ?case by simp
next
  case (Cons x xs)
  then show ?case using insort_key_map [of "fst x" f "snd x"] by (cases x) (simp add: id_def)
qed

lemma distinct_keys_sort [simp]: "distinct_keys (sort_key fst xs) \<longleftrightarrow> distinct_keys xs"
  by (metis mset_eq_imp_distinct_iff mset_map mset_sort)

text \<open>The text of an object, with the sorting done on the members themselves.\<close>

definition member_text :: "(pyfloat \<Rightarrow> ustr) \<Rightarrow> ustr \<times> pyval \<Rightarrow> ustr" where
  "member_text fr kv = string_text (fst kv) @ 58 # json_text fr (snd kv)"

lemma json_text_obj:
  "json_text fr (PObj m kvs) =
     123 # join_with [44] (map (member_text fr) (sort_key fst kvs)) @ [125]"
  by (simp add: sort_key_map member_text_def [abs_def] case_prod_unfold comp_def)

lemma sort_keys_obj:
  "sort_keys (PObj m kvs) = PObj Mut (map (map_prod id sort_keys) (sort_key fst kvs))"
  by (simp add: sort_key_map)

lemma json_text_hd:
  assumes "plain_json v"
  shows "\<exists>c t. json_text fr v = c # t \<and> \<not> is_ws c \<and> c \<noteq> 93 \<and> c \<noteq> 125"
proof (cases v)
  case (PInt i)
  obtain c t where "int_text i = c # t" "is_digit c \<or> c = 45"
    using int_text_cons [of i] by metis
  with PInt show ?thesis by (auto simp: is_ws_def is_digit_def)
qed (use assms in \<open>auto simp: u_literals string_text_def is_ws_def\<close>)

lemma skip_ws_hd: "\<not> is_ws c \<Longrightarrow> skip_ws (c # t) = c # t"
  by (simp add: skip_ws_def)

text \<open>Reading back a non-empty array body and a non-empty object body.\<close>

lemma scan_items_text:
  assumes val: "\<And>v n d rest. v \<in> set vs \<Longrightarrow> d + container_depth v \<le> rl \<Longrightarrow> term_ok rest
      \<Longrightarrow> 2 * length (json_text fr v @ rest) < n
      \<Longrightarrow> scan_once h pc rl n d (json_text fr v @ rest) = Inr (sort_keys v, rest)"
    and plain: "\<forall>v \<in> set vs. plain_json v" and depth: "\<forall>v \<in> set vs. d + container_depth v \<le> rl"
    and ne: "vs \<noteq> []"
    and fuel: "2 * length (join_with [44] (map (json_text fr) vs) @ 93 # rest) + 1 < n"
  shows "scan_items h pc rl n d (join_with [44] (map (json_text fr) vs) @ 93 # rest)
      = Inr (map sort_keys vs, rest)"
  using val plain depth ne fuel
proof (induction vs arbitrary: n)
  case Nil
  then show ?case by simp
next
  case (Cons v vs)
  obtain n' where n: "n = Suc n'" using Cons.prems(5) by (cases n) auto
  show ?case
  proof (cases vs)
    case Nil
    have "scan_once h pc rl n' d (json_text fr v @ 93 # rest) = Inr (sort_keys v, 93 # rest)"
      using Cons.prems Nil n by (intro Cons.prems(1)) (auto simp: term_ok_def)
    with Nil n show ?thesis
      by (simp add: scan_items.simps skip_ws_hd is_ws_def starts_with_Cons expect_def)
  next
    case (Cons w ws)
    define r where "r = join_with [44] (map (json_text fr) vs) @ 93 # rest"
    have body: "join_with [44] (map (json_text fr) (v # vs)) @ 93 # rest = json_text fr v @ 44 # r"
      using Cons by (simp add: r_def)
    have v: "scan_once h pc rl n' d (json_text fr v @ 44 # r) = Inr (sort_keys v, 44 # r)"
      using Cons.prems n body by (intro Cons.prems(1)) (auto simp: term_ok_def r_def)
    obtain c t where c: "json_text fr w = c # t" "\<not> is_ws c"
      using json_text_hd [of w fr] Cons.prems(2) Cons by auto
    have "skip_ws r = r"
      using c Cons by (cases ws) (simp_all add: r_def skip_ws_hd)
    moreover have "scan_items h pc rl n' d r = Inr (map sort_keys vs, rest)"
      unfolding r_def using Cons.prems n body Cons by (intro Cons.IH) (auto simp: r_def)
    ultimately show ?thesis
      unfolding body using v n
      by (simp add: scan_items.simps skip_ws_hd is_ws_def starts_with_Cons)
  qed
qed

lemma member_text_eq:
  "member_text fr (k, v) = 34 # concat (map escape_char k) @ 34 # 58 # json_text fr v"
  by (simp add: member_text_def string_text_def)

lemma scan_members_text:
  fixes h :: "(ustr \<times> pyval) list \<Rightarrow> 'e + pyval"
  assumes val: "\<And>k v n d rest. (k, v) \<in> set kvs \<Longrightarrow> d + container_depth v \<le> rl \<Longrightarrow> term_ok rest
      \<Longrightarrow> 2 * length (json_text fr v @ rest) < n
      \<Longrightarrow> scan_once h pc rl n d (json_text fr v @ rest) = Inr (sort_keys v, rest)"
    and plain: "\<forall>(k, v) \<in> set kvs. plain_json v"
    and depth: "\<forall>(k, v) \<in> set kvs. d + container_depth v \<le> rl"
    and ne: "kvs \<noteq> []"
    and tx: "join_with [44] (map (member_text fr) kvs) @ 125 # rest = 34 # s"
    and fuel: "2 * length s < n"
  shows "scan_members h pc rl n d s = Inr (map (map_prod id sort_keys) kvs, rest)"
  using val plain depth ne tx fuel
proof (induction kvs arbitrary: n s)
  case Nil
  then show ?case by simp
next
  case (Cons kv kvs)
  obtain k v where kv: "kv = (k, v)" by (cases kv)
  obtain n' where n: "n = Suc n'" using Cons.prems(6) by (cases n) auto
  obtain c t where c: "json_text fr v = c # t" "\<not> is_ws c"
    using json_text_hd [of v fr] Cons.prems(2) kv by auto
  have col: "skip_ws (58 # x) = 58 # x" for x by (simp add: skip_ws_hd is_ws_def)
  show ?case
  proof (cases kvs)
    case Nil
    then have s: "s = concat (map escape_char k) @ 34 # 58 # json_text fr v @ 125 # rest"
      using Cons.prems(5) by (simp add: kv member_text_eq)
    have "scan_once h pc rl n' d (json_text fr v @ 125 # rest) = Inr (sort_keys v, 125 # rest)"
      using Cons.prems kv n s by (intro Cons.prems(1)) (auto simp: term_ok_def)
    with Nil n kv c show ?thesis
      by (simp add: s scan_members.simps scan_string_text col skip_ws_hd is_ws_def starts_with_Cons
          expect_def)
  next
    case (Cons w ws)
    define r where "r = tl (join_with [44] (map (member_text fr) kvs) @ 125 # rest)"
    have r: "join_with [44] (map (member_text fr) kvs) @ 125 # rest = 34 # r"
      using Cons by (cases w; cases ws) (simp_all add: r_def member_text_eq)
    have s: "s = concat (map escape_char k) @ 34 # 58 # json_text fr v @ 44 # 34 # r"
      using Cons.prems(5) Cons r by (simp add: kv member_text_eq)
    have v: "scan_once h pc rl n' d (json_text fr v @ 44 # 34 # r) = Inr (sort_keys v, 44 # 34 # r)"
      using Cons.prems kv n s by (intro Cons.prems(1)) (auto simp: term_ok_def)
    have m: "scan_members h pc rl n' d r = Inr (map (map_prod id sort_keys) kvs, rest)"
    proof (rule Cons.IH [OF _ _ _ _ r])
      show "\<And>k v n d rest. (k, v) \<in> set kvs \<Longrightarrow> d + container_depth v \<le> rl \<Longrightarrow> term_ok rest
          \<Longrightarrow> 2 * length (json_text fr v @ rest) < n
          \<Longrightarrow> scan_once h pc rl n d (json_text fr v @ rest) = Inr (sort_keys v, rest)"
        by (rule Cons.prems(1)) auto
    qed (use Cons.prems n s Cons in auto)
    show ?thesis
      using v m n kv c
      by (simp add: s scan_members.simps scan_string_text col skip_ws_hd is_ws_def starts_with_Cons
          expect_def id_def)
  qed
qed

text \<open>
  One value, followed by a terminator: the scanner returns it with sorted keys and stops
  exactly there, provided the hook keeps a duplicate-free object and the nesting stays
  within the recursion limit.
\<close>

lemma scan_once_text:
  fixes h :: "(ustr \<times> pyval) list \<Rightarrow> 'e + pyval"
  assumes hook: "\<And>ps. distinct_keys ps \<Longrightarrow> h ps = Inr (PObj Mut ps)"
  shows "plain_json v \<Longrightarrow> d + container_depth v \<le> rl \<Longrightarrow> term_ok rest
      \<Longrightarrow> 2 * length (json_text fr v @ rest) < n
      \<Longrightarrow> scan_once h pc rl n d (json_text fr v @ rest) = Inr (sort_keys v, rest)"
proof (induction v arbitrary: n d rest)
  case PNone
  then show ?case by (cases n) (simp_all add: scan_once.simps scan_atom_def u_literals starts_with_Cons)
next
  case (PBool b)
  then show ?case
    by (cases n; cases b) (simp_all add: scan_once.simps scan_atom_def u_literals starts_with_Cons)
next
  case (PInt i)
  obtain c t where c: "int_text i = c # t" "is_digit c \<or> c = 45" using int_text_cons [of i] by metis
  have "c \<noteq> 34 \<and> c \<noteq> 123 \<and> c \<noteq> 91" using c(2) by (auto simp: is_digit_def)
  with scan_atom_number [of rest i pc] PInt c(1) show ?case
    by (cases n) (simp_all add: scan_once.simps)
next
  case (PFloat f)
  then show ?case by simp
next
  case (PStr s)
  then show ?case by (cases n) (simp_all add: scan_once.simps string_text_def scan_string_text)
next
  case (PArr m vs)
  obtain n' where n: "n = Suc n'" using PArr.prems(4) by (cases n) auto
  have d: "d < rl" "\<forall>v \<in> set vs. Suc d + container_depth v \<le> rl"
    using PArr.prems(2) foldr_max_le_iff [of "map container_depth vs" "rl - Suc d"] by auto
  show ?case
  proof (cases vs)
    case Nil
    with n d show ?thesis
      by (simp add: scan_once.simps skip_ws_hd is_ws_def starts_with_Cons)
  next
    case (Cons w ws)
    define r where "r = join_with [44] (map (json_text fr) vs) @ 93 # rest"
    obtain c t where c: "json_text fr w = c # t" "\<not> is_ws c" "c \<noteq> 93"
      using json_text_hd [of w fr] PArr.prems(1) Cons by auto
    have r: "skip_ws r = r" "\<not> starts_with [93] r"
      using c Cons by (cases ws; simp add: r_def skip_ws_hd starts_with_Cons)+
    have "scan_items h pc rl n' (Suc d) r = Inr (map sort_keys vs, rest)"
      unfolding r_def
    proof (rule scan_items_text)
      show "\<forall>v \<in> set vs. plain_json v" using PArr.prems(1) by (simp add: list_all_iff)
    qed (use PArr d Cons n in \<open>auto simp: list_all_iff\<close>)
    with n d r show ?thesis
      by (simp add: scan_once.simps r_def)
  qed
next
  case (PObj m kvs)
  obtain n' where n: "n = Suc n'" using PObj.prems(4) by (cases n) auto
  define ks where "ks = sort_key fst kvs"
  have set_ks: "set ks = set kvs" by (simp add: ks_def)
  have dk: "distinct_keys (map (map_prod id sort_keys) ks)"
    using PObj.prems(1) by (simp add: ks_def comp_def)
  have d: "d < rl" "\<forall>(k, v) \<in> set ks. Suc d + container_depth v \<le> rl"
    using PObj.prems(2)
      foldr_max_le_iff [of "map snd (map (map_prod id container_depth) kvs)" "rl - Suc d"]
    by (auto simp: set_ks)
  show ?case
  proof (cases ks)
    case Nil
    then have "kvs = []" using set_ks by simp
    with n d show ?thesis
      by (simp add: scan_once.simps skip_ws_hd is_ws_def starts_with_Cons hook)
  next
    case (Cons w ws)
    define r where "r = tl (join_with [44] (map (member_text fr) ks) @ 125 # rest)"
    have r: "join_with [44] (map (member_text fr) ks) @ 125 # rest = 34 # r"
      using Cons by (cases w; cases ws) (simp_all add: r_def member_text_eq)
    have tx: "json_text fr (PObj m kvs) @ rest = 123 # 34 # r"
      using r by (simp add: json_text_obj ks_def del: json_text.simps)
    have "scan_members h pc rl n' (Suc d) r = Inr (map (map_prod id sort_keys) ks, rest)"
    proof (rule scan_members_text [OF _ _ _ _ r])
      show "\<forall>(k, v) \<in> set ks. plain_json v"
        using PObj.prems(1) by (auto simp: list_all_iff set_ks)
      show "2 * length r < n'" using PObj.prems(4) n unfolding tx by simp
    next
      fix k v n d rest
      assume a: "(k, v) \<in> set ks" "d + container_depth v \<le> rl" "term_ok rest"
        "2 * length (json_text fr v @ rest) < n"
      have "plain_json v" using a(1) PObj.prems(1) by (auto simp: list_all_iff set_ks)
      with a show "scan_once h pc rl n d (json_text fr v @ rest) = Inr (sort_keys v, rest)"
        by (intro PObj.IH [of "(k, v)"]) (auto simp: set_ks)
    qed (use d Cons in auto)
    with n d show ?thesis
      unfolding tx sort_keys_obj ks_def [symmetric]
      by (simp add: scan_once.simps skip_ws_hd is_ws_def starts_with_Cons expect_def hook [OF dk])
  qed
qed

lemma decode_text:
  assumes "\<And>ps. distinct_keys ps \<Longrightarrow> h ps = Inr (PObj Mut ps)"
    and "plain_json v" and "container_depth v \<le> rl"
  shows "json_decode h pc rl (json_text fr v) = Inr (sort_keys v)"
proof -
  have "skip_ws (json_text fr v) = json_text fr v"
    using json_text_hd [OF assms(2), of fr] by (auto simp: skip_ws_hd)
  moreover have "scan_once h pc rl (2 * length (json_text fr v) + 2) 0 (json_text fr v @ [])
      = Inr (sort_keys v, [])"
    using assms by (intro scan_once_text) (auto simp: term_ok_def)
  ultimately show ?thesis by (simp add: json_decode_def skip_ws_def)
qed
end
