(* ===== verification/Hashing.thy ===== *)
theory Hashing
  imports Json_Text
begin

text \<open>
  \<open>gateway/hashing.py\<close>: the canonical serialization and the hashes built on it. SHA-256
  and \<open>float.__repr__\<close> are functions of the environment record. The lemmas show that
  freezing and key order do not change a hash, that the serialization determines the value
  up to key order, and what exactly an argument hash binds.
\<close>

section \<open>The interpreter's environment\<close>

text \<open>
  Functions of the runtime the gateway calls but does not define: \<open>hashlib.sha256(...)
  .hexdigest()\<close>, \<open>float.__repr__\<close>, \<open>unicodedata.normalize("NFC", ...)\<close>, \<open>str(...)\<close> of
  a value that is no string, and the interpreter's recursion limit.
\<close>

record pyenv =
  sha256_hexdigest :: "bytes \<Rightarrow> ustr"
  float_repr :: "pyfloat \<Rightarrow> ustr"
  normalize_nfc :: "ustr \<Rightarrow> ustr"
  str_of :: "pyval \<Rightarrow> ustr"
  recursion_limit :: nat

section \<open>Definitions\<close>

definition FINGERPRINT_VERSION :: ustr where
  "FINGERPRINT_VERSION = u ''v2''"

definition canonical_json :: "pyenv \<Rightarrow> pyval \<Rightarrow> bytes result" where
  "canonical_json env v =
     (if \<not> no_nan v then Inl (PyError ''ValueError'')
      else case encode_utf8 (json_text (float_repr env) v) of
             None \<Rightarrow> Inl (PyError ''UnicodeEncodeError'')
           | Some b \<Rightarrow> Inr b)"

definition sha256_hex :: "pyenv \<Rightarrow> bytes \<Rightarrow> ustr" where
  "sha256_hex env data = sha256_hexdigest env data"

definition hash_obj :: "pyenv \<Rightarrow> pyval \<Rightarrow> ustr result" where
  "hash_obj env v = mapR (sha256_hex env) (canonical_json env v)"

definition fingerprint_obj :: "pyenv \<Rightarrow> pyval \<Rightarrow> ustr result" where
  "fingerprint_obj env v = mapR (\<lambda>h. FINGERPRINT_VERSION @ 58 # h) (hash_obj env v)"

text \<open>\<open>{**arguments, "canonical_path": canonical_path}\<close>\<close>

definition argument_doc :: "pyval \<Rightarrow> ustr \<Rightarrow> pyval" where
  "argument_doc arguments canonical_path =
     PObj Mut (dict_set (items arguments) (u ''canonical_path'') (PStr canonical_path))"

definition argument_hash :: "pyenv \<Rightarrow> pyval \<Rightarrow> ustr \<Rightarrow> ustr result" where
  "argument_hash env arguments canonical_path =
     hash_obj env (argument_doc arguments canonical_path)"

section \<open>What the serialization ignores and what it determines\<close>

lemma json_text_freeze: "json_text fr (deep_freeze v) = json_text fr v"
proof (induction v)
  case (PArr m xs)
  then show ?case by (simp cong: map_cong)
next
  case (PObj m kvs)
  have "map (map_prod id (json_text fr)) (map (map_prod id deep_freeze) kvs)
      = map (map_prod id (json_text fr)) kvs"
    using PObj by (auto simp: map_prod_def case_prod_unfold)
  then show ?case by (simp only: deep_freeze.simps json_text.simps)
qed auto

lemma no_nan_freeze: "no_nan (deep_freeze v) = no_nan v"
  by (induction v) (force simp: list_all_iff)+

lemma canonical_json_freeze [simp]: "canonical_json env (deep_freeze v) = canonical_json env v"
  by (simp add: canonical_json_def json_text_freeze no_nan_freeze)

lemma sort_key_sort_key: "sort_key f (sort_key f xs) = sort_key f (xs :: ('a \<times> 'b) list)"
  for f :: "('a \<times> 'b) \<Rightarrow> ('c :: linorder)"
  by (simp add: sort_key_id_if_sorted)

lemma json_text_sort_keys: "json_text fr (sort_keys v) = json_text fr v"
proof (induction v)
  case (PArr m xs)
  then show ?case by (simp cong: map_cong)
next
  case (PObj m kvs)
  have "map (map_prod id (json_text fr)) (map (map_prod id sort_keys) kvs)
      = map (map_prod id (json_text fr)) kvs"
    using PObj by (auto simp: map_prod_def case_prod_unfold)
  then show ?case
    unfolding sort_keys.simps json_text.simps
    by (simp only: sort_key_map [symmetric] sort_key_sort_key)
qed auto

text \<open>
  The contract of a serialization: what is written is read back, up to a normal form. A
  client needs nothing else to conclude that equal bytes come from equal values.
\<close>

locale codec =
  fixes encode :: "'v \<Rightarrow> 'b"
    and decode :: "'b \<Rightarrow> 'e + 'v"
    and norm :: "'v \<Rightarrow> 'v"
    and good :: "'v \<Rightarrow> bool"
  assumes decode_encode: "good v \<Longrightarrow> decode (encode v) = Inr (norm v)"
    and encode_norm: "encode (norm v) = encode v"
begin

lemma encode_inj:
  assumes "good v" "good w" "encode v = encode w"
  shows "norm v = norm w"
  using decode_encode [OF assms(1)] decode_encode [OF assms(2)] assms(3) by simp

lemma encode_eq_iff: "good v \<Longrightarrow> good w \<Longrightarrow> encode v = encode w \<longleftrightarrow> norm v = norm w"
  by (metis encode_inj encode_norm)

end

definition keep_hook :: "(ustr \<times> pyval) list \<Rightarrow> unit + pyval" where
  "keep_hook ps = Inr (PObj Mut ps)"

interpretation json_codec: codec "json_text fr" "json_decode keep_hook (\<lambda>_. Inl ()) rl" sort_keys
    "\<lambda>v. plain_json v \<and> container_depth v \<le> rl" for fr rl
proof
  show "json_decode keep_hook (\<lambda>_. Inl ()) rl (json_text fr v) = Inr (sort_keys v)"
    if "plain_json v \<and> container_depth v \<le> rl" for v
    using that by (intro decode_text) (auto simp: keep_hook_def)
  show "json_text fr (sort_keys v) = json_text fr v" for v
    by (rule json_text_sort_keys)
qed

lemma json_text_inj:
  assumes "plain_json v" "plain_json w" "json_text fr v = json_text fr w"
  shows "sort_keys v = sort_keys w"
  using assms
  by (intro json_codec.encode_inj [of v "max (container_depth v) (container_depth w)" w fr]) auto

lemma canonical_json_inj:
  assumes "plain_json v" "plain_json w"
    and "canonical_json env v = Inr b" "canonical_json env w = Inr b"
  shows "sort_keys v = sort_keys w"
proof -
  from assms(3,4) have "json_text (float_repr env) v = json_text (float_repr env) w"
    by (auto simp: canonical_json_def split: if_splits option.splits intro: encode_utf8_inj)
  with assms(1,2) show ?thesis by (rule json_text_inj)
qed

lemma no_nan_sort_keys: "no_nan (sort_keys v) = no_nan v"
  by (induction v) (force simp: list_all_iff)+

lemma canonical_json_sort_keys [simp]: "canonical_json env (sort_keys v) = canonical_json env v"
  by (simp add: canonical_json_def json_text_sort_keys no_nan_sort_keys)

section \<open>What an argument hash binds\<close>

lemma map_of_sort_key: "distinct_keys kvs \<Longrightarrow> map_of (sort_key fst kvs) = map_of kvs"
  by (simp add: map_of_inject_set)

lemma dict_get_map_snd: "dict_get (map (map_prod id f) kvs) k = map_option f (dict_get kvs k)"
  by (induction kvs) (auto simp: dict_get_def)

lemma dict_get_sort_keys:
  "distinct_keys kvs \<Longrightarrow> dict_get (items (sort_keys (PObj m kvs))) k = map_option sort_keys (dict_get kvs k)"
  by (simp add: dict_get_def [of "sort_key fst _"] map_of_sort_key comp_def
      dict_get_map_snd [symmetric]) (simp add: dict_get_def)

lemma set_dict_set_subset: "set (dict_set d k v) \<subseteq> insert (k, v) (set d)"
  by (induction d k v rule: dict_set.induct) auto

lemma plain_json_doc:
  assumes "plain_json (PObj m kvs)"
  shows "plain_json (argument_doc (PObj m kvs) p)"
  using assms set_dict_set_subset [of kvs "u ''canonical_path''" "PStr p"]
  by (fastforce simp: argument_doc_def list_all_iff intro: distinct_dict_set)

lemma dict_set_twice [simp]: "dict_set (dict_set d k v) k w = dict_set d k w"
  by (induction d k v rule: dict_set.induct) auto

definition sha_separates :: "pyenv \<Rightarrow> pyval \<Rightarrow> pyval \<Rightarrow> bool" where
  "sha_separates env v w \<longleftrightarrow>
     (case (canonical_json env v, canonical_json env w) of
        (Inr b, Inr c) \<Rightarrow> sha256_hexdigest env b = sha256_hexdigest env c \<longrightarrow> b = c
      | _ \<Rightarrow> True)"

lemma hash_obj_eqD:
  assumes "sha_separates env v w" "hash_obj env v = Inr h" "hash_obj env w = Inr h"
  obtains b where "canonical_json env v = Inr b" "canonical_json env w = Inr b"
  using assms by (auto simp: sha_separates_def hash_obj_def sha256_hex_def mapR_Inr_iff)

text \<open>
  an argument hash binds the canonical path and every argument. When two calls have the
  same argument hash, and SHA-256 does not collide on their two documents, the canonical
  paths are equal and so is the value of each argument (up to the order of keys), except
  that of an argument that is itself named \<open>canonical_path\<close>.
\<close>

lemma argument_hash_binds:
  assumes "plain_json (PObj m kvs)" "plain_json (PObj m' kvs')"
    and "sha_separates env (argument_doc (PObj m kvs) p) (argument_doc (PObj m' kvs') p')"
    and "argument_hash env (PObj m kvs) p = Inr h"
    and "argument_hash env (PObj m' kvs') p' = Inr h"
  shows "p = p' \<and> (\<forall>k. k = u ''canonical_path''
      \<or> map_option sort_keys (dict_get kvs k) = map_option sort_keys (dict_get kvs' k))"
proof -
  let ?d = "argument_doc (PObj m kvs) p" and ?d' = "argument_doc (PObj m' kvs') p'"
  let ?c = "u ''canonical_path''"
  have "sort_keys ?d = sort_keys ?d'"
    using hash_obj_eqD [OF assms(3) assms(4,5) [unfolded argument_hash_def]]
      canonical_json_inj plain_json_doc assms(1,2) by metis
  moreover have "distinct_keys (dict_set kvs ?c (PStr p))" "distinct_keys (dict_set kvs' ?c (PStr p'))"
    using assms(1,2) by (auto intro: distinct_dict_set)
  ultimately have "map_option sort_keys (dict_get (dict_set kvs ?c (PStr p)) k)
      = map_option sort_keys (dict_get (dict_set kvs' ?c (PStr p')) k)" for k
    unfolding argument_doc_def items_PObj by (metis dict_get_sort_keys)
  then have same: "map_option sort_keys (if k = ?c then Some (PStr p) else dict_get kvs k)
      = map_option sort_keys (if k = ?c then Some (PStr p') else dict_get kvs' k)" for k
    by simp
  have "p = p'" using same [of ?c] by simp
  moreover have "k = ?c \<or> map_option sort_keys (dict_get kvs k) = map_option sort_keys (dict_get kvs' k)" for k
    using same [of k] by (cases "k = ?c") simp_all
  ultimately show ?thesis by blast
qed

definition plain_env :: pyenv where
  "plain_env = \<lparr> sha256_hexdigest = map unat, float_repr = (\<lambda>_. u ''0.5''), normalize_nfc = id,
     str_of = (\<lambda>_. u ''?''), recursion_limit = 1000 \<rparr>"

definition call_args :: pyval where
  "call_args = PObj Mut [(u ''b'', PInt 1), (u ''a'', PStr [233])]"

definition call_args' :: pyval where
  "call_args' = PObj Frz [(u ''a'', PStr [233]), (u ''b'', PInt 1)]"

lemma call_args_hash:
  "argument_hash plain_env call_args (u ''/s'')
     = Inr (u ''{\"a\":\"'' @ [195, 169] @ u ''\",\"b\":1,\"canonical_path\":\"/s\"}'')"
  "argument_hash plain_env call_args' (u ''/s'')
     = Inr (u ''{\"a\":\"'' @ [195, 169] @ u ''\",\"b\":1,\"canonical_path\":\"/s\"}'')"
  "sha_separates plain_env (argument_doc call_args (u ''/s'')) (argument_doc call_args' (u ''/s''))"
  "plain_json call_args" "plain_json call_args'"
  by code_simp+

lemma argument_hash_binds_witness:
  "u ''/s'' = u ''/s'' \<and> (\<forall>k. k = u ''canonical_path''
      \<or> map_option sort_keys (dict_get (items call_args) k)
        = map_option sort_keys (dict_get (items call_args') k))"
  using argument_hash_binds [OF call_args_hash(4,5) [unfolded call_args_def call_args'_def]
      call_args_hash(3,1,2) [unfolded call_args_def call_args'_def]]
  by (simp add: call_args_def call_args'_def)

text \<open>
  the exception in the hash binding is real. An argument named \<open>canonical_path\<close> is
  overwritten before the hash is taken, so its value can change without the hash changing.
\<close>

lemma argument_hash_ignores_canonical_path:
  "argument_hash env (PObj m (dict_set kvs (u ''canonical_path'') v)) p
     = argument_hash env (PObj m kvs) p"
  by (simp add: argument_hash_def argument_doc_def)


text \<open>
  \<open>json.loads\<close> reads back what \<open>canonical_json\<close> writes. For a document without floats,
  with integers inside the conversion limit and distinct keys, nested no deeper than the
  recursion limit, decoding the canonical bytes gives the document with its keys sorted.
\<close>

lemma canonical_json_roundtrip:
  assumes "plain_json v" "container_depth v \<le> rl" "canonical_json env v = Inr b"
  shows "utf8_dec False (map unat b) = Some (json_text (float_repr env) v)
    \<and> json_decode keep_hook (\<lambda>_. Inl ()) rl (json_text (float_repr env) v) = Inr (sort_keys v)"
proof -
  have "encode_utf8 (json_text (float_repr env) v) = Some b"
    using assms(3) by (auto simp: canonical_json_def split: if_splits option.splits)
  with json_codec.decode_encode [of v rl] assms(1,2) show ?thesis
    by (simp add: encode_utf8_decode)
qed

lemma canonical_json_roundtrip_witness:
  "json_decode keep_hook (\<lambda>_. Inl ()) 4 (json_text (float_repr plain_env) call_args)
     = Inr (sort_keys call_args)"
proof -
  have "canonical_json plain_env call_args
      = Inr (map of_nat (u ''{\"a\":\"'' @ [195, 169] @ u ''\",\"b\":1}''))"
    by code_simp
  from canonical_json_roundtrip [OF call_args_hash(4) _ this, of 4] show ?thesis
    by (simp add: call_args_def)
qed

end
