(* ===== verification/Gateway_Types.thy ===== *)
theory Gateway_Types
  imports Hashing
begin

text \<open>
  \<open>gateway/types.py\<close>, \<open>gateway/timing.py\<close> and \<open>gateway/context.py\<close>: the records
  handed from stage to stage, with the validators their constructors run, the wrapper around
  attacker-influenced content, and the per-stage timer.
\<close>

section \<open>Vocabulary\<close>

datatype operation = Op_read | Op_create | Op_overwrite | Op_append | Op_rename | Op_delete

datatype risk_tier = R0 | R1 | R2 | R4

definition all_operations :: "operation list" where
  "all_operations = [Op_read, Op_create, Op_overwrite, Op_append, Op_rename, Op_delete]"

definition operation_value :: "operation \<Rightarrow> ustr" where
  "operation_value op = (case op of
     Op_read \<Rightarrow> u ''read'' | Op_create \<Rightarrow> u ''create'' | Op_overwrite \<Rightarrow> u ''overwrite''
   | Op_append \<Rightarrow> u ''append'' | Op_rename \<Rightarrow> u ''rename'' | Op_delete \<Rightarrow> u ''delete'')"

definition tier_value :: "risk_tier \<Rightarrow> ustr" where
  "tier_value t = (case t of R0 \<Rightarrow> u ''R0'' | R1 \<Rightarrow> u ''R1'' | R2 \<Rightarrow> u ''R2'' | R4 \<Rightarrow> u ''R4'')"

definition tier_of :: "ustr \<Rightarrow> risk_tier option" where
  "tier_of s = find (\<lambda>t. tier_value t = s) [R0, R1, R2, R4]"

lemma tier_of_value: "tier_of (tier_value t) = Some t"
  by (cases t) (simp_all add: tier_of_def tier_value_def u_eq_iff)

lemma tier_of_Some: "tier_of s = Some t \<Longrightarrow> tier_value t = s"
  by (auto simp: tier_of_def split: if_splits)

lemma operation_value_inj: "operation_value a = operation_value b \<longleftrightarrow> a = b"
  by (cases a; cases b) (simp_all add: operation_value_def u_eq_iff)

lemma all_operations_complete: "op \<in> set all_operations"
  by (cases op) (simp_all add: all_operations_def)

section \<open>01 to 02: the envelope\<close>

record raw_envelope =
  raw_request_id :: ustr
  raw_received_at_ns :: int
  raw_body :: bytes
  raw_metadata :: "(ustr \<times> ustr) list"

definition header_values :: "raw_envelope \<Rightarrow> ustr \<Rightarrow> ustr list" where
  "header_values raw name = [v. (k, v) \<leftarrow> raw_metadata raw, k = lower name]"

section \<open>02 to everything: the canonical request\<close>

datatype rpc_id = Id_null | Id_str ustr | Id_int int

record canonical_request =
  req_id :: ustr
  req_protocol_version :: ustr
  req_method :: ustr
  req_jsonrpc_id :: rpc_id
  req_tool_name :: "ustr option"
  req_arguments :: pyval
  req_body_hash :: ustr
  req_param_headers :: "(ustr \<times> ustr) list"

text \<open>The constructor; its field validators freeze the arguments all the way down.\<close>

definition CanonicalRequest ::
    "ustr \<Rightarrow> ustr \<Rightarrow> ustr \<Rightarrow> rpc_id \<Rightarrow> ustr option \<Rightarrow> pyval \<Rightarrow> ustr \<Rightarrow> (ustr \<times> ustr) list
      \<Rightarrow> canonical_request" where
  "CanonicalRequest rid pv method jid tool arguments body_hash headers =
     \<lparr> req_id = rid, req_protocol_version = pv, req_method = method, req_jsonrpc_id = jid,
       req_tool_name = tool, req_arguments = deep_freeze arguments, req_body_hash = body_hash,
       req_param_headers = headers \<rparr>"

section \<open>03 to 08: the records of the later stages\<close>

record authz_context =
  ctx_principal :: ustr
  ctx_client_id :: ustr
  ctx_roles :: "ustr list"
  ctx_auth_method :: ustr
  ctx_assurance :: ustr
  ctx_transport :: ustr
  ctx_environment :: ustr

record resolved_target =
  tgt_server_id :: ustr
  tgt_tool_name :: "ustr option"
  tgt_schema_fingerprint :: "ustr option"
  tgt_risk_tier :: risk_tier
  tgt_operation :: operation

text \<open>The constructor with its model validator.\<close>

definition ResolvedTarget ::
    "ustr \<Rightarrow> ustr option \<Rightarrow> ustr option \<Rightarrow> risk_tier \<Rightarrow> operation \<Rightarrow> resolved_target result" where
  "ResolvedTarget server tool fp tier op =
     (if (tool = None) \<noteq> (fp = None) then Inl (PyError ''ValidationError'')
      else Inr \<lparr> tgt_server_id = server, tgt_tool_name = tool, tgt_schema_fingerprint = fp,
                 tgt_risk_tier = tier, tgt_operation = op \<rparr>)"

record derived_attributes =
  drv_canonical_path :: ustr
  drv_root :: ustr
  drv_operation :: operation
  drv_classification :: ustr
  drv_exists :: bool
  drv_arg_hash :: ustr
  drv_raw_hash :: ustr
  drv_path_argument :: ustr
  drv_relative_path :: ustr

record obligations =
  ob_timeout_ms :: int
  ob_max_response_bytes :: int

datatype verdict = Allow | Deny

record decision =
  dec_request_id :: ustr
  dec_method :: ustr
  dec_tool_name :: "ustr option"
  dec_decision :: verdict
  dec_reason_code :: ustr
  dec_risk_tier :: risk_tier
  dec_policy_revision :: ustr
  dec_obligations :: obligations
  dec_arg_hash :: ustr
  dec_clamped :: bool

record raw_result =
  res_content :: pyval
  res_is_error :: bool
  res_byte_count :: int
  res_upstream_latency_ns :: int
  res_obligations :: obligations

section \<open>Untrusted content\<close>

datatype 'a untrusted = Untrusted 'a

primrec unwrap :: "'a untrusted \<Rightarrow> 'a" where
  "unwrap (Untrusted v) = v"

text \<open>\<open>str(...)\<close> and \<open>repr(...)\<close> raise: content cannot be interpolated by accident.\<close>

definition untrusted_str :: "'a untrusted \<Rightarrow> ustr result" where
  "untrusted_str x = Inl (PyError ''TypeError'')"

section \<open>The stage timer\<close>

text \<open>
  \<open>StageTimer\<close>: nanoseconds per stage name. \<open>stage_exit\<close> is the \<open>finally\<close> of the context
  manager, so it runs whether the stage returned or raised; the clock readings are arguments.
\<close>

record stage_timer =
  tm_ns :: "(ustr \<times> int) list"
  tm_started_ns :: int

definition StageTimer :: "int \<Rightarrow> stage_timer" where
  "StageTimer now = \<lparr> tm_ns = [], tm_started_ns = now \<rparr>"

definition stage_exit :: "ustr \<Rightarrow> int \<Rightarrow> int \<Rightarrow> stage_timer \<Rightarrow> stage_timer" where
  "stage_exit key t0 t1 tm =
     tm \<lparr> tm_ns := dict_set (tm_ns tm) key
                    ((case dict_get (tm_ns tm) key of None \<Rightarrow> 0 | Some n \<Rightarrow> n) + (t1 - t0)) \<rparr>"

definition elapsed_ns :: "int \<Rightarrow> stage_timer \<Rightarrow> int" where
  "elapsed_ns now tm = now - tm_started_ns tm"

text \<open>The stage dictionary after a sequence of visits \<open>(name, entered, left)\<close>.\<close>

definition run_visits :: "(ustr \<times> int \<times> int) list \<Rightarrow> stage_timer \<Rightarrow> stage_timer" where
  "run_visits vs tm = foldl (\<lambda>tm (k, t0, t1). stage_exit k t0 t1 tm) tm vs"

definition ns_of :: "stage_timer \<Rightarrow> ustr \<Rightarrow> int" where
  "ns_of tm k = (case dict_get (tm_ns tm) k of None \<Rightarrow> 0 | Some n \<Rightarrow> n)"

section \<open>Lemmas\<close>

lemma header_values_lower: "header_values raw (lower name) = header_values raw name"
  by (simp add: header_values_def)

lemma CanonicalRequest_frozen: "all_mut Frz (req_arguments (CanonicalRequest a b c d e f g h))"
  by (simp add: CanonicalRequest_def deep_freeze_frozen)

lemma ResolvedTarget_Inr_iff:
  "ResolvedTarget s tool fp tier op = Inr t \<longleftrightarrow>
     (tool = None \<longleftrightarrow> fp = None) \<and>
     t = \<lparr> tgt_server_id = s, tgt_tool_name = tool, tgt_schema_fingerprint = fp,
           tgt_risk_tier = tier, tgt_operation = op \<rparr>"
  by (auto simp: ResolvedTarget_def)

lemma ns_of_stage_exit [simp]:
  "ns_of (stage_exit k t0 t1 tm) k' = ns_of tm k' + (if k' = k then t1 - t0 else 0)"
  by (simp add: ns_of_def stage_exit_def)

lemma distinct_stage_exit: "distinct_keys (tm_ns tm) \<Longrightarrow> distinct_keys (tm_ns (stage_exit k t0 t1 tm))"
  by (simp add: stage_exit_def distinct_dict_set)

lemma ns_of_run_visits:
  "ns_of (run_visits vs tm) k = ns_of tm k + sum_list [t1 - t0. (k', t0, t1) \<leftarrow> vs, k' = k]"
  unfolding run_visits_def by (induction vs arbitrary: tm) auto

text \<open>A stage entered twice accumulates: no visit is overwritten.\<close>

lemma stage_timer_accumulates:
  "ns_of (run_visits vs (StageTimer now)) k = sum_list [t1 - t0. (k', t0, t1) \<leftarrow> vs, k' = k]"
  by (simp add: ns_of_run_visits) (simp add: ns_of_def StageTimer_def dict_get_def)

end
