(* ===== verification/Py_Path.thy ===== *)
theory Py_Path
  imports Py_Text
begin

text \<open>
  The file system and the path functions of the standard library the gateway calls:
  \<open>os.path.realpath\<close> (both algorithms: the recursive one of Python 3.12 and earlier and the
  iterative one of 3.13), \<open>os.path.normpath\<close>, \<open>pathlib\<close>'s joining and comparing, and the
  operating system's own walk, which \<open>exists()\<close> and \<open>is_dir()\<close> ask. POSIX paths; every
  directory is readable. An absolute path is its list of components.
\<close>

section \<open>The file system\<close>

type_synonym path = "ustr list"

datatype node = Dir | File | Link ustr

type_synonym fsys = "(path \<times> node) list"

definition lstat :: "fsys \<Rightarrow> path \<Rightarrow> node option" where
  "lstat fs p = (if p = [] then Some Dir else map_of fs p)"

definition links :: "fsys \<Rightarrow> path set" where
  "links fs = {p. \<exists>t. lstat fs p = Some (Link t)}"

definition is_abs :: "ustr \<Rightarrow> bool" where
  "is_abs s \<longleftrightarrow> starts_with (u ''/'') s"

definition parts :: "ustr \<Rightarrow> ustr list" where
  "parts s = split_on 47 s"

abbreviation "dot \<equiv> u ''.''"
abbreviation "dotdot \<equiv> u ''..''"

text \<open>A name that is a real component: not empty, not a dot, not two dots.\<close>

definition real_name :: "ustr \<Rightarrow> bool" where
  "real_name n \<longleftrightarrow> n \<noteq> [] \<and> n \<noteq> dot \<and> n \<noteq> dotdot"

text \<open>Every entry's parent is a directory, and names are real components without a slash.\<close>

definition wf_fs :: "fsys \<Rightarrow> bool" where
  "wf_fs fs \<longleftrightarrow>
     list_all (\<lambda>(p, n). p \<noteq> [] \<and> lstat fs (butlast p) = Some Dir
                 \<and> list_all (\<lambda>c. real_name c \<and> 47 \<notin> set c) p) fs"

section \<open>The operating system's walk\<close>

text \<open>
  Path resolution as the kernel does it, following every symbolic link; after \<open>k\<close> links it
  gives up (\<open>ELOOP\<close>). \<open>None\<close> is any \<open>OSError\<close>.
\<close>

function os_walk :: "fsys \<Rightarrow> nat \<Rightarrow> path \<Rightarrow> ustr list \<Rightarrow> path option" where
  "os_walk fs k cur [] = Some cur"
| "os_walk fs k cur (c # cs) =
     (if c = [] \<or> c = dot then os_walk fs k cur cs
      else if c = dotdot then os_walk fs k (butlast cur) cs
      else case lstat fs (cur @ [c]) of
        None \<Rightarrow> None
      | Some Dir \<Rightarrow> os_walk fs k (cur @ [c]) cs
      | Some File \<Rightarrow> if cs = [] then Some (cur @ [c]) else None
      | Some (Link t) \<Rightarrow>
          if k = 0 then None
          else os_walk fs (k - 1) (if is_abs t then [] else cur) (parts t @ cs))"
  by pat_completeness auto
termination
  by (relation "measures [\<lambda>(fs, k, cur, cs). k, \<lambda>(fs, k, cur, cs). length cs]") auto

definition MAXSYMLINKS :: nat where
  "MAXSYMLINKS = 40"

definition os_stat :: "fsys \<Rightarrow> path \<Rightarrow> node option" where
  "os_stat fs p = Option.bind (os_walk fs MAXSYMLINKS [] p) (lstat fs)"

text \<open>\<open>Path.exists()\<close> and \<open>Path.is_dir()\<close>, which swallow \<open>OSError\<close>.\<close>

definition path_exists :: "fsys \<Rightarrow> path \<Rightarrow> bool" where
  "path_exists fs p \<longleftrightarrow> os_stat fs p \<noteq> None"

definition is_dir :: "fsys \<Rightarrow> path \<Rightarrow> bool" where
  "is_dir fs p \<longleftrightarrow> os_stat fs p = Some Dir"

section \<open>Lexical operations\<close>

text \<open>\<open>os.path.normpath\<close> of an absolute path.\<close>

definition norm_step :: "path \<Rightarrow> ustr \<Rightarrow> path" where
  "norm_step p c = (if c = [] \<or> c = dot then p else if c = dotdot then butlast p else p @ [c])"

definition normpath :: "ustr list \<Rightarrow> path" where
  "normpath cs = foldl norm_step [] cs"

text \<open>\<open>base / s\<close>: pathlib drops empty and dot components, keeps two dots, and an absolute
  right operand replaces the left one.\<close>

definition pure_join :: "path \<Rightarrow> ustr \<Rightarrow> ustr list" where
  "pure_join base s = (if is_abs s then [] else base) @ filter (\<lambda>c. c \<noteq> [] \<and> c \<noteq> dot) (parts s)"

definition is_relative_to :: "path \<Rightarrow> path \<Rightarrow> bool" where
  "is_relative_to p q \<longleftrightarrow> take (length q) p = q"

text \<open>\<open>p.relative_to(q)\<close>; \<open>None\<close> is \<open>ValueError\<close>.\<close>

definition relative_to :: "path \<Rightarrow> path \<Rightarrow> ustr list option" where
  "relative_to p q = (if is_relative_to p q then Some (drop (length q) p) else None)"

definition as_posix :: "path \<Rightarrow> ustr" where
  "as_posix p = 47 # join_with [47] p"

definition rel_as_posix :: "ustr list \<Rightarrow> ustr" where
  "rel_as_posix r = (if r = [] then dot else join_with [47] r)"

section \<open>realpath\<close>

datatype todo = Name ustr | Resolved path

text \<open>
  Python 3.13, \<open>strict=False\<close>: a stack of unresolved parts, a dictionary of the links met
  (\<open>None\<close> while one is being resolved). The last component lists the links that were met
  again while being resolved and left in the path.
\<close>

function rp13 :: "fsys \<Rightarrow> path \<Rightarrow> todo list \<Rightarrow> (path \<times> path option) list \<Rightarrow> path list
    \<Rightarrow> path \<times> path list" where
  "rp13 fs p [] seen lg = (p, lg)"
| "rp13 fs p (Resolved l # rest) seen lg = rp13 fs p rest (dict_set seen l (Some p)) lg"
| "rp13 fs p (Name c # rest) seen lg =
     (if c = [] \<or> c = dot then rp13 fs p rest seen lg
      else if c = dotdot then rp13 fs (butlast p) rest seen lg
      else case lstat fs (p @ [c]) of
        Some (Link t) \<Rightarrow>
          (case dict_get seen (p @ [c]) of
            Some (Some q) \<Rightarrow> rp13 fs q rest seen lg
          | Some None \<Rightarrow> rp13 fs (p @ [c]) rest seen ((p @ [c]) # lg)
          | None \<Rightarrow>
              rp13 fs (if is_abs t then [] else p)
                (map Name (parts t) @ Resolved (p @ [c]) # rest)
                (dict_set seen (p @ [c]) None) lg)
      | _ \<Rightarrow> rp13 fs (p @ [c]) rest seen lg)"
  by pat_completeness auto

lemma finite_links: "finite (links fs)"
proof (rule finite_subset)
  show "links fs \<subseteq> fst ` set fs"
    by (auto simp: links_def lstat_def split: if_splits dest!: map_of_SomeD intro: rev_image_eqI)
qed simp

definition unseen :: "fsys \<Rightarrow> (path \<times> 'a) list \<Rightarrow> path set" where
  "unseen fs seen = links fs - set (map fst seen)"

lemma unseen_set: "unseen fs (dict_set seen l v) = unseen fs seen - {l}"
  using keys_dict_set [of seen l v] by (auto simp: unseen_def)

lemma card_unseen_le: "card (unseen fs (dict_set seen l v)) \<le> card (unseen fs seen)"
  unfolding unseen_set by (rule card_mono) (auto simp: unseen_def finite_links)

lemma card_unseen_less:
  assumes "lstat fs l = Some (Link t)" "dict_get seen l = None"
  shows "card (unseen fs (dict_set seen l v)) < card (unseen fs seen)"
proof (rule psubset_card_mono)
  show "finite (unseen fs seen)" by (simp add: unseen_def finite_links)
  have "l \<in> unseen fs seen"
    using assms by (simp add: unseen_def links_def dict_get_None_iff)
  then show "unseen fs (dict_set seen l v) \<subset> unseen fs seen"
    unfolding unseen_set by blast
qed

termination rp13
proof (relation "measures [\<lambda>(fs, p, rest, seen, lg). card (unseen fs seen),
      \<lambda>(fs, p, rest, seen, lg). length rest]", goal_cases)
  case (2 fs p l rest seen lg)
  then show ?case using card_unseen_le [of fs seen l "Some p"] by auto
qed (simp_all add: card_unseen_less)

text \<open>
  Python 3.12 and earlier, \<open>strict=False\<close>: recursive, and on a loop it returns the part
  resolved so far with the rest of the path appended as it is; the flag tells the callers
  up the recursion to do the same. \<open>n\<close> bounds the nesting of links.
\<close>

definition join_rest :: "ustr list \<Rightarrow> ustr list \<Rightarrow> ustr list" where
  "join_rest p cs = (if 1 < length cs \<and> hd cs = [] then cs else p @ cs)"

type_synonym seen = "(path \<times> path option) list"

function rp12 :: "fsys \<Rightarrow> nat \<Rightarrow> path \<Rightarrow> ustr list \<Rightarrow> seen \<Rightarrow> (ustr list \<times> bool \<times> seen) option" where
  "rp12 fs n p [] seen = Some (p, True, seen)"
| "rp12 fs n p (c # cs) seen =
     (if c = [] \<or> c = dot then rp12 fs n p cs seen
      else if c = dotdot then rp12 fs n (butlast p) cs seen
      else case lstat fs (p @ [c]) of
        Some (Link t) \<Rightarrow>
          (case dict_get seen (p @ [c]) of
            Some (Some q) \<Rightarrow> rp12 fs n q cs seen
          | Some None \<Rightarrow> Some (join_rest (p @ [c]) cs, False, seen)
          | None \<Rightarrow>
              if n = 0 then None
              else case rp12 fs (n - 1) (if is_abs t then [] else p) (parts t)
                          (dict_set seen (p @ [c]) None) of
                None \<Rightarrow> None
              | Some (q, ok, seen') \<Rightarrow>
                  if ok then rp12 fs n q cs (dict_set seen' (p @ [c]) (Some q))
                  else Some (join_rest q cs, False, seen'))
      | _ \<Rightarrow> rp12 fs n (p @ [c]) cs seen)"
  by pat_completeness auto
termination
  by (relation "measures [\<lambda>(fs, n, p, cs, seen). n, \<lambda>(fs, n, p, cs, seen). length cs]") auto

datatype pyver = Py312 | Py313

text \<open>
  \<open>os.path.realpath(s)\<close>: the path and whether every link met was resolved. A relative
  path starts at the working directory, whose own path \<open>getcwd\<close> returns free of links.
\<close>

definition is_link :: "fsys \<Rightarrow> path \<Rightarrow> bool" where
  "is_link fs p = (case lstat fs p of Some (Link t) \<Rightarrow> True | _ \<Rightarrow> False)"

definition n_links :: "fsys \<Rightarrow> nat" where
  "n_links fs = length (filter (is_link fs) (remdups (map fst fs)))"

lemma n_links: "n_links fs = card (links fs)"
proof -
  have "is_link fs p \<longleftrightarrow> p \<in> links fs" for p
    by (auto simp: is_link_def links_def split: option.splits node.splits)
  moreover have "links fs \<subseteq> fst ` set fs"
    by (auto simp: links_def lstat_def split: if_splits dest!: map_of_SomeD intro: rev_image_eqI)
  ultimately have "links fs = set (filter (is_link fs) (remdups (map fst fs)))"
    by auto
  then show ?thesis by (simp add: n_links_def distinct_card [symmetric])
qed

definition realpath :: "pyver \<Rightarrow> fsys \<Rightarrow> path \<Rightarrow> path \<times> bool" where
  "realpath v fs cs =
     (case v of
        Py312 \<Rightarrow>
          (case rp12 fs (n_links fs) [] cs [] of
             Some (q, ok, _) \<Rightarrow> (normpath q, ok)
           | None \<Rightarrow> ([], False))
      | Py313 \<Rightarrow> (case rp13 fs [] (map Name cs) [] [] of (q, lg) \<Rightarrow> (q, lg = [])))"

definition abs_parts :: "path \<Rightarrow> ustr \<Rightarrow> ustr list" where
  "abs_parts cwd s = (if is_abs s then parts s else cwd @ parts s)"

section \<open>Lemmas on the lexical operations\<close>

lemma is_relative_to_iff: "is_relative_to p q \<longleftrightarrow> (\<exists>r. p = q @ r)"
  using starts_with_iff [of q p] by (simp add: is_relative_to_def starts_with_def)

lemma is_relative_to_refl [simp]: "is_relative_to p p"
  by (simp add: is_relative_to_def)

lemma relative_to_Some_iff: "relative_to p q = Some r \<longleftrightarrow> p = q @ r"
  by (auto simp: relative_to_def is_relative_to_def) (metis append_take_drop_id)

lemma relative_to_None_iff: "relative_to p q = None \<longleftrightarrow> \<not> is_relative_to p q"
  by (simp add: relative_to_def)

definition clean :: "path \<Rightarrow> bool" where
  "clean p \<longleftrightarrow> list_all real_name p"

lemma clean_simps [simp]:
  "clean []" "clean (c # p) \<longleftrightarrow> real_name c \<and> clean p" "clean (p @ q) \<longleftrightarrow> clean p \<and> clean q"
  by (auto simp: clean_def)

lemma clean_butlast: "clean p \<Longrightarrow> clean (butlast p)"
  unfolding clean_def by (metis append_butlast_last_id butlast.simps(1) list_all_append)

lemma clean_norm_step: "clean p \<Longrightarrow> clean (norm_step p c)"
  by (auto simp: norm_step_def real_name_def clean_butlast)

lemma clean_foldl_norm: "clean p \<Longrightarrow> clean (foldl norm_step p cs)"
  by (induction cs arbitrary: p) (simp_all add: clean_norm_step)

lemma clean_normpath: "clean (normpath cs)"
  by (simp add: normpath_def clean_foldl_norm)

lemma foldl_norm_clean: "clean cs \<Longrightarrow> foldl norm_step p cs = p @ cs"
  by (induction cs arbitrary: p) (auto simp: norm_step_def real_name_def)

lemma normpath_clean: "clean cs \<Longrightarrow> normpath cs = cs"
  by (simp add: normpath_def foldl_norm_clean)

lemma real_name_cases: "c = [] \<or> c = dot \<or> c = dotdot \<or> real_name c"
  by (auto simp: real_name_def)

lemma real_nameD: "real_name c \<Longrightarrow> c \<noteq> [] \<and> c \<noteq> dot \<and> c \<noteq> dotdot"
  by (simp add: real_name_def)

section \<open>Paths free of links\<close>

text \<open>No prefix of the path is a symbolic link: what it names does not depend on any.\<close>

definition links_free :: "fsys \<Rightarrow> path \<Rightarrow> bool" where
  "links_free fs p \<longleftrightarrow> (\<forall>n \<le> length p. take n p \<notin> links fs)"

lemma root_not_link [simp]: "[] \<notin> links fs"
  by (simp add: links_def lstat_def)

lemma links_free_Nil [simp]: "links_free fs []"
  by (simp add: links_free_def)

lemma links_free_take: "links_free fs p \<Longrightarrow> links_free fs (take n p)"
  by (auto simp: links_free_def min_def)

lemma links_free_butlast: "links_free fs p \<Longrightarrow> links_free fs (butlast p)"
  by (simp add: butlast_conv_take links_free_take)

lemma links_free_snoc [simp]: "links_free fs (p @ [c]) \<longleftrightarrow> links_free fs p \<and> p @ [c] \<notin> links fs"
  by (auto simp: links_free_def le_Suc_eq)

lemma lstat_not_link: "(\<And>t. lstat fs p \<noteq> Some (Link t)) \<Longrightarrow> p \<notin> links fs"
  by (simp add: links_def)

lemma links_free_appendD: "links_free fs (p @ q) \<Longrightarrow> links_free fs p"
  using links_free_take [of fs "p @ q" "length p"] by simp

text \<open>On a path free of links the kernel stays where it is told to go.\<close>

lemma os_walk_links_free:
  assumes "clean (cur @ cs)" "links_free fs (cur @ cs)" "os_walk fs k cur cs = Some q"
  shows "q = cur @ cs"
  using assms
proof (induction cs arbitrary: cur)
  case (Cons c cs)
  have "links_free fs (cur @ [c])"
    using links_free_appendD [of fs "cur @ [c]" cs] Cons.prems(2) by simp
  then have "lstat fs (cur @ [c]) \<noteq> Some (Link t)" for t by (auto simp: links_def)
  with Cons.prems Cons.IH [of "cur @ [c]"] show ?case
    by (auto dest: real_nameD split: option.splits node.splits if_splits)
qed simp

lemma os_stat_links_free:
  assumes "clean p" "links_free fs p" "os_stat fs p = Some n"
  shows "lstat fs p = Some n" "os_walk fs MAXSYMLINKS [] p = Some p"
  using assms os_walk_links_free [of "[]" p fs MAXSYMLINKS]
  by (auto simp: os_stat_def Option.bind_eq_Some_conv)

section \<open>What realpath returns\<close>

definition seen_ok :: "(path \<Rightarrow> bool) \<Rightarrow> (path \<times> path option) list \<Rightarrow> bool" where
  "seen_ok P seen \<longleftrightarrow> (\<forall>l q. dict_get seen l = Some (Some q) \<longrightarrow> P q)"

lemma seen_ok_Nil [simp]: "seen_ok P []"
  by (simp add: seen_ok_def dict_get_def)

lemma seen_ok_set: "seen_ok P seen \<Longrightarrow> (\<And>q. v = Some q \<Longrightarrow> P q) \<Longrightarrow> seen_ok P (dict_set seen l v)"
  by (auto simp: seen_ok_def)

lemma seen_okD: "seen_ok P seen \<Longrightarrow> dict_get seen l = Some (Some q) \<Longrightarrow> P q"
  by (auto simp: seen_ok_def)

text \<open>The five kinds of step of both algorithms, as equations and as induction rules.\<close>

lemma not_link_lstat: "p \<notin> links fs \<Longrightarrow> lstat fs p \<noteq> Some (Link t)"
  by (auto simp: links_def)

lemma rp13_up: "rp13 fs p (Name dotdot # rest) seen lg = rp13 fs (butlast p) rest seen lg"
  by simp

lemma rp13_plain:
  "real_name c \<Longrightarrow> p @ [c] \<notin> links fs \<Longrightarrow> rp13 fs p (Name c # rest) seen lg = rp13 fs (p @ [c]) rest seen lg"
  by (auto simp: real_name_def dest: not_link_lstat split: option.splits node.splits)

lemma rp13_link:
  "real_name c \<Longrightarrow> lstat fs (p @ [c]) = Some (Link t) \<Longrightarrow>
     rp13 fs p (Name c # rest) seen lg =
       (case dict_get seen (p @ [c]) of
          Some (Some q) \<Rightarrow> rp13 fs q rest seen lg
        | Some None \<Rightarrow> rp13 fs (p @ [c]) rest seen ((p @ [c]) # lg)
        | None \<Rightarrow> rp13 fs (if is_abs t then [] else p)
                    (map Name (parts t) @ Resolved (p @ [c]) # rest)
                    (dict_set seen (p @ [c]) None) lg)"
  by (simp add: real_name_def)

lemma component_cases [case_names skip up plain link]:
  assumes "c = [] \<or> c = dot \<Longrightarrow> R" "c = dotdot \<Longrightarrow> R"
    and "real_name c \<Longrightarrow> p @ [c] \<notin> links fs \<Longrightarrow> R"
    and "\<And>t. real_name c \<Longrightarrow> lstat fs (p @ [c]) = Some (Link t) \<Longrightarrow> R"
  shows R
  using assms real_name_cases [of c] by (auto simp: links_def)

lemma seen_cases [case_names new loop old]:
  assumes "dict_get seen l = None \<Longrightarrow> R" "dict_get seen l = Some None \<Longrightarrow> R"
    and "\<And>q. dict_get seen l = Some (Some q) \<Longrightarrow> R"
  shows R
  using assms by (cases "dict_get seen l"; cases "the (dict_get seen l)") auto

lemma rp13_induct [case_names finish mark skip up plain new loop old]:
  assumes "\<And>p seen lg. P p [] seen lg"
    and "\<And>p l rest seen lg. P p rest (dict_set seen l (Some p)) lg \<Longrightarrow> P p (Resolved l # rest) seen lg"
    and "\<And>p c rest seen lg. c = [] \<or> c = dot \<Longrightarrow> P p rest seen lg \<Longrightarrow> P p (Name c # rest) seen lg"
    and "\<And>p rest seen lg. P (butlast p) rest seen lg \<Longrightarrow> P p (Name dotdot # rest) seen lg"
    and "\<And>p c rest seen lg. real_name c \<Longrightarrow> p @ [c] \<notin> links fs \<Longrightarrow> P (p @ [c]) rest seen lg
          \<Longrightarrow> P p (Name c # rest) seen lg"
    and "\<And>p c t rest seen lg. real_name c \<Longrightarrow> lstat fs (p @ [c]) = Some (Link t)
          \<Longrightarrow> dict_get seen (p @ [c]) = None
          \<Longrightarrow> P (if is_abs t then [] else p) (map Name (parts t) @ Resolved (p @ [c]) # rest)
                (dict_set seen (p @ [c]) None) lg
          \<Longrightarrow> P p (Name c # rest) seen lg"
    and "\<And>p c t rest seen lg. real_name c \<Longrightarrow> lstat fs (p @ [c]) = Some (Link t)
          \<Longrightarrow> dict_get seen (p @ [c]) = Some None \<Longrightarrow> P (p @ [c]) rest seen ((p @ [c]) # lg)
          \<Longrightarrow> P p (Name c # rest) seen lg"
    and "\<And>p c t q rest seen lg. real_name c \<Longrightarrow> lstat fs (p @ [c]) = Some (Link t)
          \<Longrightarrow> dict_get seen (p @ [c]) = Some (Some q) \<Longrightarrow> P q rest seen lg
          \<Longrightarrow> P p (Name c # rest) seen lg"
  shows "P p todo seen lg"
proof -
  have "fs' = fs \<Longrightarrow> P p todo seen lg" for fs'
  proof (induction fs' p todo seen lg rule: rp13.induct)
    case (3 fs' p c rest seen lg)
    note [simp] = \<open>fs' = fs\<close>
    show ?case
    proof (cases rule: component_cases [where c = c and p = p and fs = fs])
      case plain
      then have c: "\<not> (c = [] \<or> c = dot)" "c \<noteq> dotdot" by (auto dest: real_nameD)
      have "lstat fs (p @ [c]) \<in> {None, Some Dir, Some File}"
        using not_link_lstat [OF plain(2)] by (cases "lstat fs (p @ [c])"; cases "the (lstat fs (p @ [c]))") auto
      with c have "P (p @ [c]) rest seen lg" using "3.IH"(3-5) by auto
      then show ?thesis by (rule assms(5) [OF plain])
    next
      case (link t)
      then have c: "\<not> (c = [] \<or> c = dot)" "c \<noteq> dotdot" by (auto dest: real_nameD)
      show ?thesis
      proof (cases rule: seen_cases [where seen = seen and l = "p @ [c]"])
        case new
        show ?thesis by (rule assms(6) [OF link new "3.IH"(6) [OF c]]) (use link new in auto)
      next
        case loop
        show ?thesis by (rule assms(7) [OF link loop "3.IH"(7) [OF c]]) (use link loop in auto)
      next
        case (old q)
        show ?thesis by (rule assms(8) [OF link old "3.IH"(8) [OF c]]) (use link old in auto)
      qed
    qed (use "3.IH"(1,2) assms(3,4) in auto)
  qed (use assms(1,2) in auto)
  then show ?thesis by simp
qed

lemma rp13_log: "rp13 fs p todo seen lg = (q, lg') \<Longrightarrow> set lg \<subseteq> set lg'"
proof (induction p todo seen lg rule: rp13_induct [where fs = fs])
  case skip then show ?case by auto
qed (simp_all add: rp13_plain rp13_link rp13_up del: rp13.simps(3))

lemma rp13_links:
  "rp13 fs p todo seen lg = (q, []) \<Longrightarrow> clean p \<and> links_free fs p
    \<Longrightarrow> seen_ok (\<lambda>q. clean q \<and> links_free fs q) seen \<Longrightarrow> clean q \<and> links_free fs q"
proof (induction p todo seen lg rule: rp13_induct [where fs = fs])
  case (mark p l rest seen lg)
  have "seen_ok (\<lambda>q. clean q \<and> links_free fs q) (dict_set seen l (Some p))"
    using mark.prems by (intro seen_ok_set) auto
  with mark show ?case by simp
next
  case skip then show ?case by auto
next
  case (new p c t rest seen lg)
  have "clean (if is_abs t then [] else p) \<and> links_free fs (if is_abs t then [] else p)"
    using new.prems(2) by simp
  moreover have "seen_ok (\<lambda>q. clean q \<and> links_free fs q) (dict_set seen (p @ [c]) None)"
    using new.prems(3) by (intro seen_ok_set) auto
  ultimately show ?case using new by (simp add: rp13_link del: rp13.simps(3))
next
  case (loop p c t rest seen lg)
  then show ?case by (auto simp add: rp13_link simp del: rp13.simps(3) dest: rp13_log)
next
  case (old p c t r rest seen lg)
  then show ?case using seen_okD [OF old.prems(3) old.hyps(3)] by (simp add: rp13_link del: rp13.simps(3))
qed (simp_all add: rp13_plain rp13_up clean_butlast links_free_butlast del: rp13.simps(3))

lemma finite_unseen: "finite (unseen fs seen)"
  by (simp add: unseen_def finite_links)

lemma rp12_plain:
  "real_name c \<Longrightarrow> p @ [c] \<notin> links fs \<Longrightarrow> rp12 fs n p (c # cs) seen = rp12 fs n (p @ [c]) cs seen"
  by (auto simp: real_name_def dest: not_link_lstat split: option.splits node.splits)

lemma rp12_link:
  "real_name c \<Longrightarrow> lstat fs (p @ [c]) = Some (Link t) \<Longrightarrow>
     rp12 fs n p (c # cs) seen =
       (case dict_get seen (p @ [c]) of
          Some (Some q) \<Rightarrow> rp12 fs n q cs seen
        | Some None \<Rightarrow> Some (join_rest (p @ [c]) cs, False, seen)
        | None \<Rightarrow>
            if n = 0 then None
            else case rp12 fs (n - 1) (if is_abs t then [] else p) (parts t)
                        (dict_set seen (p @ [c]) None) of
              None \<Rightarrow> None
            | Some (q, ok, seen') \<Rightarrow>
                if ok then rp12 fs n q cs (dict_set seen' (p @ [c]) (Some q))
                else Some (join_rest q cs, False, seen'))"
  by (simp add: real_name_def)

lemma rp12_induct [case_names finish skip up plain new loop old]:
  assumes "\<And>n p seen. P n p [] seen"
    and "\<And>n p c cs seen. c = [] \<or> c = dot \<Longrightarrow> P n p cs seen \<Longrightarrow> P n p (c # cs) seen"
    and "\<And>n p cs seen. P n (butlast p) cs seen \<Longrightarrow> P n p (dotdot # cs) seen"
    and "\<And>n p c cs seen. real_name c \<Longrightarrow> p @ [c] \<notin> links fs \<Longrightarrow> P n (p @ [c]) cs seen
          \<Longrightarrow> P n p (c # cs) seen"
    and "\<And>n p c t cs seen. real_name c \<Longrightarrow> lstat fs (p @ [c]) = Some (Link t)
          \<Longrightarrow> dict_get seen (p @ [c]) = None
          \<Longrightarrow> (n \<noteq> 0 \<Longrightarrow> P (n - 1) (if is_abs t then [] else p) (parts t) (dict_set seen (p @ [c]) None))
          \<Longrightarrow> (\<And>q seen'. n \<noteq> 0 \<Longrightarrow> rp12 fs (n - 1) (if is_abs t then [] else p) (parts t)
                  (dict_set seen (p @ [c]) None) = Some (q, True, seen')
                \<Longrightarrow> P n q cs (dict_set seen' (p @ [c]) (Some q)))
          \<Longrightarrow> P n p (c # cs) seen"
    and "\<And>n p c t cs seen. real_name c \<Longrightarrow> lstat fs (p @ [c]) = Some (Link t)
          \<Longrightarrow> dict_get seen (p @ [c]) = Some None \<Longrightarrow> P n p (c # cs) seen"
    and "\<And>n p c t q cs seen. real_name c \<Longrightarrow> lstat fs (p @ [c]) = Some (Link t)
          \<Longrightarrow> dict_get seen (p @ [c]) = Some (Some q) \<Longrightarrow> P n q cs seen
          \<Longrightarrow> P n p (c # cs) seen"
  shows "P n p cs seen"
proof -
  have "fs' = fs \<Longrightarrow> P n p cs seen" for fs'
  proof (induction fs' n p cs seen rule: rp12.induct)
    case (2 fs' n p c cs seen)
    note [simp] = \<open>fs' = fs\<close>
    show ?case
    proof (cases rule: component_cases [where c = c and p = p and fs = fs])
      case plain
      then have c: "\<not> (c = [] \<or> c = dot)" "c \<noteq> dotdot" by (auto dest: real_nameD)
      have "lstat fs (p @ [c]) \<in> {None, Some Dir, Some File}"
        using not_link_lstat [OF plain(2)] by (cases "lstat fs (p @ [c])"; cases "the (lstat fs (p @ [c]))") auto
      with c have "P n (p @ [c]) cs seen" using "2.IH"(3-5) by auto
      then show ?thesis by (rule assms(4) [OF plain])
    next
      case (link t)
      then have c: "\<not> (c = [] \<or> c = dot)" "c \<noteq> dotdot" by (auto dest: real_nameD)
      show ?thesis
      proof (cases rule: seen_cases [where seen = seen and l = "p @ [c]"])
        case new
        show ?thesis
          by (rule assms(5) [OF link new "2.IH"(6) [OF c] "2.IH"(7) [OF c]]) (use link new in auto)
      next
        case loop
        show ?thesis by (rule assms(6) [OF link loop])
      next
        case (old q)
        show ?thesis by (rule assms(7) [OF link old "2.IH"(8) [OF c]]) (use link old in auto)
      qed
    qed (use "2.IH"(1,2) assms(2,3) in auto)
  qed (use assms(1) in auto)
  then show ?thesis by simp
qed

lemma rp12_links:
  "rp12 fs n p cs seen = Some (q, ok, seen') \<Longrightarrow> clean p \<and> links_free fs p
    \<Longrightarrow> seen_ok (\<lambda>q. clean q \<and> links_free fs q) seen
    \<Longrightarrow> (ok \<longrightarrow> clean q \<and> links_free fs q) \<and> seen_ok (\<lambda>q. clean q \<and> links_free fs q) seen'"
proof (induction n p cs seen arbitrary: q ok seen' rule: rp12_induct [where fs = fs])
  case skip then show ?case by auto
next
  case (up n p cs seen)
  then show ?case by (simp add: clean_butlast links_free_butlast)
next
  case (new n p c t cs seen)
  let ?P = "\<lambda>q. clean q \<and> links_free fs q"
  have s: "seen_ok ?P (dict_set seen (p @ [c]) None)" "?P (if is_abs t then [] else p)"
    using new.prems(2,3) seen_ok_set [of ?P seen None] by auto
  obtain r ok' s' where n: "n \<noteq> 0" and r: "rp12 fs (n - 1) (if is_abs t then [] else p) (parts t)
      (dict_set seen (p @ [c]) None) = Some (r, ok', s')"
    using new.prems(1) new.hyps by (auto simp: rp12_link simp del: rp12.simps(2) split: if_splits option.splits)
  have i: "(ok' \<longrightarrow> ?P r) \<and> seen_ok ?P s'" by (rule new.IH(1) [OF n r s(2,1)])
  show ?case
  proof (cases ok')
    case True
    with new.prems(1) new.hyps n r have "rp12 fs n r cs (dict_set s' (p @ [c]) (Some r)) = Some (q, ok, seen')"
      by (simp add: rp12_link del: rp12.simps(2))
    moreover have "seen_ok ?P (dict_set s' (p @ [c]) (Some r))"
      using i True seen_ok_set [of ?P s' "Some r" "p @ [c]"] by auto
    moreover have "rp12 fs (n - 1) (if is_abs t then [] else p) (parts t) (dict_set seen (p @ [c]) None)
        = Some (r, True, s')"
      using r True by simp
    ultimately show ?thesis using new.IH(2) [OF n, of r s'] i True by simp
  next
    case False
    with new.prems(1) new.hyps n r i show ?thesis by (simp add: rp12_link del: rp12.simps(2))
  qed
next
  case (loop n p c t cs seen)
  then show ?case by (simp add: rp12_link del: rp12.simps(2))
next
  case (old n p c t r cs seen)
  then show ?case using seen_okD [OF old.prems(3) old.hyps(3)] by (simp add: rp12_link del: rp12.simps(2))
qed (simp_all add: rp12_plain del: rp12.simps(2))

lemma ex_bool: "\<exists>b::bool. b" "Ex Not"
  by (rule exI [of _ True], simp, rule exI [of _ False], simp)

lemma rp12_up: "rp12 fs n p (dotdot # cs) seen = rp12 fs n (butlast p) cs seen"
  by simp

text \<open>The nesting bound is never reached: the number of links is enough.\<close>

lemma rp12_total:
  "card (unseen fs seen) \<le> n \<Longrightarrow>
    \<exists>q ok seen'. rp12 fs n p cs seen = Some (q, ok, seen') \<and> unseen fs seen' \<subseteq> unseen fs seen"
proof (induction n p cs seen rule: rp12_induct [where fs = fs])
  case skip then show ?case by auto
next
  case (new n p c t cs seen)
  let ?s = "dict_set seen (p @ [c]) None"
  have less: "card (unseen fs ?s) < card (unseen fs seen)"
    using new.hyps(2,3) by (rule card_unseen_less)
  with new.prems have n: "n \<noteq> 0" "card (unseen fs ?s) \<le> n - 1" by auto
  then obtain q ok s' where r: "rp12 fs (n - 1) (if is_abs t then [] else p) (parts t) ?s = Some (q, ok, s')"
      and s': "unseen fs s' \<subseteq> unseen fs ?s"
    using new.IH(1) by blast
  have sub: "unseen fs s' \<subseteq> unseen fs seen" using s' by (auto simp: unseen_set)
  show ?case
  proof (cases ok)
    case True
    have "unseen fs (dict_set s' (p @ [c]) (Some q)) \<subseteq> unseen fs seen"
      using sub by (auto simp: unseen_set)
    moreover from this have "card (unseen fs (dict_set s' (p @ [c]) (Some q))) \<le> n"
      using new.prems card_mono [OF finite_unseen] by (meson le_trans)
    ultimately obtain q' ok' s'' where "rp12 fs n q cs (dict_set s' (p @ [c]) (Some q)) = Some (q', ok', s'')"
        "unseen fs s'' \<subseteq> unseen fs seen"
      using new.IH(2) [OF n(1), of q s'] r True by fastforce
    with new.hyps n r True show ?thesis by (simp add: rp12_link del: rp12.simps(2))
  next
    case False
    then have "rp12 fs n p (c # cs) seen = Some (join_rest q cs, False, s')"
      using new.hyps n r by (simp add: rp12_link del: rp12.simps(2))
    with sub show ?thesis by blast
  qed
qed (simp_all add: rp12_plain rp12_link rp12_up ex_bool del: rp12.simps(2))

lemma rp13_clean:
  "clean p \<Longrightarrow> seen_ok clean seen \<Longrightarrow> clean (fst (rp13 fs p todo seen lg))"
proof (induction p todo seen lg rule: rp13_induct [where fs = fs])
  case (mark p l rest seen lg)
  then show ?case using seen_ok_set [of clean seen "Some p" l] by simp
next
  case skip then show ?case by auto
next
  case (new p c t rest seen lg)
  have "seen_ok clean (dict_set seen (p @ [c]) None)" "clean (if is_abs t then [] else p)"
    using new.prems seen_ok_set [of clean seen None] by auto
  with new show ?case by (simp add: rp13_link del: rp13.simps(3))
next
  case (old p c t r rest seen lg)
  then show ?case using seen_okD [OF old.prems(2) old.hyps(3)] by (simp add: rp13_link del: rp13.simps(3))
qed (simp_all add: rp13_plain rp13_link rp13_up clean_butlast del: rp13.simps(3))

text \<open>
  What the gateway needs of \<open>realpath\<close>: the result is a proper path, and when every link
  was resolved no link is left in it, so the kernel opens exactly the path that was checked.
\<close>

locale path_resolver =
  fixes resolve :: "fsys \<Rightarrow> ustr list \<Rightarrow> path \<times> bool"
  assumes clean_resolved: "resolve fs cs = (p, ok) \<Longrightarrow> clean p"
    and links_free_resolved: "resolve fs cs = (p, True) \<Longrightarrow> links_free fs p"
begin

lemma kernel_opens_it:
  assumes "resolve fs cs = (p, True)" "os_stat fs p = Some n"
  shows "os_walk fs MAXSYMLINKS [] p = Some p \<and> lstat fs p = Some n"
  using os_stat_links_free [OF clean_resolved [OF assms(1)] links_free_resolved [OF assms(1)] assms(2)]
  by simp

text \<open>Resolving what was resolved adds nothing.\<close>

lemma kernel_opens_suffix:
  assumes "resolve fs cs = (base @ r, True)" "os_walk fs k base r = Some q"
  shows "q = base @ r"
  using assms(2) by (rule os_walk_links_free [OF clean_resolved [OF assms(1)] links_free_resolved [OF assms(1)]])

end

interpretation py_path: path_resolver "realpath v" for v
proof
  fix fs cs p ok
  assume r: "realpath v fs cs = (p, ok)"
  show "clean p"
    using r rp13_clean [of "[]" "[]" fs "map Name cs" "[]"]
    by (cases v) (auto simp: realpath_def clean_normpath split: option.splits prod.splits)
next
  fix fs cs p
  assume r: "realpath v fs cs = (p, True)"
  show "links_free fs p"
  proof (cases v)
    case Py312
    with r obtain q s where "rp12 fs (n_links fs) [] cs [] = Some (q, True, s)" "p = normpath q"
      by (auto simp: realpath_def split: option.splits)
    with rp12_links [of fs "n_links fs" "[]" cs "[]" q True s] show ?thesis
      by (simp add: normpath_clean)
  next
    case Py313
    with r have "rp13 fs [] (map Name cs) [] [] = (p, [])"
      by (auto simp: realpath_def split: prod.splits)
    with rp13_links [of fs "[]" "map Name cs" "[]" "[]" p] show ?thesis by simp
  qed
qed

lemma realpath_312_total:
  "\<exists>q ok s. rp12 fs (n_links fs) [] cs [] = Some (q, ok, s) \<and> realpath Py312 fs cs = (normpath q, ok)"
  using rp12_total [of fs "[]" "card (links fs)" "[]" cs]
  by (fastforce simp: realpath_def unseen_def n_links)


section \<open>Properties\<close>

text \<open>
  a resolved path is the file the kernel opens. When \<open>realpath\<close> (of either Python
  version) met no link loop, opening its result follows no symbolic link at all: the object
  found is the one named, and so it is when the last components are walked from any prefix.
\<close>

lemma realpath_is_what_opens:
  assumes "realpath v fs cs = (base @ r, True)" "os_walk fs k base r = Some q"
  shows "q = base @ r \<and> links_free fs (base @ r) \<and> clean (base @ r)"
  using py_path.kernel_opens_suffix [OF assms] py_path.links_free_resolved [OF assms(1)]
    py_path.clean_resolved [OF assms(1)] by simp

definition demo_fs :: fsys where
  "demo_fs =
     [([u ''s''], Dir), ([u ''s'', u ''a''], Dir), ([u ''s'', u ''b''], Link (u ''a/../a'')),
      ([u ''s'', u ''a'', u ''f''], File)]"

lemma realpath_is_what_opens_witness:
  "os_walk demo_fs 40 [u ''s''] [u ''a'', u ''f''] = Some [u ''s'', u ''a'', u ''f'']
   \<and> links_free demo_fs [u ''s'', u ''a'', u ''f'']"
proof -
  have a: "realpath Py313 demo_fs (parts (u ''/s/b/f'')) = ([u ''s''] @ [u ''a'', u ''f''], True)"
    by code_simp
  have b: "os_walk demo_fs 40 [u ''s''] [u ''a'', u ''f''] = Some [u ''s'', u ''a'', u ''f'']"
    by code_simp
  show ?thesis
    using realpath_is_what_opens [OF a b] b by (simp only: append.simps simp_thms)
qed

end
