(* ===== verification/Gateway_Config.thy ===== *)
theory Gateway_Config
  imports Gateway_Types Py_Path
begin

text \<open>
  \<open>gateway/config.py\<close>: the configuration sections with their model validators, the loader
  and the start-up check that no file the gateway owns lies inside an approved root. The
  parsing of a TOML document into typed fields (pydantic: types, defaults, unknown keys) is
  an argument of the loader; the validators the source defines are modelled.
\<close>

section \<open>The sections\<close>

record edge_config =
  edge_host :: ustr
  edge_port :: int
  edge_mcp_path :: ustr
  edge_allowed_origins :: "ustr list"
  edge_max_message_bytes :: int
  edge_max_concurrent_requests :: int
  edge_request_timeout_s :: pyfloat

record child_tuning =
  ch_startup_timeout_s :: pyfloat
  ch_shutdown_grace_s :: pyfloat
  ch_stderr_capture_lines :: nat

record child_config = child_tuning +
  ch_executable :: ustr
  ch_args :: "ustr list"
  ch_cwd :: ustr
  ch_env_allowlist :: "ustr list"

text \<open>
  The limits a structural walk needs. Both directions satisfy it, as both classes satisfy
  the \<open>StructuralLimits\<close> protocol: the two sections extend it.
\<close>

record structural_limits =
  lim_max_depth :: int
  lim_max_object_keys :: int
  lim_max_array_length :: int
  lim_max_string_length :: int
  lim_max_total_fields :: int

record protocol_config = structural_limits +
  prt_supported_versions :: "ustr list"
  prt_allowed_methods :: "ustr list"
  prt_recognized_denied :: "ustr list"
  prt_max_body_bytes :: int
  prt_parse_budget_ms :: int

record response_config = structural_limits +
  rsp_max_bytes :: int

record identity_config =
  idc_principal :: ustr
  idc_client_id :: ustr
  idc_roles :: "ustr list"
  idc_environment :: ustr
  idc_role_vocabulary :: "ustr list"

record root_config =
  root_name :: ustr
  root_path :: ustr
  root_classification :: ustr
  root_read :: bool
  root_create :: bool
  root_overwrite :: bool
  root_append :: bool
  root_rename :: bool
  root_delete :: bool

record canonicalize_config =
  can_base :: ustr
  can_roots :: "root_config list"
  can_max_path_length :: int
  can_sensitive_decoys :: "ustr list"

record policy_config =
  pol_base_url :: ustr
  pol_decision_path :: ustr
  pol_discoverable_path :: ustr
  pol_timeout_ms :: int
  pol_max_timeout_ms :: int
  pol_default_timeout_ms :: int
  pol_max_response_bytes :: int
  pol_default_response_bytes :: int
  pol_cache_enabled :: bool

record router_config =
  rt_max_timeout_ms :: int
  rt_max_response_bytes :: int

record audit_config =
  aud_path :: ustr
  aud_durable :: bool
  aud_max_bytes :: int
  aud_max_age_days :: int
  aud_rotate_keep :: int
  aud_capture_stage_latency :: bool

record config =
  cfg_registry_path :: ustr
  cfg_edge :: edge_config
  cfg_child :: child_tuning
  cfg_protocol :: protocol_config
  cfg_identity :: identity_config
  cfg_canonicalize :: canonicalize_config
  cfg_policy :: policy_config
  cfg_router :: router_config
  cfg_response :: response_config
  cfg_audit :: audit_config

section \<open>Validators\<close>

abbreviation "ValidationError \<equiv> PyError ''ValidationError''"

definition loopback_only :: "edge_config \<Rightarrow> unit result" where
  "loopback_only c =
     raise_if (edge_host c \<notin> set [u ''127.0.0.1'', u ''::1'', u ''localhost'']) ValidationError"

definition check_identity :: "identity_config \<Rightarrow> unit result" where
  "check_identity c =
     bindR (raise_if (idc_principal c = [] \<or> idc_client_id c = []) ValidationError) (\<lambda>_.
     raise_if (\<not> list_all (\<lambda>r. r \<in> set (idc_role_vocabulary c)) (idc_roles c)) ValidationError)"

definition named_root :: "root_config \<Rightarrow> unit result" where
  "named_root r = raise_if (root_name r = [] \<or> root_classification r = []) ValidationError"

definition ceilings_agree :: "config \<Rightarrow> unit result" where
  "ceilings_agree c =
     bindR (raise_if (pol_max_timeout_ms (cfg_policy c) \<noteq> rt_max_timeout_ms (cfg_router c)) ValidationError) (\<lambda>_.
     bindR (raise_if (pol_max_response_bytes (cfg_policy c) \<noteq> rt_max_response_bytes (cfg_router c))
              ValidationError) (\<lambda>_.
     raise_if (rsp_max_bytes (cfg_response c) < rt_max_response_bytes (cfg_router c)) ValidationError))"

text \<open>\<open>Config.model_validate\<close>: the fields, then the validators, inner models first.\<close>

definition model_validate :: "(pyval \<Rightarrow> config option) \<Rightarrow> pyval \<Rightarrow> config result" where
  "model_validate typed raw =
     (case typed raw of
        None \<Rightarrow> Inl ValidationError
      | Some c \<Rightarrow>
          bindR (loopback_only (cfg_edge c)) (\<lambda>_.
          bindR (check_identity (cfg_identity c)) (\<lambda>_.
          bindR (forR named_root (can_roots (cfg_canonicalize c))) (\<lambda>_.
          bindR (ceilings_agree c) (\<lambda>_. Inr c)))))"

section \<open>Loading\<close>

datatype toml_file = Missing | Undecodable | Toml pyval

definition load :: "(pyval \<Rightarrow> config option) \<Rightarrow> (ustr \<Rightarrow> toml_file) \<Rightarrow> ustr \<Rightarrow> config result" where
  "load typed open_toml p =
     (case open_toml p of
        Missing \<Rightarrow> Inl ConfigError
      | Undecodable \<Rightarrow> Inl ConfigError
      | Toml raw \<Rightarrow>
          (case model_validate typed raw of Inl _ \<Rightarrow> Inl ConfigError | Inr c \<Rightarrow> Inr c))"

text \<open>
  \<open>Path(s).resolve()\<close>. Python 3.12 also raises \<open>RuntimeError\<close> when the path ends in a link
  loop, which these operator-written paths do not.
\<close>

definition path_resolve :: "pyver \<Rightarrow> fsys \<Rightarrow> path \<Rightarrow> ustr \<Rightarrow> path" where
  "path_resolve v fs cwd s = fst (realpath v fs (pure_join cwd s))"

text \<open>
  CANON-015. The roots are resolved once, then each file the gateway owns is compared with
  each of them.
\<close>

definition self_check :: "pyver \<Rightarrow> fsys \<Rightarrow> path \<Rightarrow> config \<Rightarrow> ustr option \<Rightarrow> unit result" where
  "self_check v fs cwd c config_path =
     (let roots = map (path_resolve v fs cwd \<circ> root_path) (can_roots (cfg_canonicalize c));
          protected = [cfg_registry_path c, aud_path (cfg_audit c)]
                        @ (case config_path of None \<Rightarrow> [] | Some p \<Rightarrow> [p])
      in forR (\<lambda>p. let rp = path_resolve v fs cwd p in
                 forR (\<lambda>root. raise_if (rp = root \<or> is_relative_to rp root) ConfigError) roots)
           protected)"

section \<open>Lemmas\<close>

lemmas validator_defs = loopback_only_def check_identity_def named_root_def ceilings_agree_def

text \<open>What every loaded configuration satisfies.\<close>

definition config_ok :: "config \<Rightarrow> bool" where
  "config_ok c \<longleftrightarrow>
     edge_host (cfg_edge c) \<in> set [u ''127.0.0.1'', u ''::1'', u ''localhost'']
     \<and> idc_principal (cfg_identity c) \<noteq> [] \<and> idc_client_id (cfg_identity c) \<noteq> []
     \<and> list_all (\<lambda>r. r \<in> set (idc_role_vocabulary (cfg_identity c))) (idc_roles (cfg_identity c))
     \<and> list_all (\<lambda>r. root_name r \<noteq> [] \<and> root_classification r \<noteq> []) (can_roots (cfg_canonicalize c))
     \<and> pol_max_timeout_ms (cfg_policy c) = rt_max_timeout_ms (cfg_router c)
     \<and> pol_max_response_bytes (cfg_policy c) = rt_max_response_bytes (cfg_router c)
     \<and> rt_max_response_bytes (cfg_router c) \<le> rsp_max_bytes (cfg_response c)"

lemma model_validate_Inr_iff:
  "model_validate typed raw = Inr c \<longleftrightarrow> typed raw = Some c \<and> config_ok c"
  by (auto simp: model_validate_def validator_defs config_ok_def bindR_Inr_iff raise_if_Inr_iff
      forR_Inr_iff list_all_iff split: option.splits)

lemma load_Inr_iff:
  "load typed open_toml p = Inr c \<longleftrightarrow>
     (\<exists>raw. open_toml p = Toml raw \<and> typed raw = Some c \<and> config_ok c)"
  by (auto simp: load_def split: toml_file.splits sum.splits
      simp: model_validate_Inr_iff [symmetric])

lemma load_error: "load typed open_toml p = Inl e \<Longrightarrow> e = ConfigError"
  by (auto simp: load_def split: toml_file.splits sum.splits)

lemma eq_or_relative: "p = q \<or> is_relative_to p q \<longleftrightarrow> is_relative_to p q"
  by auto

lemma self_check_Inr_iff:
  "self_check v fs cwd c cp = Inr () \<longleftrightarrow>
     (\<forall>p \<in> set ([cfg_registry_path c, aud_path (cfg_audit c)] @ (case cp of None \<Rightarrow> [] | Some p \<Rightarrow> [p])).
       \<forall>r \<in> set (can_roots (cfg_canonicalize c)).
         \<not> is_relative_to (path_resolve v fs cwd p) (path_resolve v fs cwd (root_path r)))"
  by (simp only: self_check_def Let_def forR_Inr_iff raise_if_Inr_iff set_map comp_def ball_simps
      eq_or_relative)


section \<open>Properties\<close>

text \<open>
  a configuration is accepted exactly when its file parses into typed fields that satisfy
  every validator (loopback edge, required identity, known roles, named roots, agreeing
  ceilings); anything else, a missing file included, is a \<open>ConfigError\<close>.
\<close>

lemma load_correct:
  "load typed open_toml p =
     (case open_toml p of
        Toml raw \<Rightarrow>
          (case typed raw of
             Some c \<Rightarrow> if config_ok c then Inr c else Inl ConfigError
           | None \<Rightarrow> Inl ConfigError)
      | _ \<Rightarrow> Inl ConfigError)"
proof (cases "load typed open_toml p")
  case (Inl e)
  then have "e = ConfigError" by (rule load_error)
  moreover have "load typed open_toml p \<noteq> Inr c" for c using Inl by simp
  then have "\<not> (open_toml p = Toml raw \<and> typed raw = Some c \<and> config_ok c)" for raw c
    by (auto simp: load_Inr_iff)
  ultimately show ?thesis using Inl by (auto split: toml_file.splits option.splits)
next
  case (Inr c)
  then show ?thesis by (auto simp: load_Inr_iff split: toml_file.splits)
qed

text \<open>
  start-up refuses a layout where a tool could write the gateway's own files. The check
  passes exactly when neither the registry, nor the audit log, nor the configuration file
  resolves to a path at or below a resolved approved root (CANON-015).
\<close>

lemma self_check_correct:
  "self_check v fs cwd c cp = Inr () \<longleftrightarrow>
     (\<forall>p r. p \<in> set ([cfg_registry_path c, aud_path (cfg_audit c)] @ (case cp of None \<Rightarrow> [] | Some p \<Rightarrow> [p]))
         \<and> r \<in> set (can_roots (cfg_canonicalize c))
       \<longrightarrow> \<not> is_relative_to (path_resolve v fs cwd p) (path_resolve v fs cwd (root_path r)))"
  unfolding self_check_Inr_iff by blast

definition demo_root :: root_config where
  "demo_root = \<lparr> root_name = u ''public'', root_path = u ''/s/a'', root_classification = u ''public'',
     root_read = True, root_create = False, root_overwrite = False, root_append = False,
     root_rename = False, root_delete = False \<rparr>"

definition demo_config :: config where
  "demo_config = \<lparr> cfg_registry_path = u ''/etc/registry.toml'',
     cfg_edge = \<lparr> edge_host = u ''127.0.0.1'', edge_port = 8080, edge_mcp_path = u ''/mcp'',
       edge_allowed_origins = [], edge_max_message_bytes = 1000, edge_max_concurrent_requests = 4,
       edge_request_timeout_s = Dec False 30 0 \<rparr>,
     cfg_child = \<lparr> ch_startup_timeout_s = Dec False 10 0, ch_shutdown_grace_s = Dec False 5 0,
       ch_stderr_capture_lines = 256 \<rparr>,
     cfg_protocol = \<lparr> lim_max_depth = 4, lim_max_object_keys = 8, lim_max_array_length = 8,
       lim_max_string_length = 64, lim_max_total_fields = 16,
       prt_supported_versions = [u ''v''], prt_allowed_methods = [u ''tools/list'', u ''tools/call''],
       prt_recognized_denied = [], prt_max_body_bytes = 1000, prt_parse_budget_ms = 100 \<rparr>,
     cfg_identity = \<lparr> idc_principal = u ''dev'', idc_client_id = u ''c'', idc_roles = [u ''developer''],
       idc_environment = u ''development'', idc_role_vocabulary = [u ''developer''] \<rparr>,
     cfg_canonicalize = \<lparr> can_base = u ''/s'', can_roots = [demo_root], can_max_path_length = 100,
       can_sensitive_decoys = [] \<rparr>,
     cfg_policy = \<lparr> pol_base_url = [], pol_decision_path = [], pol_discoverable_path = [],
       pol_timeout_ms = 500, pol_max_timeout_ms = 10000, pol_default_timeout_ms = 3000,
       pol_max_response_bytes = 4000, pol_default_response_bytes = 1000, pol_cache_enabled = False \<rparr>,
     cfg_router = \<lparr> rt_max_timeout_ms = 10000, rt_max_response_bytes = 4000 \<rparr>,
     cfg_response = \<lparr> lim_max_depth = 4, lim_max_object_keys = 8, lim_max_array_length = 8,
       lim_max_string_length = 64, lim_max_total_fields = 16, rsp_max_bytes = 4000 \<rparr>,
     cfg_audit = \<lparr> aud_path = u ''/var/audit.jsonl'', aud_durable = True, aud_max_bytes = 1000,
       aud_max_age_days = 7, aud_rotate_keep = 5, aud_capture_stage_latency = True \<rparr> \<rparr>"

lemma self_check_correct_witness:
  "\<not> is_relative_to (path_resolve Py313 demo_fs [] (u ''/etc/registry.toml''))
       (path_resolve Py313 demo_fs [] (u ''/s/a''))"
proof -
  have "self_check Py313 demo_fs [] demo_config None = Inr ()" by code_simp
  then show ?thesis unfolding self_check_correct by (auto simp: demo_config_def demo_root_def)
qed

end
