(* ===== verification/Prescan.thy ===== *)
theory Prescan
  imports Gateway_Config
begin

text \<open>
  Step 1 of \<open>gateway/protocol.py\<close>: the byte scan that bounds size and nesting depth before
  the parser runs. The lemmas compare its string-aware state machine with the real scanner
  of \<open>Json_Text\<close>: on UTF-8 text both agree where a string or a container begins, so a
  body that passes cannot exhaust the parser's recursion limit.
\<close>

section \<open>The scan\<close>

abbreviation proto_deny :: "reason_code \<Rightarrow> exc" where
  "proto_deny c \<equiv> Denial PROTOCOL c"

fun prescan_loop :: "int \<Rightarrow> byte list \<Rightarrow> int \<Rightarrow> bool \<Rightarrow> bool \<Rightarrow> unit result" where
  "prescan_loop max_depth [] depth in_string escaped = Inr ()"
| "prescan_loop max_depth (b # body) depth in_string escaped =
     (if escaped then prescan_loop max_depth body depth in_string False
      else if in_string then
        (if b = 0x5C then prescan_loop max_depth body depth in_string True
         else if b = 0x22 then prescan_loop max_depth body depth False False
         else prescan_loop max_depth body depth in_string False)
      else if b = 0x22 then prescan_loop max_depth body depth True False
      else if b = 0x7B \<or> b = 0x5B then
        (if depth + 1 > max_depth then Inl (proto_deny PROTO_LIMIT_EXCEEDED)
         else prescan_loop max_depth body (depth + 1) in_string False)
      else if b = 0x7D \<or> b = 0x5D then prescan_loop max_depth body (depth - 1) in_string False
      else prescan_loop max_depth body depth in_string False)"

definition prescan :: "bytes \<Rightarrow> protocol_config \<Rightarrow> unit result" where
  "prescan body cfg =
     (if prt_max_body_bytes cfg < int (length body) then Inl (proto_deny PROTO_LIMIT_EXCEEDED)
      else prescan_loop (lim_max_depth cfg) body 0 False False)"

section \<open>The same machine on code points\<close>

fun pres :: "int \<Rightarrow> nat list \<Rightarrow> int \<Rightarrow> bool \<Rightarrow> bool \<Rightarrow> bool" where
  "pres M [] d ins esc \<longleftrightarrow> True"
| "pres M (c # s) d ins esc \<longleftrightarrow>
     (if esc then pres M s d ins False
      else if ins then
        (if c = 92 then pres M s d ins True
         else if c = 34 then pres M s d False False
         else pres M s d ins False)
      else if c = 34 then pres M s d True False
      else if c = 123 \<or> c = 91 then d + 1 \<le> M \<and> pres M s (d + 1) ins False
      else if c = 125 \<or> c = 93 then pres M s (d - 1) ins False
      else pres M s d ins False)"

lemma byte_eq: "(b :: byte) = 0x5C \<longleftrightarrow> unat b = 92" "(b :: byte) = 0x22 \<longleftrightarrow> unat b = 34"
    "(b :: byte) = 0x7B \<longleftrightarrow> unat b = 123" "(b :: byte) = 0x5B \<longleftrightarrow> unat b = 91"
    "(b :: byte) = 0x7D \<longleftrightarrow> unat b = 125" "(b :: byte) = 0x5D \<longleftrightarrow> unat b = 93"
  by (simp_all add: word_unat_eq_iff)

lemma if_Inr: "((if c then x else y) = Inr ()) \<longleftrightarrow> (if c then x = Inr () else y = Inr ())"
  by simp

lemma prescan_loop_pres:
  "prescan_loop M body d ins esc = Inr () \<longleftrightarrow> pres M (map unat body) d ins esc"
proof (induction body arbitrary: d ins esc)
  case (Cons b body)
  then show ?case
    by (simp only: prescan_loop.simps pres.simps list.map byte_eq if_Inr not_le [symmetric])
      (simp add: not_less)
qed simp

lemma prescan_loop_error:
  "prescan_loop M body d ins esc = Inl e \<Longrightarrow> e = proto_deny PROTO_LIMIT_EXCEEDED"
proof (induction body arbitrary: d ins esc)
  case (Cons b body)
  from Cons.prems show ?case
    by (simp only: prescan_loop.simps split: if_splits) (auto dest: Cons.IH)
qed simp

lemma prescan_Inr_iff:
  "prescan body cfg = Inr () \<longleftrightarrow>
     int (length body) \<le> prt_max_body_bytes cfg \<and> pres (lim_max_depth cfg) (map unat body) 0 False False"
  by (auto simp: prescan_def prescan_loop_pres)

lemma prescan_error: "prescan body cfg = Inl e \<Longrightarrow> e = proto_deny PROTO_LIMIT_EXCEEDED"
  by (auto simp: prescan_def dest: prescan_loop_error split: if_splits)

text \<open>Characters that do not change the state outside a string.\<close>

definition neutral :: "nat \<Rightarrow> bool" where
  "neutral c \<longleftrightarrow> c \<notin> {34, 123, 91, 125, 93}"

lemma pres_neutral: "list_all neutral p \<Longrightarrow> pres M (p @ s) d False False = pres M s d False False"
  by (induction p) (auto simp: neutral_def)

lemma pres_in_string:
  "list_all (\<lambda>c. c \<noteq> 34 \<and> c \<noteq> 92) p \<Longrightarrow> pres M (p @ s) d True False = pres M s d True False"
  by (induction p) auto

section \<open>UTF-8 does not hide anything from the byte scan\<close>

lemma pres_high: "list_all (\<lambda>b. 128 \<le> b) p \<Longrightarrow> pres M (p @ s) d ins False = pres M s d ins False"
  by (induction p) auto

lemma pres_high_esc: "128 \<le> (b :: nat) \<Longrightarrow> list_all (\<lambda>b. 128 \<le> b) p \<Longrightarrow>
    pres M (b # p @ s) d ins esc = pres M s d ins False"
  using pres_high [of p M s d ins] by (cases esc) auto

lemma pres_step_high: "128 \<le> c \<Longrightarrow> pres M (c # s) d ins esc = pres M s d ins False"
  by simp

lemma cont_byte_high: "cont_byte b \<Longrightarrow> 128 \<le> b"
  by (simp add: cont_byte_def)

lemma pres_utf8: "utf8_dec sp bs = Some s \<Longrightarrow> pres M bs d ins esc = pres M s d ins esc"
proof (induction "length bs" arbitrary: bs s d ins esc rule: less_induct)
  case less
  show ?case
  proof (cases bs)
    case Nil
    with less.prems show ?thesis by simp
  next
    case bs: (Cons b r)
    note prems = less.prems [unfolded bs]
    note IH = less.hyps [unfolded bs]
  consider "b < 0x80" | "0xC2 \<le> b" "b < 0xE0" | "0xE0 \<le> b" "b < 0xF0" | "0xF0 \<le> b" "b < 0xF5"
    | "\<not> b < 0x80" "\<not> (0xC2 \<le> b \<and> b < 0xF5)"
    by linarith
  then show ?thesis
  proof cases
    case 1
    with prems obtain s' where "s = b # s'" "utf8_dec sp r = Some s'" by auto
    with 1 IH [of r s'] show ?thesis by (simp add: bs)
  next
    case 2
    with prems obtain b1 r' s' where r: "r = b1 # r'" "cont_byte b1" "utf8_dec sp r' = Some s'"
        and s: "s = ((b - 0xC0) * 64 + (b1 - 0x80)) # s'"
      by (auto split: list.splits if_splits)
    have "128 \<le> (b - 0xC0) * 64 + (b1 - 0x80)" using 2 by simp
    with r s 2 IH [OF _ r(3)] cont_byte_high [OF r(2)] show ?thesis
      by (simp del: pres.simps add: pres_step_high bs)
  next
    case 3
    with prems obtain b1 b2 r' s' c where r: "r = b1 # b2 # r'" "cont_byte b1" "cont_byte b2"
        "utf8_dec sp r' = Some s'" "0x800 \<le> c" and s: "s = c # s'"
      by (auto simp: Let_def split: list.splits if_splits)
    from prems 3 r(1,2,3) s have c: "c = (b - 0xE0) * 4096 + (b1 - 0x80) * 64 + (b2 - 0x80) \<and> scalar_ok sp c"
      by (auto simp: Let_def split: if_splits)
    from r c 3 IH [OF _ r(4)] show ?thesis
      using cont_byte_high [OF r(2)] cont_byte_high [OF r(3)]
      by (simp del: pres.simps add: pres_step_high s bs)
  next
    case 4
    with prems obtain b1 b2 b3 r' s' c where r: "r = b1 # b2 # b3 # r'" "cont_byte b1" "cont_byte b2"
        "cont_byte b3" "utf8_dec sp r' = Some s'" "0x10000 \<le> c" and s: "s = c # s'"
      by (auto simp: Let_def split: list.splits if_splits)
    from prems 4 r(1,2,3,4) s have c:
        "c = (b - 0xF0) * 262144 + (b1 - 0x80) * 4096 + (b2 - 0x80) * 64 + (b3 - 0x80) \<and> c \<le> 0x10FFFF"
      by (auto simp: Let_def split: if_splits)
    from r c 4 IH [OF _ r(5)] show ?thesis
      using cont_byte_high [OF r(2)] cont_byte_high [OF r(3)] cont_byte_high [OF r(4)]
      by (simp del: pres.simps add: pres_step_high s bs)
  next
    case 5
    with prems show ?thesis by auto
  qed
qed
qed

section \<open>The scan follows the parser\<close>

text \<open>Each scanner consumes a prefix that leaves the byte scan in the matching state.\<close>

lemma hex_val_in_string: "hex_val c = Some v \<Longrightarrow> c \<noteq> 34 \<and> c \<noteq> 92"
  by (auto simp: hex_val_def split: if_splits)

lemma pres_hex4: "hex4 s = Some (v, r) \<Longrightarrow> pres M s d True False = pres M r d True False"
proof -
  assume "hex4 s = Some (v, r)"
  then obtain a b c e va vb vc ve where s: "s = a # b # c # e # r"
      and "hex_val a = Some va" "hex_val b = Some vb" "hex_val c = Some vc" "hex_val e = Some ve"
    unfolding hex4_def by (auto split: list.splits option.splits)
  then have "list_all (\<lambda>c. c \<noteq> 34 \<and> c \<noteq> 92) [a, b, c, e]"
    using hex_val_in_string by auto
  then show ?thesis using pres_in_string [of "[a, b, c, e]" M r d] s by simp
qed

lemma pres_unicode_escape:
  assumes "unicode_escape s = Some (v, r)"
  shows "pres M s d True False = pres M r d True False"
proof -
  obtain h r1 where h: "hex4 s = Some (h, r1)"
    using assms by (auto simp: unicode_escape_def split: option.splits)
  show ?thesis
  proof (cases "r = r1")
    case True
    with pres_hex4 [OF h] show ?thesis by simp
  next
    case False
    with assms h obtain l where l: "hex4 (drop 2 r1) = Some (l, r)" and s: "starts_with [92, 117] r1"
      by (auto simp: unicode_escape_def split: if_splits option.splits)
    from s obtain r2 where "r1 = [92, 117] @ r2" by (auto simp: starts_with_iff)
    with pres_hex4 [OF h] pres_hex4 [OF l] show ?thesis by simp
  qed
qed

lemma pres_scan_string:
  "(scan_string s :: 'e jexc + (ustr \<times> ustr)) = Inr (k, r)
    \<Longrightarrow> pres M s d True False = pres M r d False False"
proof (induction s arbitrary: k r rule: scan_string.induct)
  case 1
  then show ?case by simp
next
  case (2 c s)
  consider "c = 34" | "c = 92" | "c \<noteq> 34" "c \<noteq> 92" by blast
  then show ?case
  proof cases
    case 1
    with "2.prems" show ?thesis by simp
  next
    case 2
    with "2.prems" obtain e s1 where s: "s = e # s1" by (auto split: list.splits)
    show ?thesis
    proof (cases "e = 117")
      case True
      with 2 "2.prems" s obtain v s2 where v: "unicode_escape s1 = Some (v, s2)"
        by (auto split: option.splits)
      with "2.prems" 2 s True obtain k' where "(scan_string s2 :: 'e jexc + (ustr \<times> ustr)) = Inr (k', r)"
        by (auto simp: mapR_Inr_iff)
      with "2.IH"(1) [OF _ 2 s True v refl] v 2 s True pres_unicode_escape [OF v, of M d] show ?thesis
        by simp
    next
      case False
      with 2 "2.prems" s obtain v k' where v: "simple_escape e = Some v"
          and "(scan_string s1 :: 'e jexc + (ustr \<times> ustr)) = Inr (k', r)"
        by (auto split: option.splits simp: mapR_Inr_iff)
      with "2.IH"(2) [OF _ 2 s False v] 2 s show ?thesis by simp
    qed
  next
    case 3
    with "2.prems" obtain k' where "(scan_string s :: 'e jexc + (ustr \<times> ustr)) = Inr (k', r)"
      by (auto simp: mapR_Inr_iff split: if_splits)
    with "2.IH"(3) 3 "2.prems" show ?thesis by (auto split: if_splits)
  qed
qed

definition consumes :: "ustr \<Rightarrow> ustr \<Rightarrow> bool" where
  "consumes s r \<longleftrightarrow> (\<exists>p. s = p @ r \<and> list_all neutral p)"

lemma consumes_refl [simp]: "consumes s s"
  by (simp add: consumes_def)

lemma consumes_Cons: "neutral c \<Longrightarrow> consumes s r \<Longrightarrow> consumes (c # s) r"
  unfolding consumes_def by (metis append_Cons list.pred_inject(2))

lemma consumes_tl: "neutral c \<Longrightarrow> consumes (c # s) s"
  by (rule consumes_Cons) simp_all

lemma consumes_trans: "consumes s r \<Longrightarrow> consumes r t \<Longrightarrow> consumes s t"
  unfolding consumes_def by (metis append.assoc list_all_append)

lemma consumes_dropWhile: "(\<And>c. P c \<Longrightarrow> neutral c) \<Longrightarrow> consumes s (dropWhile P s)"
  unfolding consumes_def
  by (rule exI [of _ "takeWhile P s"]) (auto simp: list_all_iff dest: set_takeWhileD)

lemma consumes_drop: "starts_with p s \<Longrightarrow> list_all neutral p \<Longrightarrow> consumes s (drop (length p) s)"
  by (auto simp: consumes_def starts_with_iff)

lemma pres_consumes: "consumes s r \<Longrightarrow> pres M s d False False = pres M r d False False"
  by (auto simp: consumes_def pres_neutral)

lemma neutral_digit: "is_digit c \<Longrightarrow> neutral c"
  by (auto simp: is_digit_def neutral_def)

lemma neutral_number_chars [simp]:
  "neutral 48" "neutral 45" "neutral 43" "neutral 46" "neutral 101" "neutral 69"
  by (simp_all add: neutral_def)

lemma neutral_ws: "is_ws c \<Longrightarrow> neutral c"
  by (auto simp: is_ws_def neutral_def)

lemma consumes_skip_ws [simp]: "consumes s (skip_ws s)"
  unfolding skip_ws_def by (rule consumes_dropWhile) (rule neutral_ws)

lemma consumes_digits: "consumes s (dropWhile is_digit s)"
  by (rule consumes_dropWhile) (rule neutral_digit)

lemma consumes_int_part:
  assumes "scan_int_part s = Some (d, r)" shows "consumes s r"
proof (cases s)
  case Nil
  with assms show ?thesis by (simp add: scan_int_part_def)
next
  case (Cons c s')
  with assms show ?thesis
    using consumes_digits [of s] consumes_tl [of 48 s']
    by (cases "c = 48"; cases "is_digit c") (simp_all add: scan_int_part_def)
qed

lemma consumes_frac:
  assumes "scan_frac s = (f, r)" shows "consumes s r"
proof (cases s)
  case Nil
  with assms show ?thesis by (simp add: scan_frac_def)
next
  case (Cons c s')
  with assms show ?thesis
    using consumes_digits [of s'] consumes_Cons [of 46 s' "dropWhile is_digit s'"]
    by (cases "c = 46 \<and> takeWhile is_digit s' \<noteq> []") (auto simp: scan_frac_def)
qed

lemma consumes_exp:
  assumes "scan_exp s = (x, r)" shows "consumes s r"
proof (cases s)
  case Nil
  with assms show ?thesis by (simp add: scan_exp_def)
next
  case (Cons c r0)
  show ?thesis
  proof (cases "c = 101 \<or> c = 69")
    case False
    with assms Cons show ?thesis by (simp add: scan_exp_def)
  next
    case True
    then have "neutral c" by auto
    obtain neg r1 where n: "(case r0 of x # r' \<Rightarrow> if x = 45 then (True, r')
        else if x = 43 then (False, r') else (False, r0) | [] \<Rightarrow> (False, r0)) = (neg, r1)"
      by (rule prod.exhaust)
    have "consumes r0 r1"
    proof (cases r0)
      case Nil
      with n show ?thesis by simp
    next
      case r0: (Cons y r')
      with n show ?thesis using consumes_tl [of 45 r'] consumes_tl [of 43 r']
        by (cases "y = 45"; cases "y = 43") simp_all
    qed
    then have "consumes s (dropWhile is_digit r1)"
      unfolding Cons by (rule consumes_Cons [OF \<open>neutral c\<close> consumes_trans [OF _ consumes_digits]])
    moreover have "r = s \<or> r = dropWhile is_digit r1"
      using assms True unfolding scan_exp_def Cons list.case n Let_def prod.case
      by (auto split: if_splits)
    ultimately show ?thesis by auto
  qed
qed

lemma consumes_number:
  assumes "scan_number s = Inr (v, r)" shows "consumes s r"
proof -
  obtain neg s1 where n: "(case s of x # r \<Rightarrow> if x = 45 then (True, r) else (False, s) | [] \<Rightarrow> (False, s)) = (neg, s1)"
    by (metis surj_pair)
  have l1: "consumes s s1"
    using n by (auto simp: neutral_def intro: consumes_Cons split: list.splits if_splits)
  obtain ds s2 where i: "scan_int_part s1 = Some (ds, s2)"
    using assms n by (auto simp: scan_number_def Let_def split: option.splits)
  obtain f s3 where f: "scan_frac s2 = (f, s3)" by (metis surj_pair)
  obtain x s4 where x: "scan_exp s3 = (x, s4)" by (metis surj_pair)
  have "r = s2 \<or> r = s4"
    using assms unfolding scan_number_def n i f x Let_def prod.case option.case f x by (auto split: if_splits)
  with l1 consumes_int_part [OF i] consumes_frac [OF f] consumes_exp [OF x] show ?thesis
    by (metis consumes_trans)
qed

lemma neutral_literals:
  "list_all neutral (u ''null'')" "list_all neutral (u ''true'')" "list_all neutral (u ''false'')"
  "list_all neutral (u ''NaN'')" "list_all neutral (u ''Infinity'')" "list_all neutral (u ''-Infinity'')"
  by (simp_all add: u_literals neutral_def)

lemma special_const_rest: "special_const pc name r = Inr (v, r') \<Longrightarrow> r' = r"
  by (auto simp: special_const_def mapR_Inr_iff)

lemma consumes_atom:
  assumes "scan_atom pc s = Inr (v, r)" shows "consumes s r"
proof -
  have lit: "consumes s (drop (length w) s)" if "starts_with w s" "list_all neutral w" for w
    using that by (rule consumes_drop)
  have len: "length (u ''null'') = 4" "length (u ''true'') = 4" "length (u ''false'') = 5"
    "length (u ''NaN'') = 3" "length (u ''Infinity'') = 8" "length (u ''-Infinity'') = 9"
    by (simp_all add: u_literals)
  note lits = lit [OF _ neutral_literals(1)] lit [OF _ neutral_literals(2)] lit [OF _ neutral_literals(3)]
    lit [OF _ neutral_literals(4)] lit [OF _ neutral_literals(5)] lit [OF _ neutral_literals(6)]
  from assms show ?thesis
    unfolding scan_atom_def
    by (simp split: if_splits)
      (metis lits len special_const_rest consumes_number)+
qed

lemma scan_atom_error: "scan_atom pc s \<noteq> Inl RecursionError"
  using scan_number_error [of s RecursionError]
  by (auto simp: scan_atom_def special_const_def mapR_Inl_iff run_hook_iff split: if_splits)

lemma pres_skip: "pres M (skip_ws s) d False False = pres M s d False False"
  by (rule pres_consumes [symmetric]) simp

lemma pres_tl_skip:
  "starts_with [c] (skip_ws s) \<Longrightarrow> pres M s d False False = pres M (c # tl (skip_ws s)) d False False"
  by (subst pres_skip [symmetric]) (auto simp: starts_with_iff)

text \<open>
  \<open>tracks M d res\<close>: the scan, standing where the parser stands, lets it go on and is
  at depth \<open>d'\<close> after what was read; the parser does not meet its recursion limit.
\<close>

definition tracks :: "int \<Rightarrow> int \<Rightarrow> 'e jexc + ('a \<times> ustr) \<Rightarrow> bool" where
  "tracks M d' res \<longleftrightarrow>
     (case res of Inl e \<Rightarrow> e \<noteq> RecursionError | Inr (_, r) \<Rightarrow> pres M r d' False False)"

lemma tracks_Inl [simp]: "tracks M d (Inl e) \<longleftrightarrow> e \<noteq> RecursionError"
  by (simp add: tracks_def)

lemma tracks_Inr [simp]: "tracks M d (Inr (v, r)) \<longleftrightarrow> pres M r d False False"
  by (simp add: tracks_def)

lemma tracks_mapR [simp]: "tracks M d (mapR (map_prod f id) res) \<longleftrightarrow> tracks M d res"
  by (cases res) (auto simp: tracks_def)

lemma tracks_hook: "pres M r d False False \<Longrightarrow> tracks M d (mapR (\<lambda>v. (v, r)) (run_hook h))"
  by (cases h) simp_all

lemma tracks_bind:
  "(\<And>e. res = Inl e \<Longrightarrow> e \<noteq> RecursionError) \<Longrightarrow> (\<And>x. res = Inr x \<Longrightarrow> tracks M d (f x))
    \<Longrightarrow> tracks M d (bindR res f)"
  by (cases res) simp_all

lemma tracks_expect:
  "tracks M d (mapR (\<lambda>r2. (v, r2)) (expect c s :: 'e jexc + ustr))
     \<longleftrightarrow> (\<forall>r. s = c # r \<longrightarrow> pres M r d False False)"
proof (cases "expect c s :: 'e jexc + ustr")
  case (Inl e)
  then have "s \<noteq> c # r" for r by (auto simp: expect_def)
  with Inl expect_Inl [OF Inl] show ?thesis by simp
next
  case (Inr r)
  then have s: "s = c # r" by (simp add: expect_Inr)
  show ?thesis unfolding Inr using s by simp
qed

lemma tracks_scan:
  fixes h :: "(ustr \<times> pyval) list \<Rightarrow> 'e + pyval"
  assumes rl: "M \<le> int rl"
  shows "pres M s (int d) False False \<Longrightarrow> tracks M (int d) (scan_once h pc rl n d s)"
    and "pres M s (int d) False False \<Longrightarrow> tracks M (int d - 1) (scan_items h pc rl n d s)"
    and "pres M s (int d) True False \<Longrightarrow> tracks M (int d - 1) (scan_members h pc rl n d s)"
proof (induction n arbitrary: s d)
  case 0
  {
    case 1 then show ?case by (simp add: scan_once.simps)
  next
    case 2 then show ?case by (simp add: scan_items.simps)
  next
    case 3 then show ?case by (simp add: scan_members.simps)
  }
next
  case (Suc n)
  {
    case (1 s d)
    show ?case
    proof (cases s)
      case Nil
      then show ?thesis by (simp add: scan_once.simps)
    next
      case (Cons x r)
      consider "x = 34" | "x = 123" | "x = 91" | "x \<noteq> 34" "x \<noteq> 123" "x \<noteq> 91" by blast
      then show ?thesis
      proof cases
        case 1
        show ?thesis
        proof (cases "scan_string r :: 'e jexc + (ustr \<times> ustr)")
          case (Inl e)
          with 1 Cons scan_string_error [OF Inl] show ?thesis by (simp add: scan_once.simps)
        next
          case (Inr kr)
          obtain k r1 where kr: "kr = (k, r1)" by (cases kr)
          from "1" Cons \<open>pres M s (int d) False False\<close> pres_scan_string [OF Inr [unfolded kr], of M "int d"]
          show ?thesis by (simp add: scan_once.simps Inr kr)
        qed
      next
        case 2
        with Cons \<open>pres M s (int d) False False\<close>
        have d: "int d + 1 \<le> M" and r: "pres M r (int (Suc d)) False False"
          by (simp_all add: add.commute)
        then have "\<not> rl \<le> d" using rl by linarith
        moreover have "tracks M (int d) (mapR (\<lambda>v. (v, tl (skip_ws r))) (run_hook (h [])))"
          if "starts_with [125] (skip_ws r)"
          using r pres_tl_skip [OF that, of M "int (Suc d)"] by (intro tracks_hook) simp
        moreover have "tracks M (int d) (bindR (expect 34 (skip_ws r)) (\<lambda>r1.
              bindR (scan_members h pc rl n (Suc d) r1) (\<lambda>(kvs, r2).
                mapR (\<lambda>v. (v, r2)) (run_hook (h kvs)))))"
        proof (rule tracks_bind)
          fix e assume "(expect 34 (skip_ws r) :: 'e jexc + ustr) = Inl e"
          then show "e \<noteq> RecursionError" by (auto dest: expect_Inl)
        next
          fix r1 assume "(expect 34 (skip_ws r) :: 'e jexc + ustr) = Inr r1"
          then have "pres M r1 (int (Suc d)) True False"
            using r pres_skip [of M r "int (Suc d)"] by (simp add: expect_Inr)
          from Suc.IH(3) [OF this] have t: "tracks M (int d) (scan_members h pc rl n (Suc d) r1)"
            by simp
          show "tracks M (int d) (bindR (scan_members h pc rl n (Suc d) r1)
              (\<lambda>(kvs, r2). mapR (\<lambda>v. (v, r2)) (run_hook (h kvs))))"
          proof (rule tracks_bind)
            fix e assume "scan_members h pc rl n (Suc d) r1 = Inl e"
            with t show "e \<noteq> RecursionError" by simp
          next
            fix x assume a: "scan_members h pc rl n (Suc d) r1 = Inr x"
            obtain kvs r2 where "x = (kvs, r2)" by (cases x)
            with t a show "tracks M (int d) (case x of (kvs, r2) \<Rightarrow> mapR (\<lambda>v. (v, r2)) (run_hook (h kvs)))"
              by (simp add: tracks_hook)
          qed
        qed
        ultimately show ?thesis using 2 Cons by (simp add: scan_once.simps)
      next
        case 3
        with Cons \<open>pres M s (int d) False False\<close>
        have d: "int d + 1 \<le> M" and r: "pres M r (int (Suc d)) False False"
          by (simp_all add: add.commute)
        then have "\<not> rl \<le> d" using rl by linarith
        moreover have "pres M (tl (skip_ws r)) (int d) False False" if "starts_with [93] (skip_ws r)"
          using r pres_tl_skip [OF that, of M "int (Suc d)"] by simp
        moreover have "tracks M (int d) (scan_items h pc rl n (Suc d) (skip_ws r))"
          using Suc.IH(2) [of "skip_ws r" "Suc d"] r pres_skip [of M r "int (Suc d)"] by simp
        ultimately show ?thesis using 3 Cons by (simp add: scan_once.simps)
      next
        case 4
        have "tracks M (int d) (scan_atom pc s)"
        proof (cases "scan_atom pc s")
          case (Inl e)
          with scan_atom_error [of pc s] show ?thesis by auto
        next
          case (Inr vr)
          obtain v r1 where "vr = (v, r1)" by (cases vr)
          with Inr pres_consumes [OF consumes_atom [of pc s v r1], of M "int d"]
            \<open>pres M s (int d) False False\<close> show ?thesis by simp
        qed
        with 4 Cons show ?thesis by (simp add: scan_once.simps)
      qed
    qed
  next
    case (2 s d)
    show ?case
      unfolding scan_items.simps
    proof (rule tracks_bind)
      fix e assume "scan_once h pc rl n d s = Inl e"
      with Suc.IH(1) [OF "2"] show "e \<noteq> RecursionError" by simp
    next
      fix x assume a: "scan_once h pc rl n d s = Inr x"
      obtain v r where x: "x = (v, r)" by (cases x)
      have r: "pres M r (int d) False False" using Suc.IH(1) [OF "2"] a x by simp
      show "tracks M (int d - 1) (case x of (v, r) \<Rightarrow>
          if starts_with [44] (skip_ws r)
          then mapR (map_prod (Cons v) id) (scan_items h pc rl n d (skip_ws (tl (skip_ws r))))
          else mapR (\<lambda>r2. ([v], r2)) (expect 93 (skip_ws r)))"
      proof (cases "starts_with [44] (skip_ws r)")
        case True
        then have "pres M (skip_ws (tl (skip_ws r))) (int d) False False"
          using r pres_tl_skip [OF True, of M "int d"] by (simp add: pres_skip)
        from Suc.IH(2) [OF this] True show ?thesis by (simp add: x)
      next
        case False
        have "pres M (skip_ws r) (int d) False False" using r by (simp add: pres_skip)
        with False show ?thesis by (auto simp: x tracks_expect)
      qed
    qed
  next
    case (3 s d)
    show ?case
      unfolding scan_members.simps
    proof (rule tracks_bind)
      fix e assume "(scan_string s :: 'e jexc + (ustr \<times> ustr)) = Inl e"
      then show "e \<noteq> RecursionError" by (auto dest: scan_string_error)
    next
      fix x assume a: "(scan_string s :: 'e jexc + (ustr \<times> ustr)) = Inr x"
      obtain k r where x: "x = (k, r)" by (cases x)
      have r: "pres M (skip_ws r) (int d) False False"
        using pres_scan_string [OF a [unfolded x], of M "int d"] "3" by (simp add: pres_skip)
      show "tracks M (int d - 1) (case x of (k, r) \<Rightarrow> bindR (expect 58 (skip_ws r)) (\<lambda>r1.
          bindR (scan_once h pc rl n d (skip_ws r1)) (\<lambda>(v, r2).
            if starts_with [44] (skip_ws r2)
            then bindR (expect 34 (skip_ws (tl (skip_ws r2)))) (\<lambda>r3.
                   mapR (map_prod (Cons (k, v)) id) (scan_members h pc rl n d r3))
            else mapR (\<lambda>r3. ([(k, v)], r3)) (expect 125 (skip_ws r2)))))"
        unfolding x prod.case
      proof (rule tracks_bind)
        fix e assume "(expect 58 (skip_ws r) :: 'e jexc + ustr) = Inl e"
        then show "e \<noteq> RecursionError" by (auto dest: expect_Inl)
      next
        fix r1 assume "(expect 58 (skip_ws r) :: 'e jexc + ustr) = Inr r1"
        then have "pres M (skip_ws r1) (int d) False False"
          using r by (simp add: expect_Inr pres_skip)
        note t = Suc.IH(1) [OF this]
        show "tracks M (int d - 1) (bindR (scan_once h pc rl n d (skip_ws r1)) (\<lambda>(v, r2).
            if starts_with [44] (skip_ws r2)
            then bindR (expect 34 (skip_ws (tl (skip_ws r2)))) (\<lambda>r3.
                   mapR (map_prod (Cons (k, v)) id) (scan_members h pc rl n d r3))
            else mapR (\<lambda>r3. ([(k, v)], r3)) (expect 125 (skip_ws r2))))"
        proof (rule tracks_bind)
          fix e assume "scan_once h pc rl n d (skip_ws r1) = Inl e"
          with t show "e \<noteq> RecursionError" by simp
        next
          fix y assume b: "scan_once h pc rl n d (skip_ws r1) = Inr y"
          obtain v r2 where y: "y = (v, r2)" by (cases y)
          have r2: "pres M r2 (int d) False False" using t b y by simp
          show "tracks M (int d - 1) (case y of (v, r2) \<Rightarrow>
              if starts_with [44] (skip_ws r2)
              then bindR (expect 34 (skip_ws (tl (skip_ws r2)))) (\<lambda>r3.
                     mapR (map_prod (Cons (k, v)) id) (scan_members h pc rl n d r3))
              else mapR (\<lambda>r3. ([(k, v)], r3)) (expect 125 (skip_ws r2)))"
          proof (cases "starts_with [44] (skip_ws r2)")
            case True
            have "tracks M (int d - 1) (bindR (expect 34 (skip_ws (tl (skip_ws r2)))) (\<lambda>r3.
                mapR (map_prod (Cons (k, v)) id) (scan_members h pc rl n d r3)))"
            proof (rule tracks_bind)
              fix e assume "(expect 34 (skip_ws (tl (skip_ws r2))) :: 'e jexc + ustr) = Inl e"
              then show "e \<noteq> RecursionError" by (auto dest: expect_Inl)
            next
              fix r3 assume "(expect 34 (skip_ws (tl (skip_ws r2))) :: 'e jexc + ustr) = Inr r3"
              then have s3: "skip_ws (tl (skip_ws r2)) = 34 # r3" by (simp add: expect_Inr)
              have "pres M (skip_ws (tl (skip_ws r2))) (int d) False False"
                using r2 pres_tl_skip [OF True, of M "int d"] by (simp add: pres_skip)
              then have "pres M r3 (int d) True False" by (simp add: s3)
              from Suc.IH(3) [OF this]
              show "tracks M (int d - 1) (mapR (map_prod (Cons (k, v)) id) (scan_members h pc rl n d r3))"
                by simp
            qed
            with True show ?thesis by (simp add: y)
          next
            case False
            have "pres M (skip_ws r2) (int d) False False" using r2 by (simp add: pres_skip)
            with False show ?thesis by (auto simp: y tracks_expect)
          qed
        qed
      qed
    qed
  }
qed

lemma decode_no_recursion_error:
  assumes "pres M s 0 False False" "M \<le> int rl"
  shows "json_decode h pc rl s \<noteq> Inl RecursionError"
proof -
  have "pres M (skip_ws s) (int 0) False False" using assms(1) by (simp add: pres_skip)
  from tracks_scan(1) [OF assms(2) this, of h pc "2 * length s + 2"] show ?thesis
    by (auto simp: json_decode_def bindR_Inl_iff)
qed

text \<open>The bodies \<open>json.loads\<close> decodes as UTF-8, with or without a byte order mark.\<close>

definition reads_utf8 :: "nat list \<Rightarrow> bool" where
  "reads_utf8 b \<longleftrightarrow>
     json_decode_bytes b = utf8_dec True b
     \<or> starts_with [0xEF, 0xBB, 0xBF] b \<and> json_decode_bytes b = utf8_dec True (drop 3 b)"

lemma pres_decoded:
  assumes "reads_utf8 b" "json_decode_bytes b = Some s"
  shows "pres M b d False False = pres M s d False False"
proof (cases "json_decode_bytes b = utf8_dec True b")
  case True
  with assms(2) show ?thesis by (simp add: pres_utf8)
next
  case False
  with assms obtain r where r: "b = [0xEF, 0xBB, 0xBF] @ r" "utf8_dec True r = Some s"
    by (auto simp: reads_utf8_def starts_with_iff)
  have "pres M b d False False = pres M r d False False"
    unfolding r(1) by (rule pres_high) simp
  with pres_utf8 [OF r(2)] show ?thesis by simp
qed

lemma loads_no_recursion_error:
  assumes "reads_utf8 (map unat body)" "pres M (map unat body) 0 False False" "M \<le> int rl"
  shows "json_loads h pc rl body \<noteq> Inl RecursionError"
proof (cases "json_decode_bytes (map unat body)")
  case None
  then show ?thesis by (simp add: json_loads_def)
next
  case (Some s)
  then show ?thesis
    using decode_no_recursion_error [of M s rl h pc] assms pres_decoded [OF assms(1) Some, of M 0]
    by (simp add: json_loads_def)
qed

section \<open>On serialized JSON the scan measures container depth\<close>

lemma hex_digit_safe: "v < 16 \<Longrightarrow> hex_digit v \<noteq> 34 \<and> hex_digit v \<noteq> 92"
  by (auto simp: hex_digit_def)

lemma pres_escape_char: "pres M (escape_char c @ s) d True False = pres M s d True False"
proof (cases "c = 34 \<or> c = 92 \<or> c = 10 \<or> c = 13 \<or> c = 9 \<or> c = 12 \<or> c = 8")
  case True
  then show ?thesis by (auto simp: escape_char_def)
next
  case False
  show ?thesis
  proof (cases "c < 32")
    case True
    with False hex_digit_safe [of "c div 16"] hex_digit_safe [of "c mod 16"] show ?thesis
      by (simp add: escape_char_def)
  qed (use False in \<open>simp add: escape_char_def\<close>)
qed

lemma pres_string_text: "pres M (string_text s @ r) d False False = pres M r d False False"
proof -
  have "pres M (concat (map escape_char s) @ 34 # r) d True False = pres M r d False False"
    by (induction s) (simp_all add: pres_escape_char)
  then show ?thesis by (simp add: string_text_def)
qed

lemma neutral_int_text: "list_all neutral (int_text i)"
  using nat_text_digits neutral_digit by (auto simp: int_text_def list_all_iff)

definition float_text_ok :: "(pyfloat \<Rightarrow> ustr) \<Rightarrow> bool" where
  "float_text_ok fr \<longleftrightarrow> (\<forall>f. list_all neutral (fr f))"

text \<open>The member list of an object, and the element list of an array, one by one.\<close>

lemma pres_join:
  assumes "\<And>x r. x \<in> set xs \<Longrightarrow> pres M (t x @ r) d False False \<longleftrightarrow> P x \<and> pres M r d False False"
  shows "pres M (join_with [44] (map t xs) @ r) d False False
           \<longleftrightarrow> (\<forall>x \<in> set xs. P x) \<and> pres M r d False False"
  using assms
proof (induction xs)
  case (Cons x xs)
  then show ?case by (cases xs) auto
qed simp

lemma pres_json_text:
  assumes fr: "float_text_ok fr" and d: "d \<le> M"
  shows "pres M (json_text fr v @ r) d False False
     \<longleftrightarrow> d + int (container_depth v) \<le> M \<and> pres M r d False False"
  using d
proof (induction v arbitrary: d r)
  case (PFloat f)
  with fr show ?case by (simp add: float_text_ok_def pres_neutral)
next
  case (PArr m xs)
  show ?case
  proof (cases "d + 1 \<le> M")
    case True
    have "pres M (join_with [44] (map (json_text fr) xs) @ 93 # r) (d + 1) False False
        \<longleftrightarrow> (\<forall>x \<in> set xs. d + 1 + int (container_depth x) \<le> M) \<and> pres M (93 # r) (d + 1) False False"
      using PArr.IH True by (intro pres_join) auto
    moreover have "(\<forall>x \<in> set xs. d + 1 + int (container_depth x) \<le> M)
        \<longleftrightarrow> d + int (container_depth (PArr m xs)) \<le> M"
      using foldr_max_le_iff [of "map container_depth xs" "nat (M - d - 1)"] True by (auto simp: algebra_simps)
    ultimately show ?thesis using True by simp
  qed simp
next
  case (PObj m kvs)
  show ?case
  proof (cases "d + 1 \<le> M")
    case True
    let ?ks = "sort_key fst kvs"
    have "pres M (member_text fr w @ s) (d + 1) False False
        \<longleftrightarrow> d + 1 + int (container_depth (snd w)) \<le> M \<and> pres M s (d + 1) False False"
      if "w \<in> set ?ks" for w s
    proof -
      have "pres M (json_text fr (snd w) @ s) (d + 1) False False
          \<longleftrightarrow> d + 1 + int (container_depth (snd w)) \<le> M \<and> pres M s (d + 1) False False"
        using PObj.IH [of w "snd w" "d + 1" s] that True by (cases w) auto
      then show ?thesis by (cases w) (simp add: member_text_def pres_string_text)
    qed
    then have "pres M (join_with [44] (map (member_text fr) ?ks) @ 125 # r) (d + 1) False False
        \<longleftrightarrow> (\<forall>w \<in> set ?ks. d + 1 + int (container_depth (snd w)) \<le> M) \<and> pres M (125 # r) (d + 1) False False"
      by (intro pres_join)
    moreover have "(\<forall>w \<in> set ?ks. d + 1 + int (container_depth (snd w)) \<le> M)
        \<longleftrightarrow> d + int (container_depth (PObj m kvs)) \<le> M"
      using foldr_max_le_iff [of "map snd (map (map_prod id container_depth) kvs)" "nat (M - d - 1)"] True
      by (auto simp: algebra_simps)
    ultimately show ?thesis using True by (simp add: json_text_obj del: json_text.simps)
  next
    case False
    then show ?thesis by (simp add: json_text_obj del: json_text.simps)
  qed
qed (simp_all add: pres_neutral neutral_int_text neutral_literals pres_string_text)

end
