(* ===== verification/Protocol_Guard.thy ===== *)
theory Protocol_Guard
  imports Prescan
begin

text \<open>
  \<open>gateway/protocol.py\<close>: parsing with duplicate-key detection, the structural limits, the
  JSON-RPC envelope, the mirrored metadata and the canonical request. The comparison of
  headers with bodies is the SDK's (\<open>mcp.shared.inbound\<close>); its functions and constants are
  the fields of the record \<open>sdk\<close>.
\<close>

section \<open>The SDK\<close>

record sdk =
  sdk_version_header :: ustr
  sdk_method_header :: ustr
  sdk_name_header :: ustr
  sdk_param_header_prefix :: ustr
  sdk_name_bearing_methods :: "(ustr \<times> ustr) list"
  sdk_HEADER_MISMATCH :: int
  sdk_INVALID_PARAMS :: int
  sdk_UNSUPPORTED_PROTOCOL_VERSION :: int
  sdk_classify_inbound_request ::
    "pyval \<Rightarrow> (ustr \<times> ustr) list \<Rightarrow> ustr list \<Rightarrow> (int \<times> ustr) + ustr"
  sdk_decode_header_value :: "ustr \<Rightarrow> ustr option"
  sdk_find_duplicated_routing_header :: "(ustr \<times> ustr) list \<Rightarrow> ustr option"
  sdk_validate_param_headers :: "pyval \<Rightarrow> pyval \<Rightarrow> (ustr \<times> ustr) list \<Rightarrow> ustr option"

section \<open>Parsing\<close>

fun reject_duplicate_keys :: "ustr list \<Rightarrow> (ustr \<times> pyval) list \<Rightarrow> unit result" where
  "reject_duplicate_keys seen [] = Inr ()"
| "reject_duplicate_keys seen ((k, v) # pairs) =
     (if k \<in> set seen then Inl (proto_deny PROTO_DUPLICATE_FIELD)
      else reject_duplicate_keys (k # seen) pairs)"

definition object_pairs_hook :: "(ustr \<times> pyval) list \<Rightarrow> pyval result" where
  "object_pairs_hook pairs =
     mapR (\<lambda>_. PObj Mut (dict_of pairs)) (reject_duplicate_keys [] pairs)"

definition reject_constant :: "string \<Rightarrow> pyval result" where
  "reject_constant name = Inl (proto_deny PROTO_JSON_INVALID)"

definition parse :: "pyenv \<Rightarrow> bytes \<Rightarrow> pyval result" where
  "parse env body =
     (case json_loads object_pairs_hook reject_constant (recursion_limit env) body of
        Inl UnicodeDecodeError \<Rightarrow> Inl (proto_deny PROTO_JSON_INVALID)
      | Inl JSONDecodeError \<Rightarrow> Inl (proto_deny PROTO_JSON_INVALID)
      | Inl IntTooLong \<Rightarrow> Inl (proto_deny PROTO_JSON_INVALID)
      | Inl RecursionError \<Rightarrow> Inl (PyError ''RecursionError'')
      | Inl (Hook e) \<Rightarrow> Inl e
      | Inl OutOfFuel \<Rightarrow> Inl (PyError ''OutOfFuel'')
      | Inr decoded \<Rightarrow>
          if is_dict decoded then Inr decoded else Inl (proto_deny PROTO_JSONRPC_INVALID))"

section \<open>Structural limits\<close>

text \<open>The number of nodes, the measure of the walk.\<close>

primrec nodes :: "pyval \<Rightarrow> nat" where
  "nodes PNone = 1"
| "nodes (PBool b) = 1"
| "nodes (PInt i) = 1"
| "nodes (PFloat f) = 1"
| "nodes (PStr s) = 1"
| "nodes (PArr m xs) = Suc (sum_list (map nodes xs))"
| "nodes (PObj m kvs) = Suc (sum_list (map snd (map (map_prod id nodes) kvs)))"

lemma nodes_pos: "0 < nodes v"
  by (cases v) simp_all

text \<open>The walk: an explicit stack, the last item pushed is the next one popped.\<close>

function limits_loop :: "'a structural_limits_scheme \<Rightarrow> exc \<Rightarrow> int \<Rightarrow> (pyval \<times> int) list \<Rightarrow> unit result" where
  "limits_loop cfg e n [] = Inr ()"
| "limits_loop cfg e n ((node, depth) # stack) =
     (case node of
        PObj m kvs \<Rightarrow>
          if lim_max_depth cfg < depth then Inl e
          else if lim_max_object_keys cfg < int (length kvs) then Inl e
          else if lim_max_total_fields cfg < n + int (length kvs) then Inl e
          else if list_ex (\<lambda>(k, v). lim_max_string_length cfg < int (length k)) kvs then Inl e
          else limits_loop cfg e (n + int (length kvs))
                 (rev (map (\<lambda>(k, v). (v, depth + 1)) kvs) @ stack)
      | PArr Mut xs \<Rightarrow>
          if lim_max_depth cfg < depth then Inl e
          else if lim_max_array_length cfg < int (length xs) then Inl e
          else limits_loop cfg e n (rev (map (\<lambda>x. (x, depth + 1)) xs) @ stack)
      | PStr s \<Rightarrow>
          if lim_max_string_length cfg < int (length s) then Inl e
          else limits_loop cfg e n stack
      | _ \<Rightarrow> limits_loop cfg e n stack)"
  by pat_completeness auto
termination
  by (relation "measure (\<lambda>(cfg, e, n, stack). sum_list (map (nodes \<circ> fst) stack))")
    (simp_all add: nodes_pos rev_map [symmetric] comp_def case_prod_unfold)

definition check_limits :: "pyval \<Rightarrow> 'a structural_limits_scheme \<Rightarrow> reason_code \<Rightarrow> unit result" where
  "check_limits body cfg code = limits_loop cfg (proto_deny code) 0 [(body, 1)]"

section \<open>The envelope\<close>

definition check_envelope :: "pyval \<Rightarrow> (ustr \<times> rpc_id) result" where
  "check_envelope body =
     (let bad = Inl (proto_deny PROTO_JSONRPC_INVALID) in
      if obj_get body (u ''jsonrpc'') \<noteq> PStr (u ''2.0'') then bad
      else case obj_get body (u ''method'') of
        PStr method \<Rightarrow>
          if method = [] then bad
          else if \<not> obj_has body (u ''id'') then bad
          else (let params = obj_get body (u ''params'');
                    ok = params = PNone \<or> is_mapping params in
            case obj_get body (u ''id'') of
              PStr s \<Rightarrow> if ok then Inr (method, Id_str s) else bad
            | PInt i \<Rightarrow> if ok then Inr (method, Id_int i) else bad
            | _ \<Rightarrow> bad)
      | _ \<Rightarrow> bad)"

section \<open>Mirrored metadata\<close>

definition SENTINEL_PREFIX :: ustr where
  "SENTINEL_PREFIX = u ''=?base64?''"

definition param_prefix :: "sdk \<Rightarrow> ustr" where
  "param_prefix s = lower (sdk_param_header_prefix s)"

definition presence_rules :: "sdk \<Rightarrow> ustr \<Rightarrow> (ustr \<times> bool) list" where
  "presence_rules s method =
     [(sdk_version_header s, True), (sdk_method_header s, True),
      (sdk_name_header s, dict_has (sdk_name_bearing_methods s) method)]"

definition check_header :: "sdk \<Rightarrow> (ustr \<times> ustr) list \<Rightarrow> ustr \<times> bool \<Rightarrow> unit result" where
  "check_header s headers rule =
     (case rule of (name, required) \<Rightarrow>
        (case dict_get headers name of
           None \<Rightarrow> if required then Inl (proto_deny PROTO_METADATA_MISSING) else Inr ()
         | Some value \<Rightarrow>
             if \<not> required then Inl (proto_deny PROTO_METADATA_UNEXPECTED)
             else if value = [] then Inl (proto_deny PROTO_METADATA_INVALID)
             else if value \<noteq> strip value \<or> list_ex (\<lambda>c. c < 0x20 \<or> c = 0x7F) value
               then Inl (proto_deny PROTO_METADATA_INVALID)
             else if starts_with SENTINEL_PREFIX value \<and> sdk_decode_header_value s value = None
               then Inl (proto_deny PROTO_METADATA_INVALID)
             else Inr ()))"

definition check_metadata_shape :: "sdk \<Rightarrow> (ustr \<times> ustr) list \<Rightarrow> ustr \<Rightarrow> unit result" where
  "check_metadata_shape s headers method =
     (let rules = presence_rules s method;
          rules' = (if dict_get headers (sdk_method_header s) \<noteq> Some method
                    then filter (\<lambda>(n, r). n \<noteq> sdk_name_header s) rules else rules)
      in forR (check_header s headers) rules')"

fun find_dup_param :: "ustr \<Rightarrow> ustr list \<Rightarrow> (ustr \<times> ustr) list \<Rightarrow> ustr option" where
  "find_dup_param prefix seen [] = None"
| "find_dup_param prefix seen ((name, v) # md) =
     (let key = lower name in
      if \<not> starts_with prefix key then find_dup_param prefix seen md
      else if key \<in> set seen then Some key
      else find_dup_param prefix (key # seen) md)"

definition find_duplicated_param_header :: "sdk \<Rightarrow> (ustr \<times> ustr) list \<Rightarrow> ustr option" where
  "find_duplicated_param_header s md = find_dup_param (param_prefix s) [] md"

text \<open>\<open>find_duplicated_routing_header(md) or find_duplicated_param_header(md)\<close>.\<close>

definition duplicated_header :: "sdk \<Rightarrow> (ustr \<times> ustr) list \<Rightarrow> ustr option" where
  "duplicated_header s md =
     (case sdk_find_duplicated_routing_header s md of
        Some (c # h) \<Rightarrow> Some (c # h)
      | _ \<Rightarrow> find_duplicated_param_header s md)"

definition mismatch_by_header :: "sdk \<Rightarrow> (ustr \<times> reason_code) list" where
  "mismatch_by_header s =
     [(sdk_version_header s, PROTO_VERSION_MISMATCH),
      (sdk_method_header s, PROTO_HEADER_BODY_METHOD_MISMATCH),
      (sdk_name_header s, PROTO_HEADER_BODY_NAME_MISMATCH)]"

definition ladder_reason :: "sdk \<Rightarrow> int \<times> ustr \<Rightarrow> reason_code" where
  "ladder_reason s rejection =
     (case rejection of (code, message) \<Rightarrow>
        if code = sdk_HEADER_MISMATCH s then
          (case find (\<lambda>(h, c). contains_sub h message) (mismatch_by_header s) of
             Some (h, c) \<Rightarrow> c | None \<Rightarrow> PROTO_METADATA_INVALID)
        else if code = sdk_UNSUPPORTED_PROTOCOL_VERSION s then PROTO_VERSION_UNSUPPORTED
        else if code = sdk_INVALID_PARAMS s then PROTO_METADATA_MISSING
        else PROTO_JSONRPC_INVALID)"

definition run_ladder :: "sdk \<Rightarrow> pyval \<Rightarrow> (ustr \<times> ustr) list \<Rightarrow> protocol_config \<Rightarrow> ustr result" where
  "run_ladder s body headers cfg =
     (case sdk_classify_inbound_request s body headers (prt_supported_versions cfg) of
        Inl rejection \<Rightarrow> Inl (proto_deny (ladder_reason s rejection))
      | Inr version \<Rightarrow> Inr version)"

definition check_param_headers :: "sdk \<Rightarrow> pyval \<Rightarrow> pyval \<Rightarrow> (ustr \<times> ustr) list \<Rightarrow> unit result" where
  "check_param_headers s schema arguments headers =
     raise_if (sdk_validate_param_headers s schema arguments headers \<noteq> None)
       (proto_deny PROTO_HEADER_BODY_PARAM_MISMATCH)"

section \<open>Allowlist, mid-request input, and the request\<close>

definition check_method_allowed :: "ustr \<Rightarrow> protocol_config \<Rightarrow> unit result" where
  "check_method_allowed method cfg =
     raise_if (method \<notin> set (prt_allowed_methods cfg)) (proto_deny PROTO_METHOD_NOT_ALLOWED)"

definition check_mrtr :: "pyval \<Rightarrow> unit result" where
  "check_mrtr params =
     raise_if (obj_has params (u ''inputResponses'')) (proto_deny PROTO_MRTR_UNSUPPORTED)"

text \<open>\<open>params.get("arguments")\<close>: absent and null mean none, anything else must be an object.\<close>

definition supplied_arguments :: "pyval \<Rightarrow> pyval result" where
  "supplied_arguments params =
     (let supplied = obj_get params (u ''arguments'') in
      if supplied = PNone then Inr (PObj Mut [])
      else if is_mapping supplied then Inr supplied
      else Inl (proto_deny PROTO_JSONRPC_INVALID))"

definition body_params :: "pyval \<Rightarrow> pyval" where
  "body_params body =
     (let p = obj_get body (u ''params'') in if p = PNone then PObj Mut [] else p)"

definition request_tool_name :: "sdk \<Rightarrow> ustr \<Rightarrow> pyval \<Rightarrow> ustr option" where
  "request_tool_name s method params =
     (case dict_get (sdk_name_bearing_methods s) method of
        None \<Rightarrow> None
      | Some key \<Rightarrow> (case obj_get params key of PStr n \<Rightarrow> Some n | _ \<Rightarrow> None))"

text \<open>\<open>took_ns\<close> is the time the checks took, read off the performance counter.\<close>

definition validate :: "pyenv \<Rightarrow> sdk \<Rightarrow> int \<Rightarrow> raw_envelope \<Rightarrow> protocol_config \<Rightarrow> canonical_request result" where
  "validate env s took_ns raw cfg =
     bindR (prescan (raw_body raw) cfg) (\<lambda>_.
     bindR (parse env (raw_body raw)) (\<lambda>body.
     bindR (check_limits body cfg PROTO_LIMIT_EXCEEDED) (\<lambda>_.
     bindR (check_envelope body) (\<lambda>(method, jsonrpc_id).
     bindR (raise_if (duplicated_header s (raw_metadata raw) \<noteq> None)
              (proto_deny PROTO_METADATA_DUPLICATE)) (\<lambda>_.
     let headers = dict_of (raw_metadata raw) in
     bindR (check_metadata_shape s headers method) (\<lambda>_.
     bindR (run_ladder s body headers cfg) (\<lambda>protocol_version.
     bindR (check_method_allowed method cfg) (\<lambda>_.
     let params = body_params body in
     bindR (check_mrtr params) (\<lambda>_.
     bindR (raise_if (prt_parse_budget_ms cfg * 1000000 < took_ns)
              (proto_deny PROTO_LIMIT_EXCEEDED)) (\<lambda>_.
     bindR (supplied_arguments params) (\<lambda>arguments.
     Inr (CanonicalRequest (raw_request_id raw) protocol_version method jsonrpc_id
            (request_tool_name s method params) arguments (sha256_hex env (raw_body raw))
            (filter (\<lambda>(k, v). starts_with (param_prefix s) k) headers)))))))))))))"

definition audit_fields :: "canonical_request \<Rightarrow> (ustr \<times> pyval) list" where
  "audit_fields req =
     [(u ''mcp_method'', PStr (req_method req)),
      (u ''mcp_protocol_version'', PStr (req_protocol_version req)),
      (u ''body_hash'', PStr (req_body_hash req)),
      (u ''tool_name'', case req_tool_name req of None \<Rightarrow> PNone | Some n \<Rightarrow> PStr n)]"

section \<open>The structural limits, declaratively\<close>

primrec shape_ok :: "'a structural_limits_scheme \<Rightarrow> pyval \<Rightarrow> bool" where
  "shape_ok cfg PNone \<longleftrightarrow> True"
| "shape_ok cfg (PBool b) \<longleftrightarrow> True"
| "shape_ok cfg (PInt i) \<longleftrightarrow> True"
| "shape_ok cfg (PFloat f) \<longleftrightarrow> True"
| "shape_ok cfg (PStr s) \<longleftrightarrow> int (length s) \<le> lim_max_string_length cfg"
| "shape_ok cfg (PArr m xs) \<longleftrightarrow>
     int (length xs) \<le> lim_max_array_length cfg \<and> list_all id (map (shape_ok cfg) xs)"
| "shape_ok cfg (PObj m kvs) \<longleftrightarrow>
     int (length kvs) \<le> lim_max_object_keys cfg
     \<and> list_all (\<lambda>(k, v). int (length k) \<le> lim_max_string_length cfg) kvs
     \<and> list_all snd (map (map_prod id (shape_ok cfg)) kvs)"

definition within_limits :: "'a structural_limits_scheme \<Rightarrow> pyval \<Rightarrow> bool" where
  "within_limits cfg v \<longleftrightarrow>
     int (container_depth v) \<le> lim_max_depth cfg
     \<and> int (total_fields v) \<le> lim_max_total_fields cfg
     \<and> shape_ok cfg v"

text \<open>What is still owed for the values on the stack.\<close>

definition depth_ok :: "int \<Rightarrow> pyval \<times> int \<Rightarrow> bool" where
  "depth_ok M vd = (case vd of (v, d) \<Rightarrow> container_depth v = 0 \<or> d - 1 + int (container_depth v) \<le> M)"

definition pending :: "'a structural_limits_scheme \<Rightarrow> int \<Rightarrow> (pyval \<times> int) list \<Rightarrow> bool" where
  "pending cfg n stack \<longleftrightarrow>
     list_all (\<lambda>vd. depth_ok (lim_max_depth cfg) vd \<and> shape_ok cfg (fst vd)) stack
     \<and> n + int (sum_list (map (total_fields \<circ> fst) stack)) \<le> lim_max_total_fields cfg"

lemma depth_ok_arr:
  "depth_ok M (PArr m xs, d) \<longleftrightarrow> d \<le> M \<and> list_all (\<lambda>x. depth_ok M (x, d + 1)) xs"
  using foldr_max_le_iff [of "map container_depth xs" "nat (M - d)"]
  by (cases "d \<le> M") (auto simp: depth_ok_def list_all_iff algebra_simps)

lemma depth_ok_obj:
  "depth_ok M (PObj m kvs, d) \<longleftrightarrow> d \<le> M \<and> list_all (\<lambda>(k, x). depth_ok M (x, d + 1)) kvs"
  using foldr_max_le_iff [of "map snd (map (map_prod id container_depth) kvs)" "nat (M - d)"]
  by (cases "d \<le> M") (auto simp: depth_ok_def list_all_iff algebra_simps split: prod.splits)

lemma list_ex_long_key:
  "list_ex (\<lambda>(k, v). m < int (length k)) kvs \<longleftrightarrow> \<not> list_all (\<lambda>(k, v). int (length k) \<le> m) kvs"
  by (induction kvs) auto

lemma pending_Nil [simp]: "pending cfg n [] \<longleftrightarrow> n \<le> lim_max_total_fields cfg"
  by (simp add: pending_def)

lemma pending_arr:
  "pending cfg n ((PArr m xs, d) # stack) \<longleftrightarrow>
     d \<le> lim_max_depth cfg \<and> int (length xs) \<le> lim_max_array_length cfg
     \<and> pending cfg n (rev (map (\<lambda>x. (x, d + 1)) xs) @ stack)"
  by (simp add: pending_def depth_ok_arr list_all_iff rev_map [symmetric] comp_def ball_Un ball_conj_distrib)
    blast

lemma pending_obj:
  "pending cfg n ((PObj m kvs, d) # stack) \<longleftrightarrow>
     d \<le> lim_max_depth cfg \<and> int (length kvs) \<le> lim_max_object_keys cfg
     \<and> list_all (\<lambda>(k, v). int (length k) \<le> lim_max_string_length cfg) kvs
     \<and> pending cfg (n + int (length kvs)) (rev (map (\<lambda>(k, v). (v, d + 1)) kvs) @ stack)"
  by (simp add: pending_def depth_ok_obj list_all_iff rev_map [symmetric] comp_def case_prod_unfold
      algebra_simps ball_Un ball_conj_distrib) blast

lemma pending_le: "pending cfg n stack \<Longrightarrow> n \<le> lim_max_total_fields cfg"
  by (auto simp: pending_def)

lemma limits_loop_Inr_iff:
  "list_all (\<lambda>(v, d). all_mut Mut v) stack \<Longrightarrow> n \<le> lim_max_total_fields cfg
    \<Longrightarrow> limits_loop cfg e n stack = Inr () \<longleftrightarrow> pending cfg n stack"
proof (induction cfg e n stack rule: limits_loop.induct)
  case (1 cfg e n)
  then show ?case by simp
next
  case (2 cfg e n node d stack)
  show ?case
  proof (cases node)
    case (PArr m xs)
    with "2.prems"(1) have m: "m = Mut" and xs: "list_all (\<lambda>(v, d). all_mut Mut v) (rev (map (\<lambda>x. (x, d + 1)) xs) @ stack)"
      by (auto simp: list_all_iff)
    show ?thesis
      using "2.IH"(6) [OF PArr m _ _ xs "2.prems"(2)] unfolding PArr m pending_arr
      by auto
  next
    case (PObj m kvs)
    with "2.prems"(1) have xs: "list_all (\<lambda>(v, d). all_mut Mut v) (rev (map (\<lambda>(k, x). (x, d + 1)) kvs) @ stack)"
      by (auto simp: list_all_iff)
    show ?thesis
      using "2.IH"(8) [OF PObj _ _ _ _ xs] pending_le [of cfg "n + int (length kvs)"]
      unfolding PObj pending_obj
      by (auto simp: list_ex_long_key)
  next
    case (PStr s)
    with 2 show ?thesis by (auto simp: pending_def depth_ok_def)
  qed (use 2 in \<open>simp_all add: pending_def depth_ok_def\<close>)
qed

lemma limits_loop_error: "limits_loop cfg e n stack = Inl e' \<Longrightarrow> e' = e"
proof (induction cfg e n stack rule: limits_loop.induct)
  case (2 cfg e n node d stack)
  then show ?case by (cases node; cases "hd [Mut]") (auto split: if_splits mutability.splits)
qed simp

lemma check_limits_error: "check_limits v cfg code = Inl e \<Longrightarrow> e = proto_deny code"
  unfolding check_limits_def by (rule limits_loop_error)

lemma check_limits_Inr_iff:
  assumes "all_mut Mut v" "is_mapping v \<or> is_list v" "0 \<le> lim_max_total_fields cfg"
  shows "check_limits v cfg code = Inr () \<longleftrightarrow> within_limits cfg v"
proof -
  have "0 < container_depth v"
    using assms(2) by (cases v) (auto simp: is_mapping_def is_list_def)
  then have "pending cfg 0 [(v, 1)] \<longleftrightarrow> within_limits cfg v"
    by (auto simp: pending_def within_limits_def depth_ok_def)
  with assms show ?thesis
    unfolding check_limits_def by (subst limits_loop_Inr_iff) simp_all
qed

section \<open>What the parser returns\<close>

text \<open>A property of values that the atoms have and the two container constructors keep.\<close>

lemma scan_invariant:
  fixes h :: "(ustr \<times> pyval) list \<Rightarrow> 'e + pyval"
  assumes hook: "\<And>kvs v. h kvs = Inr v \<Longrightarrow> (\<forall>(k, x) \<in> set kvs. Q x) \<Longrightarrow> Q v"
    and arr: "\<And>xs. (\<forall>x \<in> set xs. Q x) \<Longrightarrow> Q (PArr Mut xs)"
    and str: "\<And>s. Q (PStr s)"
    and atom: "\<And>s v r. (scan_atom pc s :: 'e jexc + (pyval \<times> ustr)) = Inr (v, r) \<Longrightarrow> Q v"
  shows "scan_once h pc rl n d s = Inr (v, r) \<Longrightarrow> Q v"
    and "scan_items h pc rl n d s = Inr (vs, r) \<Longrightarrow> \<forall>x \<in> set vs. Q x"
    and "scan_members h pc rl n d s = Inr (kvs, r) \<Longrightarrow> \<forall>(k, x) \<in> set kvs. Q x"
proof (induction n arbitrary: s d v vs kvs r)
  case 0
  {
    case 1 then show ?case by (simp add: scan_once.simps)
  next
    case 2 then show ?case by (simp add: scan_items.simps)
  next
    case 3 then show ?case by (simp add: scan_members.simps)
  }
next
  case (Suc n)
  {
    case 1
    have obj: "Q v" if "(run_hook (h kvs)) = Inr v" "\<forall>(k, x) \<in> set kvs. Q x" for kvs v
      using that hook by (auto simp: run_hook_iff)
    show ?case
    proof (cases s)
      case Nil
      with 1 show ?thesis by (simp add: scan_once.simps)
    next
      case (Cons x t)
      consider "x = 34" | "x = 123" | "x = 91" | "x \<noteq> 34" "x \<noteq> 123" "x \<noteq> 91" by blast
      then show ?thesis
      proof cases
        case q: 1
        with 1 Cons str show ?thesis by (auto simp: scan_once.simps mapR_Inr_iff map_prod_def split: prod.splits)
      next
        case q: 2
        with 1 Cons show ?thesis
          by (auto simp: scan_once.simps mapR_Inr_iff bindR_Inr_iff split: if_splits
              intro: obj dest: Suc.IH(3))
      next
        case q: 3
        with 1 Cons show ?thesis
          by (auto simp: scan_once.simps mapR_Inr_iff map_prod_def split: if_splits prod.splits
              intro!: arr dest: Suc.IH(2))
      next
        case q: 4
        with 1 Cons atom show ?thesis by (auto simp: scan_once.simps)
      qed
    qed
  next
    case 2
    then show ?case
      by (fastforce simp: scan_items.simps bindR_Inr_iff mapR_Inr_iff map_prod_def split: if_splits prod.splits
          dest: Suc.IH(1,2))
  next
    case 3
    then show ?case
      by (fastforce simp: scan_members.simps bindR_Inr_iff mapR_Inr_iff map_prod_def split: if_splits prod.splits
          dest: Suc.IH(1,3))
  }
qed

definition plain_value :: "pyval \<Rightarrow> bool" where
  "plain_value v \<longleftrightarrow> all_mut Mut v \<and> keys_distinct v"

lemma reject_duplicate_keys_Inr_iff:
  "reject_duplicate_keys seen ps = Inr () \<longleftrightarrow> distinct_keys ps \<and> set seen \<inter> set (map fst ps) = {}"
  by (induction seen ps rule: reject_duplicate_keys.induct) auto

lemma object_pairs_hook_Inr_iff:
  "object_pairs_hook ps = Inr v \<longleftrightarrow> distinct_keys ps \<and> v = PObj Mut ps"
  by (auto simp: object_pairs_hook_def mapR_Inr_iff reject_duplicate_keys_Inr_iff dict_of_distinct)

lemma scan_number_atomic: "scan_number s = Inr (v, r) \<Longrightarrow> plain_value v"
  by (auto simp: scan_number_def Let_def plain_value_def split: option.splits prod.splits if_splits)

text \<open>A hook error is one of the hooks' own: both only raise protocol denials.\<close>

lemma hook_errors:
  "object_pairs_hook ps = Inl e \<Longrightarrow> \<exists>c. e = proto_deny c"
  "reject_constant name = Inl e \<Longrightarrow> \<exists>c. e = proto_deny c"
proof -
  have "reject_duplicate_keys seen ps = Inl e \<Longrightarrow> \<exists>c. e = proto_deny c" for seen
    by (induction seen ps rule: reject_duplicate_keys.induct) (auto split: if_splits)
  then show "object_pairs_hook ps = Inl e \<Longrightarrow> \<exists>c. e = proto_deny c"
    by (auto simp: object_pairs_hook_def mapR_Inl_iff)
  show "reject_constant name = Inl e \<Longrightarrow> \<exists>c. e = proto_deny c"
    by (auto simp: reject_constant_def)
qed

lemma scan_hook_errors:
  fixes h :: "(ustr \<times> pyval) list \<Rightarrow> 'e + pyval"
  assumes h: "\<And>ps e. h ps = Inl e \<Longrightarrow> P e" and pc: "\<And>n e. pc n = Inl e \<Longrightarrow> P e"
  shows "scan_once h pc rl n d s = Inl (Hook e) \<Longrightarrow> P e"
    and "scan_items h pc rl n d s = Inl (Hook e) \<Longrightarrow> P e"
    and "scan_members h pc rl n d s = Inl (Hook e) \<Longrightarrow> P e"
proof (induction n arbitrary: s d)
  case 0
  {
    case 1 then show ?case by (simp add: scan_once.simps)
  next
    case 2 then show ?case by (simp add: scan_items.simps)
  next
    case 3 then show ?case by (simp add: scan_members.simps)
  }
next
  case (Suc n)
  note str = scan_string_error [of _ "Hook e"]
  note num = scan_number_error [of _ "Hook e"]
  {
    case 1
    then show ?case
      by (auto simp: scan_once.simps bindR_Inl_iff mapR_Inl_iff run_hook_iff scan_atom_def special_const_def
          split: list.splits if_splits dest: str num expect_Inl h pc Suc.IH(2,3))
  next
    case 2
    then show ?case
      by (auto simp: scan_items.simps bindR_Inl_iff mapR_Inl_iff split: if_splits
          dest: Suc.IH(1,2) expect_Inl)
  next
    case 3
    then show ?case
      by (auto simp: scan_members.simps bindR_Inl_iff mapR_Inl_iff split: if_splits
          dest: Suc.IH(1,3) expect_Inl str)
  }
qed

lemma json_loads_hook_errors:
  assumes "json_loads object_pairs_hook reject_constant rl body = Inl (Hook e)"
  shows "\<exists>c. e = proto_deny c"
proof -
  obtain s n where "scan_once object_pairs_hook reject_constant rl n 0 s = Inl (Hook e)"
    using assms by (auto simp: json_loads_def json_decode_def bindR_Inl_iff split: option.splits if_splits)
  then show ?thesis by (rule scan_hook_errors(1) [rotated 2]) (auto dest: hook_errors)
qed

lemma json_loads_plain:
  assumes "json_loads object_pairs_hook reject_constant rl body = Inr v"
  shows "plain_value v"
proof -
  obtain s r n where "scan_once object_pairs_hook reject_constant rl n 0 s = Inr (v, r)"
    using assms by (auto simp: json_loads_def json_decode_def bindR_Inr_iff split: option.splits if_splits)
  then show ?thesis
  proof (rule scan_invariant(1) [where Q = plain_value, rotated 4])
    fix s v r
    assume "(scan_atom reject_constant s :: exc jexc + (pyval \<times> ustr)) = Inr (v, r)"
    then show "plain_value v"
      by (auto simp: scan_atom_def special_const_def reject_constant_def mapR_Inr_iff plain_value_def
          dest: scan_number_atomic split: if_splits)
  qed (auto simp: object_pairs_hook_Inr_iff plain_value_def list_all_iff)
qed

lemma parse_Inr_iff:
  "parse env body = Inr v \<longleftrightarrow>
     json_loads object_pairs_hook reject_constant (recursion_limit env) body = Inr v \<and> is_dict v"
  by (auto simp: parse_def split: sum.splits jexc.splits if_splits)

lemma parse_plain: "parse env body = Inr v \<Longrightarrow> plain_value v \<and> is_dict v"
  by (auto simp: parse_Inr_iff dest: json_loads_plain)

lemma is_dict_mapping: "is_dict v \<Longrightarrow> is_mapping v"
  by (cases v) (auto simp: is_dict_def is_mapping_def)

section \<open>What a validated request is\<close>

lemma check_envelope_Inr_iff:
  "check_envelope body = Inr (method, rid) \<longleftrightarrow>
     obj_get body (u ''jsonrpc'') = PStr (u ''2.0'')
     \<and> obj_get body (u ''method'') = PStr method \<and> method \<noteq> []
     \<and> obj_has body (u ''id'')
     \<and> (case rid of Id_str s \<Rightarrow> obj_get body (u ''id'') = PStr s
                   | Id_int i \<Rightarrow> obj_get body (u ''id'') = PInt i | Id_null \<Rightarrow> False)
     \<and> (obj_get body (u ''params'') = PNone \<or> is_mapping (obj_get body (u ''params'')))"
  by (auto simp: check_envelope_def Let_def split: pyval.splits rpc_id.splits if_splits)

lemma check_envelope_error: "check_envelope body = Inl e \<Longrightarrow> e = proto_deny PROTO_JSONRPC_INVALID"
  by (auto simp: check_envelope_def Let_def split: pyval.splits if_splits)

lemma check_header_error: "check_header s headers rule = Inl e \<Longrightarrow> \<exists>c. e = proto_deny c"
  by (auto simp: check_header_def split: prod.splits option.splits if_splits)

lemma forR_Inl: "forR f xs = Inl e \<Longrightarrow> \<exists>x \<in> set xs. f x = Inl e"
  by (induction xs) (auto simp: bindR_Inl_iff)

lemma metadata_shape_error: "check_metadata_shape s headers m = Inl e \<Longrightarrow> \<exists>c. e = proto_deny c"
  by (auto simp: check_metadata_shape_def Let_def dest!: forR_Inl check_header_error split: if_splits)

text \<open>Every step after parsing raises protocol denials only.\<close>

lemma step_errors:
  "check_limits body cfg code = Inl e \<Longrightarrow> \<exists>c. e = proto_deny c"
  "check_envelope body = Inl e \<Longrightarrow> \<exists>c. e = proto_deny c"
  "raise_if b (proto_deny c) = Inl e \<Longrightarrow> \<exists>c. e = proto_deny c"
  "check_metadata_shape s headers m = Inl e \<Longrightarrow> \<exists>c. e = proto_deny c"
  "run_ladder s body headers pcfg = Inl e \<Longrightarrow> \<exists>c. e = proto_deny c"
  "check_method_allowed m pcfg = Inl e \<Longrightarrow> \<exists>c. e = proto_deny c"
  "check_mrtr params = Inl e \<Longrightarrow> \<exists>c. e = proto_deny c"
  "supplied_arguments params = Inl e \<Longrightarrow> \<exists>c. e = proto_deny c"
  by (auto dest: check_limits_error check_envelope_error metadata_shape_error
      simp: raise_if_Inl_iff run_ladder_def check_method_allowed_def check_mrtr_def
        supplied_arguments_def Let_def split: sum.splits if_splits)

text \<open>The checks of \<open>validate\<close> one by one, for a request that passed.\<close>

definition validated :: "pyenv \<Rightarrow> sdk \<Rightarrow> int \<Rightarrow> raw_envelope \<Rightarrow> protocol_config \<Rightarrow> pyval \<Rightarrow> canonical_request \<Rightarrow> bool" where
  "validated env s took raw cfg body req \<longleftrightarrow>
     prescan (raw_body raw) cfg = Inr ()
     \<and> parse env (raw_body raw) = Inr body
     \<and> check_limits body cfg PROTO_LIMIT_EXCEEDED = Inr ()
     \<and> check_envelope body = Inr (req_method req, req_jsonrpc_id req)
     \<and> duplicated_header s (raw_metadata raw) = None
     \<and> check_metadata_shape s (dict_of (raw_metadata raw)) (req_method req) = Inr ()
     \<and> run_ladder s body (dict_of (raw_metadata raw)) cfg = Inr (req_protocol_version req)
     \<and> req_method req \<in> set (prt_allowed_methods cfg)
     \<and> \<not> obj_has (body_params body) (u ''inputResponses'')
     \<and> took \<le> prt_parse_budget_ms cfg * 1000000
     \<and> (\<exists>arguments. supplied_arguments (body_params body) = Inr arguments
           \<and> req_arguments req = deep_freeze arguments)
     \<and> req_id req = raw_request_id raw
     \<and> req_tool_name req = request_tool_name s (req_method req) (body_params body)
     \<and> req_body_hash req = sha256_hex env (raw_body raw)
     \<and> req_param_headers req
         = filter (\<lambda>(k, v). starts_with (param_prefix s) k) (dict_of (raw_metadata raw))"

lemma validate_Inr_iff:
  "validate env s took raw cfg = Inr req \<longleftrightarrow> (\<exists>body. validated env s took raw cfg body req)"
  by (auto simp: validate_def validated_def Let_def bindR_Inr_iff raise_if_Inr_iff
      check_method_allowed_def check_mrtr_def CanonicalRequest_def
      intro!: canonical_request.equality)

lemma obj_get_plain:
  "plain_value v \<Longrightarrow> plain_value (obj_get v k)"
proof (cases v)
  case (PObj m kvs)
  assume p: "plain_value v"
  show ?thesis
  proof (cases "dict_get kvs k")
    case None
    then show ?thesis by (simp add: obj_get_def PObj plain_value_def)
  next
    case (Some x)
    from dict_get_in_set [OF Some] p Some show ?thesis
      by (force simp: obj_get_def PObj plain_value_def list_all_iff)
  qed
qed (simp_all add: obj_get_def items_def dict_get_def plain_value_def)

lemma body_params_plain: "plain_value body \<Longrightarrow> plain_value (body_params body)"
  using obj_get_plain [of body "u ''params''"] by (simp add: body_params_def Let_def plain_value_def)

lemma supplied_arguments_plain:
  assumes "supplied_arguments params = Inr a" "plain_value params"
  shows "plain_value a"
  using assms obj_get_plain [OF assms(2), of "u ''arguments''"]
  by (auto simp: supplied_arguments_def Let_def plain_value_def split: if_splits)

text \<open>
  C17: what stage 02 hands on describes the body and nothing else. A validated request comes
  from a body without duplicate keys, inside every structural limit, whose method is the
  request's and is allowed; its arguments are frozen all the way down and thaw to the body's
  own \<open>params.arguments\<close>; no header is duplicated; the body carries no input response.
\<close>

theorem validate_sound:
  assumes "validate env s took raw cfg = Inr req" and "0 \<le> lim_max_total_fields cfg"
  shows "\<exists>body. parse env (raw_body raw) = Inr body \<and> keys_distinct body \<and> within_limits cfg body
     \<and> obj_get body (u ''method'') = PStr (req_method req)
     \<and> req_method req \<in> set (prt_allowed_methods cfg)
     \<and> all_mut Frz (req_arguments req)
     \<and> supplied_arguments (body_params body) = Inr (thaw (req_arguments req))
     \<and> \<not> obj_has (body_params body) (u ''inputResponses'')
     \<and> duplicated_header s (raw_metadata raw) = None
     \<and> req_id req = raw_request_id raw
     \<and> req_body_hash req = sha256_hexdigest env (raw_body raw)"
proof -
  obtain body where v: "validated env s took raw cfg body req"
    using assms(1) by (auto simp: validate_Inr_iff)
  then have p: "plain_value body" and d: "is_dict body"
    using parse_plain by (auto simp: validated_def)
  from v obtain a where a: "supplied_arguments (body_params body) = Inr a"
    and f: "req_arguments req = deep_freeze a" by (auto simp: validated_def)
  have "plain_value a" by (rule supplied_arguments_plain [OF a body_params_plain [OF p]])
  then have "thaw (req_arguments req) = a"
    by (simp add: f thaw_deep_freeze thaw_plain plain_value_def)
  moreover have "within_limits cfg body"
    using v p d assms(2) check_limits_Inr_iff [of body cfg PROTO_LIMIT_EXCEEDED] is_dict_mapping
    by (auto simp: validated_def plain_value_def)
  moreover have "all_mut Frz (req_arguments req)" by (simp add: f deep_freeze_frozen)
  ultimately show ?thesis
    using v p a by (auto simp: validated_def plain_value_def sha256_hex_def check_envelope_Inr_iff)
qed

definition demo_sdk :: sdk where
  "demo_sdk = \<lparr> sdk_version_header = u ''mcp-protocol-version'', sdk_method_header = u ''mcp-method'',
     sdk_name_header = u ''mcp-name'', sdk_param_header_prefix = u ''Mcp-Param-'',
     sdk_name_bearing_methods = [(u ''tools/call'', u ''name'')],
     sdk_HEADER_MISMATCH = - 32020, sdk_INVALID_PARAMS = - 32602,
     sdk_UNSUPPORTED_PROTOCOL_VERSION = - 32022,
     sdk_classify_inbound_request = (\<lambda>body headers versions.
        case dict_get headers (u ''mcp-protocol-version'') of
          Some v \<Rightarrow> if v \<in> set versions then Inr v else Inl (- 32022, v)
        | None \<Rightarrow> Inl (- 32602, [])),
     sdk_decode_header_value = Some,
     sdk_find_duplicated_routing_header = (\<lambda>_. None),
     sdk_validate_param_headers = (\<lambda>_ _ _. None) \<rparr>"

definition demo_protocol :: protocol_config where
  "demo_protocol = \<lparr> lim_max_depth = 4, lim_max_object_keys = 8, lim_max_array_length = 8,
     lim_max_string_length = 64, lim_max_total_fields = 16,
     prt_supported_versions = [u ''v''], prt_allowed_methods = [u ''tools/list'', u ''tools/call''],
     prt_recognized_denied = [], prt_max_body_bytes = 1000, prt_parse_budget_ms = 100 \<rparr>"

definition demo_raw :: raw_envelope where
  "demo_raw = \<lparr> raw_request_id = u ''r'', raw_received_at_ns = 0,
     raw_body = map of_nat (u ''{\"jsonrpc\":\"2.0\",\"id\":1,\"method\":\"tools/list\"}''),
     raw_metadata = [(u ''mcp-protocol-version'', u ''v''), (u ''mcp-method'', u ''tools/list'')] \<rparr>"

definition demo_req :: canonical_request where
  "demo_req = \<lparr> req_id = u ''r'', req_protocol_version = u ''v'', req_method = u ''tools/list'',
     req_jsonrpc_id = Id_int 1, req_tool_name = None, req_arguments = PObj Frz [],
     req_body_hash = u ''{\"jsonrpc\":\"2.0\",\"id\":1,\"method\":\"tools/list\"}'',
     req_param_headers = [] \<rparr>"

lemma demo_validate: "validate plain_env demo_sdk 0 demo_raw demo_protocol = Inr demo_req"
  by code_simp

theorem validate_sound_witness:
  "keys_distinct (PObj Mut [(u ''jsonrpc'', PStr (u ''2.0'')), (u ''id'', PInt 1),
       (u ''method'', PStr (u ''tools/list''))])
   \<and> (\<exists>body. parse plain_env (raw_body demo_raw) = Inr body \<and> within_limits demo_protocol body
        \<and> obj_get body (u ''method'') = PStr (u ''tools/list''))"
  using validate_sound [OF demo_validate] by (auto simp: demo_protocol_def demo_req_def u_eq_iff)

text \<open>
  C18: stage 02 never fails with anything but a protocol denial on a UTF-8 body. When the
  nesting limit is below the interpreter's recursion limit, an error of \<open>validate\<close> is a
  \<open>ProtocolDenial\<close>: deep input cannot make the parser raise \<open>RecursionError\<close> (PROTO-013).
\<close>

theorem validate_denies_cleanly:
  assumes "reads_utf8 (map unat (raw_body raw))"
    and "lim_max_depth cfg \<le> int (recursion_limit env)"
    and "validate env s took raw cfg = Inl e"
  shows "\<exists>c. e = Denial PROTOCOL c"
proof (cases "prescan (raw_body raw) cfg")
  case (Inl e')
  with assms(3) prescan_error [OF Inl] show ?thesis by (auto simp: validate_def)
next
  case (Inr x)
  then have "pres (lim_max_depth cfg) (map unat (raw_body raw)) 0 False False"
    by (simp add: prescan_Inr_iff)
  from loads_no_recursion_error [OF assms(1) this assms(2), of object_pairs_hook reject_constant]
  have p: "\<exists>c. e = Denial PROTOCOL c" if "parse env (raw_body raw) = Inl e" for e
    using that json_loads_hook_errors [of "recursion_limit env" "raw_body raw"]
    by (auto simp: parse_def json_loads_no_fuel split: sum.splits jexc.splits if_splits)
  show ?thesis
    using assms(3) Inr p
    unfolding validate_def bindR_Inl_iff Let_def
    by (auto simp: bindR_Inl_iff dest: step_errors split: prod.splits)
qed

definition utf16_le :: "ustr \<Rightarrow> nat list" where
  "utf16_le s = concat (map (\<lambda>c. [c mod 256, c div 256]) s)"

text \<open>A body in UTF-16 whose second string hides the brackets from the byte scan: the code
  point U+2200 holds the byte of a quote.\<close>

definition hidden_brackets :: "nat \<Rightarrow> ustr" where
  "hidden_brackets n = u ''{\"a\":\"'' @ [0x2200] @ u ''\",\"b\":'' @ replicate n 91"

definition hidden_body :: "nat \<Rightarrow> bytes" where
  "hidden_body n = map of_nat (utf16_le (hidden_brackets n))"

lemma units16_le: "list_all (\<lambda>c. c < 65536) s \<Longrightarrow> units16 True (utf16_le s) = Some s"
  by (induction s) (simp_all add: utf16_le_def)

lemma join16_bmp: "list_all (\<lambda>c. c < 0xD800) s \<Longrightarrow> join16 s = s"
  by (induction s rule: join16.induct) auto

lemma utf16_dec_le: "list_all (\<lambda>c. c < 0xD800) s \<Longrightarrow> utf16_dec True (utf16_le s) = Some s"
  unfolding utf16_dec_def
  by (subst units16_le) (auto simp: list_all_iff join16_bmp)

lemma utf16_le_bytes: "list_all (\<lambda>c. c < 65536) s \<Longrightarrow> list_all (\<lambda>b. b < 256) (utf16_le s)"
  by (induction s) (auto simp: utf16_le_def less_mult_imp_div_less)

lemma hidden_brackets_eq:
  "hidden_brackets n = [123, 34, 97, 34, 58, 34, 0x2200, 34, 44, 34, 98, 34, 58] @ replicate n 91"
  by (simp add: hidden_brackets_def u_def)

lemma hidden_small: "list_all (\<lambda>c. c < 0xD800) (hidden_brackets n)"
  by (simp add: hidden_brackets_eq list_all_iff)

lemma hidden_body_bytes: "map unat (hidden_body n) = utf16_le (hidden_brackets n)"
proof -
  have "list_all (\<lambda>c. c < 65536) (hidden_brackets n)"
    using hidden_small [of n] by (fastforce simp: list_all_iff)
  then show ?thesis unfolding hidden_body_def by (intro bytes_of_nats utf16_le_bytes)
qed

lemma hidden_body_text: "json_decode_bytes (map unat (hidden_body n)) = Some (hidden_brackets n)"
proof -
  let ?b = "utf16_le (hidden_brackets n)"
  have "\<exists>r. ?b = [123, 0, 34, 0] @ r \<and> 4 \<le> length ?b"
    by (simp add: hidden_brackets_eq utf16_le_def)
  then obtain r where "?b = 123 # 0 # 34 # 0 # r" "4 \<le> length ?b" by auto
  then have "json_decode_bytes ?b = utf16_dec True ?b"
    by (simp add: json_decode_bytes_def starts_with_def)
  then show ?thesis by (simp add: hidden_body_bytes utf16_dec_le hidden_small)
qed

lemma hidden_body_prescan: "1 \<le> M \<Longrightarrow> pres M (map unat (hidden_body n)) 0 False False"
proof -
  assume M: "1 \<le> M"
  have "list_all (\<lambda>c. c \<noteq> 34 \<and> c \<noteq> 92) (utf16_le (replicate n 91))"
    by (induction n) (simp_all add: utf16_le_def)
  from pres_in_string [OF this, of M "[]" 1]
  have "pres M (utf16_le (replicate n 91)) 1 True False" by simp
  with M show ?thesis
    by (simp add: hidden_body_bytes hidden_brackets_eq) (simp add: utf16_le_def)
qed

text \<open>The parser meets every bracket.\<close>

lemma scan_brackets:
  "rl < d + k \<Longrightarrow> d \<le> rl \<Longrightarrow> 2 * k \<le> n
    \<Longrightarrow> scan_once h pc rl n d (replicate k 91) = Inl RecursionError"
proof (induction k arbitrary: n d)
  case (Suc k)
  show ?case
  proof (cases "rl = d")
    case True
    with Suc.prems(3) show ?thesis by (cases n) (simp_all add: scan_once.simps)
  next
    case False
    with Suc.prems obtain k' n' where k: "k = Suc k'" and n: "n = Suc (Suc n')" and r: "rl < Suc d + k" "Suc d \<le> rl" "2 * k \<le> n'"
      by (cases k; cases n; cases "n - 1") auto
    have ws: "skip_ws (replicate k 91) = replicate k (91::nat)"
      unfolding k by (simp add: skip_ws_hd is_ws_def)
    have "scan_items h pc rl (Suc n') (Suc d) (replicate k 91) = Inl RecursionError"
      using Suc.IH [OF r] by (simp add: scan_items.simps)
    with r show ?thesis
      unfolding n by (simp add: scan_once.simps ws) (simp add: k starts_with_Cons)
  qed
qed simp

lemma hidden_body_parse:
  assumes "2 \<le> rl"
  shows "json_loads h pc rl (hidden_body rl) = Inl RecursionError"
proof -
  let ?r = "replicate rl (91 :: nat)"
  let ?n = "2 * length (hidden_brackets rl) + 2"
  obtain n' where n: "?n = Suc (Suc (Suc n'))" and n': "2 * rl \<le> n'"
    by (simp add: hidden_brackets_eq numeral_eq_Suc)
  have ws: "skip_ws ?r = ?r" using assms by (cases rl) (simp_all add: skip_ws_hd is_ws_def)
  have b: "scan_once h pc rl n' 1 ?r = Inl RecursionError"
    using assms n' by (intro scan_brackets) simp_all
  have "scan_once h pc rl ?n 0 (hidden_brackets rl) = Inl RecursionError"
    unfolding n unfolding hidden_brackets_eq using assms b ws
    by (simp add: scan_once.simps scan_members.simps skip_ws_hd is_ws_def starts_with_Cons expect_def)
  then show ?thesis
    by (simp add: json_loads_def hidden_body_text json_decode_def)
      (simp add: hidden_brackets_eq skip_ws_hd is_ws_def)
qed

lemma validate_denies_cleanly_scope: "reads_utf8 (map unat (raw_body demo_raw))"
  by code_simp

theorem validate_denies_cleanly_witness:
  "\<exists>c. validate plain_env demo_sdk 200000000 demo_raw demo_protocol = Inl (Denial PROTOCOL c)"
proof -
  have "validate plain_env demo_sdk 200000000 demo_raw demo_protocol
      = Inl (Denial PROTOCOL PROTO_LIMIT_EXCEEDED)"
    by code_simp
  from validate_denies_cleanly [OF validate_denies_cleanly_scope _ this] this show ?thesis
    by (auto simp: demo_protocol_def plain_env_def)
qed

text \<open>
  C19: the UTF-8 restriction of the previous property is needed. \<open>json.loads\<close> also decodes
  UTF-16, where the byte of a quote occurs inside other characters: for every recursion limit
  there is a body the byte scan accepts (as depth 1) and the parser cannot read, so stage 02
  raises \<open>RecursionError\<close> instead of a denial.
\<close>

theorem prescan_misses_utf16:
  assumes "2 \<le> recursion_limit env" "1 \<le> lim_max_depth cfg"
    and "int (length (hidden_body (recursion_limit env))) \<le> prt_max_body_bytes cfg"
    and "raw_body raw = hidden_body (recursion_limit env)"
  shows "prescan (raw_body raw) cfg = Inr ()
    \<and> validate env s took raw cfg = Inl (PyError ''RecursionError'')"
proof -
  have "prescan (raw_body raw) cfg = Inr ()"
    using assms by (simp add: prescan_Inr_iff hidden_body_prescan)
  moreover have "parse env (raw_body raw) = Inl (PyError ''RecursionError'')"
    using assms by (simp add: parse_def hidden_body_parse)
  ultimately show ?thesis by (simp add: validate_def)
qed

theorem prescan_misses_utf16_witness:
  "validate (plain_env \<lparr> recursion_limit := 20 \<rparr>) demo_sdk 0
     (demo_raw \<lparr> raw_body := hidden_body 20 \<rparr>) demo_protocol = Inl (PyError ''RecursionError'')"
proof -
  have "length (hidden_body 20) = 66"
    by (simp add: hidden_body_def hidden_brackets_eq utf16_le_def length_concat sum_list_replicate)
  then show ?thesis
    using prescan_misses_utf16 [of "plain_env \<lparr> recursion_limit := 20 \<rparr>" demo_protocol
        "demo_raw \<lparr> raw_body := hidden_body 20 \<rparr>" demo_sdk 0]
    by (simp add: demo_protocol_def)
qed

text \<open>
  C20: the structural walk with its explicit stack is the declarative limit: on a decoded
  document it passes exactly when nesting depth, total field count, and every object, array,
  key and string are within their bounds, and otherwise raises the caller's code.
\<close>

theorem check_limits_correct:
  assumes "all_mut Mut v" "is_mapping v \<or> is_list v" "0 \<le> lim_max_total_fields cfg"
  shows "check_limits v cfg code =
    (if within_limits cfg v then Inr () else Inl (Denial PROTOCOL code))"
proof (cases "check_limits v cfg code")
  case (Inl e)
  with check_limits_error [OF Inl] check_limits_Inr_iff [OF assms, of code] show ?thesis by auto
next
  case (Inr x)
  with check_limits_Inr_iff [OF assms, of code] show ?thesis by auto
qed

theorem check_limits_correct_witness:
  "check_limits (PObj Mut [(u ''a'', PArr Mut [PInt 1])]) demo_protocol RESP_LIMIT_EXCEEDED = Inr ()"
  by (subst check_limits_correct)
    (simp_all add: is_mapping_def demo_protocol_def within_limits_def u_def)

text \<open>
  the byte scan and the structural walk put the depth boundary in the same place. The
  scan accepts the serialization of a document exactly when its size is within the limit and
  its container depth is, which is the depth condition of \<open>check_limits\<close>.
\<close>

lemma prescan_measures_depth:
  assumes "canonical_json env v = Inr body" "float_text_ok (float_repr env)" "0 \<le> lim_max_depth cfg"
  shows "prescan body cfg = Inr () \<longleftrightarrow>
    int (length body) \<le> prt_max_body_bytes cfg \<and> int (container_depth v) \<le> lim_max_depth cfg"
proof -
  have "encode_utf8 (json_text (float_repr env) v) = Some body"
    using assms(1) by (auto simp: canonical_json_def split: if_splits option.splits)
  then have "pres (lim_max_depth cfg) (map unat body) 0 False False
      = pres (lim_max_depth cfg) (json_text (float_repr env) v) 0 False False"
    by (rule pres_utf8 [OF encode_utf8_decode])
  with pres_json_text [OF assms(2,3), of v "[]"] show ?thesis
    by (simp add: prescan_Inr_iff)
qed

lemma prescan_measures_depth_witness:
  "prescan (map of_nat (u ''{\"a\":[[]]}'')) demo_protocol = Inr ()"
proof -
  have c: "canonical_json plain_env (PObj Mut [(u ''a'', PArr Mut [PArr Mut []])])
      = Inr (map of_nat (u ''{\"a\":[[]]}''))"
    by code_simp
  have f: "float_text_ok (float_repr plain_env)"
    by (simp add: float_text_ok_def plain_env_def u_def neutral_def)
  show ?thesis
    using prescan_measures_depth [OF c f, of demo_protocol] by (simp add: demo_protocol_def u_def)
qed

end
