(* ===== verification/Identity.thy ===== *)
theory Identity
  imports Gateway_Config
begin

text \<open>
  \<open>gateway/identity.py\<close>: the authorization context is built from the configuration alone.
\<close>

definition resolve_identity :: "canonical_request \<Rightarrow> identity_config \<Rightarrow> authz_context" where
  "resolve_identity req cfg =
     \<lparr> ctx_principal = idc_principal cfg, ctx_client_id = idc_client_id cfg, ctx_roles = idc_roles cfg,
       ctx_auth_method = u ''local_config'', ctx_assurance = u ''unverified_local'',
       ctx_transport = u ''streamable_http'', ctx_environment = idc_environment cfg \<rparr>"

definition identity_audit_fields :: "authz_context \<Rightarrow> (ustr \<times> pyval) list" where
  "identity_audit_fields ctx =
     [(u ''principal'', PStr (ctx_principal ctx)),
      (u ''client_id'', PStr (ctx_client_id ctx)),
      (u ''roles'', PArr Frz (map PStr (ctx_roles ctx))),
      (u ''auth_method'', PStr (ctx_auth_method ctx)),
      (u ''assurance'', PStr (ctx_assurance ctx)),
      (u ''environment'', PStr (ctx_environment ctx))]"

text \<open>Nothing the client sends changes who it is, and identity is never overstated.\<close>

lemma resolve_identity_ignores_request: "resolve_identity req cfg = resolve_identity req' cfg"
  by (simp add: resolve_identity_def)

lemma resolve_identity_assurance [simp]:
  "ctx_auth_method (resolve_identity req cfg) = u ''local_config''"
  "ctx_assurance (resolve_identity req cfg) = u ''unverified_local''"
  "ctx_transport (resolve_identity req cfg) = u ''streamable_http''"
  "ctx_roles (resolve_identity req cfg) = idc_roles cfg"
  by (simp_all add: resolve_identity_def)

end
