(* ===== verification/Json_Ascii.thy ===== *)
theory Json_Ascii
  imports Hashing
begin

text \<open>
  \<open>json.dumps\<close> and \<open>json.loads\<close> with their defaults, as the edge and the evaluation harness call
  them, and Python's \<open>==\<close> on decoded values. The main result is that what \<open>dumps\<close> writes
  \<open>loads\<close> reads back (\<open>loads_dumps\<close>).
\<close>

section \<open>Reading\<close>

text \<open>The default \<open>parse_constant\<close>.\<close>

definition constant_value :: "string \<Rightarrow> unit + pyval" where
  "constant_value name =
     Inr (PFloat (if name = ''NaN'' then NaN else if name = ''Infinity'' then PosInf else NegInf))"

definition dict_hook :: "(ustr \<times> pyval) list \<Rightarrow> unit + pyval" where
  "dict_hook ps = Inr (PObj Mut (dict_of ps))"

definition loads :: "nat \<Rightarrow> bytes \<Rightarrow> unit jexc + pyval" where
  "loads rl b = json_loads dict_hook constant_value rl b"

section \<open>Writing\<close>

definition unicode_unit :: "nat \<Rightarrow> ustr" where
  "unicode_unit c = [92, 117, hex_digit (c div 4096), hex_digit (c div 256 mod 16), hex_digit (c div 16 mod 16), hex_digit (c mod 16)]"

definition escape_ascii :: "nat \<Rightarrow> ustr" where
  "escape_ascii c =
     (if c = 34 then [92, 34] else if c = 92 then [92, 92]
      else if c = 10 then [92, 110] else if c = 13 then [92, 114] else if c = 9 then [92, 116]
      else if c = 12 then [92, 102] else if c = 8 then [92, 98]
      else if 32 \<le> c \<and> c \<le> 126 then [c]
      else if c < 0x10000 then unicode_unit c
      else unicode_unit (0xD800 + (c - 0x10000) div 0x400) @ unicode_unit (0xDC00 + (c - 0x10000) mod 0x400))"

definition ascii_string :: "ustr \<Rightarrow> ustr" where
  "ascii_string s = 34 # concat (map escape_ascii s) @ [34]"

definition float_text :: "pyenv \<Rightarrow> pyfloat \<Rightarrow> ustr" where
  "float_text env f = (case f of PosInf \<Rightarrow> u ''Infinity'' | NegInf \<Rightarrow> u ''-Infinity'' | NaN \<Rightarrow> u ''NaN'' | _ \<Rightarrow> float_repr env f)"

primrec ascii_text :: "pyenv \<Rightarrow> pyval \<Rightarrow> ustr" where
  "ascii_text env PNone = u ''null''"
| "ascii_text env (PBool b) = (if b then u ''true'' else u ''false'')"
| "ascii_text env (PInt i) = int_text i"
| "ascii_text env (PFloat f) = float_text env f"
| "ascii_text env (PStr s) = ascii_string s"
| "ascii_text env (PArr m xs) = 91 # join_with [44, 32] (map (ascii_text env) xs) @ [93]"
| "ascii_text env (PObj m kvs) =
     123 # join_with [44, 32] (map (\<lambda>(k, t). ascii_string k @ [58, 32] @ t) (map (map_prod id (ascii_text env)) kvs)) @ [125]"

text \<open>A frozen mapping is no \<open>dict\<close>.\<close>

primrec has_frozen_map :: "pyval \<Rightarrow> bool" where
  "has_frozen_map PNone \<longleftrightarrow> False"
| "has_frozen_map (PBool b) \<longleftrightarrow> False"
| "has_frozen_map (PInt i) \<longleftrightarrow> False"
| "has_frozen_map (PFloat f) \<longleftrightarrow> False"
| "has_frozen_map (PStr s) \<longleftrightarrow> False"
| "has_frozen_map (PArr m xs) \<longleftrightarrow> list_ex id (map has_frozen_map xs)"
| "has_frozen_map (PObj m kvs) \<longleftrightarrow> m = Frz \<or> list_ex snd (map (map_prod id has_frozen_map) kvs)"

definition json_dumps :: "pyenv \<Rightarrow> pyval \<Rightarrow> bytes result" where
  "json_dumps env v =
     (if has_frozen_map v then Inl (PyError ''TypeError'') else Inr (map of_nat (ascii_text env v)))"

section \<open>Equality\<close>

text \<open>
  Python's \<open>==\<close>: booleans are numbers, an integer equals a float of the same value (here: the
  value of the float's own decimal text), and a \<open>dict\<close> is compared without its order.
\<close>

definition dec_is :: "bool \<Rightarrow> nat \<Rightarrow> int \<Rightarrow> int \<Rightarrow> bool" where
  "dec_is neg m e i =
     (let s = (if neg then - int m else int m) in
      if 0 \<le> e then s * 10 ^ nat e = i else s = i * 10 ^ nat (- e))"

definition as_number :: "pyval \<Rightarrow> int option" where
  "as_number v = (case v of PBool b \<Rightarrow> Some (of_bool b) | PInt i \<Rightarrow> Some i | _ \<Rightarrow> None)"

definition float_eq :: "pyfloat \<Rightarrow> pyfloat \<Rightarrow> bool" where
  "float_eq a b =
     (case (a, b) of
        (Dec s m e, Dec t n f) \<Rightarrow>
          (let k = min e f in
           (if s then - int m else int m) * 10 ^ nat (e - k) = (if t then - int n else int n) * 10 ^ nat (f - k))
      | (NaN, _) \<Rightarrow> False
      | _ \<Rightarrow> a = b)"

definition number_eq :: "pyval \<Rightarrow> pyval \<Rightarrow> bool" where
  "number_eq v w =
     (case (v, w) of
        (PFloat a, PFloat b) \<Rightarrow> float_eq a b
      | (PFloat (Dec s m e), _) \<Rightarrow> (case as_number w of Some i \<Rightarrow> dec_is s m e i | None \<Rightarrow> False)
      | (_, PFloat (Dec s m e)) \<Rightarrow> (case as_number v of Some i \<Rightarrow> dec_is s m e i | None \<Rightarrow> False)
      | _ \<Rightarrow> as_number v \<noteq> None \<and> as_number v = as_number w)"

primrec py_eq :: "pyval \<Rightarrow> pyval \<Rightarrow> bool" where
  "py_eq PNone w \<longleftrightarrow> w = PNone"
| "py_eq (PBool b) w \<longleftrightarrow> number_eq (PBool b) w"
| "py_eq (PInt i) w \<longleftrightarrow> number_eq (PInt i) w"
| "py_eq (PFloat f) w \<longleftrightarrow> number_eq (PFloat f) w"
| "py_eq (PStr s) w \<longleftrightarrow> w = PStr s"
| "py_eq (PArr m xs) w \<longleftrightarrow>
     (case w of PArr n ys \<Rightarrow> m = n \<and> list_all2 (\<lambda>f y. f y) (map py_eq xs) ys | _ \<Rightarrow> False)"
| "py_eq (PObj m kvs) w \<longleftrightarrow>
     (case w of
        PObj n lvs \<Rightarrow>
          length kvs = length lvs
        \<and> list_all (\<lambda>(k, f). case dict_get lvs k of None \<Rightarrow> False | Some x \<Rightarrow> f x) (map (map_prod id py_eq) kvs)
      | _ \<Rightarrow> False)"

section \<open>Texts of a value\<close>

text \<open>What the scanner reads as a string: the text between its quotes.\<close>

definition string_reads :: "ustr \<Rightarrow> ustr \<Rightarrow> bool" where
  "string_reads s t \<longleftrightarrow> (\<forall>r. (scan_string (s @ 34 # r) :: unit jexc + (ustr \<times> ustr)) = Inr (t, r))"

text \<open>
  The texts of a value, with white space after commas and colons: whatever \<open>dumps\<close> is told about
  separators and escapes, its output is one of them.
\<close>

inductive text_of :: "ustr \<Rightarrow> pyval \<Rightarrow> bool"
  and items_of :: "ustr \<Rightarrow> pyval list \<Rightarrow> bool"
  and members_of :: "ustr \<Rightarrow> (ustr \<times> pyval) list \<Rightarrow> bool" where
  Null: "text_of (u ''null'') PNone"
| Bool: "text_of (if b then u ''true'' else u ''false'') (PBool b)"
| Int: "length (nat_text (nat \<bar>i\<bar>)) \<le> INT_MAX_STR_DIGITS \<Longrightarrow> text_of (int_text i) (PInt i)"
| Str: "string_reads s t \<Longrightarrow> text_of (34 # s @ [34]) (PStr t)"
| Arr_Nil: "text_of [91, 93] (PArr Mut [])"
| Arr: "items_of s xs \<Longrightarrow> text_of (91 # s @ [93]) (PArr Mut xs)"
| Obj_Nil: "text_of [123, 125] (PObj Mut [])"
| Obj: "members_of s kvs \<Longrightarrow> distinct_keys kvs \<Longrightarrow> text_of (123 # s @ [125]) (PObj Mut kvs)"
| Item: "text_of s x \<Longrightarrow> items_of s [x]"
| Items: "text_of s x \<Longrightarrow> \<forall>c \<in> set ws. is_ws c \<Longrightarrow> items_of s' xs \<Longrightarrow> items_of (s @ 44 # ws @ s') (x # xs)"
| Member: "string_reads k t \<Longrightarrow> \<forall>c \<in> set ws. is_ws c \<Longrightarrow> text_of s v \<Longrightarrow> members_of (34 # k @ 34 # 58 # ws @ s) [(t, v)]"
| Members: "string_reads k t \<Longrightarrow> \<forall>c \<in> set ws. is_ws c \<Longrightarrow> text_of s v \<Longrightarrow> \<forall>c \<in> set ws'. is_ws c \<Longrightarrow> members_of s' kvs \<Longrightarrow>
    members_of (34 # k @ 34 # 58 # ws @ s @ 44 # ws' @ s') ((t, v) # kvs)"

lemma skip_ws_all: "\<forall>c \<in> set ws. is_ws c \<Longrightarrow> skip_ws (ws @ s) = skip_ws s"
  by (induction ws) (simp_all add: skip_ws_def)

lemma text_of_hd:
  "text_of s v \<Longrightarrow> \<exists>c t. s = c # t \<and> \<not> is_ws c \<and> c \<noteq> 93 \<and> c \<noteq> 125"
  "items_of s xs \<Longrightarrow> \<exists>c t. s = c # t \<and> \<not> is_ws c \<and> c \<noteq> 93"
  "members_of s kvs \<Longrightarrow> \<exists>t. s = 34 # t"
proof (induction rule: text_of_items_of_members_of.inducts)
  case (Int i)
  obtain c t where "int_text i = c # t" "is_digit c \<or> c = 45" using int_text_cons [of i] by metis
  then show ?case by (auto simp: is_ws_def is_digit_def)
qed (auto simp: u_literals is_ws_def)

lemma skip_text: "text_of s v \<Longrightarrow> skip_ws (s @ r) = s @ r" "items_of s xs \<Longrightarrow> skip_ws (s @ r) = s @ r"
  using text_of_hd(1,2) by (auto simp: skip_ws_hd) (metis Cons_eq_appendI skip_ws_hd)+

abbreviation nesting :: "pyval list \<Rightarrow> nat" where
  "nesting xs \<equiv> foldr max (map container_depth xs) 0"

text \<open>The scanner reads every text of a value as that value.\<close>

lemma scan_text:
  fixes pc :: "string \<Rightarrow> unit + pyval"
  assumes hook: "\<And>ps. distinct_keys ps \<Longrightarrow> h ps = Inr (PObj Mut ps)"
  shows "text_of s v \<Longrightarrow> (\<forall>n d rest. d + container_depth v \<le> rl \<longrightarrow> term_ok rest \<longrightarrow> 2 * length (s @ rest) < n \<longrightarrow>
           scan_once h pc rl n d (s @ rest) = Inr (v, rest))"
    and "items_of s xs \<Longrightarrow> (\<forall>n d rest. d + nesting xs \<le> rl \<longrightarrow> 2 * length (s @ 93 # rest) + 1 < n \<longrightarrow>
           scan_items h pc rl n d (s @ 93 # rest) = Inr (xs, rest))"
    and "members_of s kvs \<Longrightarrow> (\<forall>n d rest. d + nesting (map snd kvs) \<le> rl \<longrightarrow> 2 * length (tl s @ 125 # rest) < n \<longrightarrow>
           scan_members h pc rl n d (tl s @ 125 # rest) = Inr (kvs, rest))"
proof (induction rule: text_of_items_of_members_of.inducts)
  case Null
  show ?case
    by (intro allI impI, case_tac n)
      (simp_all add: scan_once.simps scan_atom_def u_literals starts_with_Cons)
next
  case (Bool b)
  show ?case
    by (intro allI impI, case_tac n; cases b)
      (simp_all add: scan_once.simps scan_atom_def u_literals starts_with_Cons)
next
  case (Int i)
  obtain c t where c: "int_text i = c # t" "is_digit c \<or> c = 45" using int_text_cons [of i] by metis
  have "c \<noteq> 34 \<and> c \<noteq> 123 \<and> c \<noteq> 91" using c(2) by (auto simp: is_digit_def)
  then show ?case
    using scan_atom_number [OF _ Int, of _ pc] c(1)
    by (intro allI impI, case_tac n) (simp_all add: scan_once.simps)
next
  case (Str s t)
  then show ?case
    by (intro allI impI, case_tac n) (simp_all add: scan_once.simps string_reads_def)
next
  case Arr_Nil
  show ?case
    by (intro allI impI, case_tac n)
      (simp_all add: scan_once.simps skip_ws_hd is_ws_def starts_with_Cons)
next
  case (Arr s xs)
  show ?case
  proof (intro allI impI, goal_cases)
    case (1 n d rest)
    then obtain n' where n: "n = Suc n'" by (cases n) auto
    have sk: "skip_ws (s @ 93 # rest) = s @ 93 # rest" using skip_text(2) [OF Arr.hyps] .
    have hd: "\<not> starts_with [93] (s @ 93 # rest)" using text_of_hd(2) [OF Arr.hyps] by (auto simp: starts_with_Cons)
    have "scan_items h pc rl n' (Suc d) (s @ 93 # rest) = Inr (xs, rest)" using Arr.IH 1 n by simp
    then show ?case using 1 n sk hd by (simp add: scan_once.simps)
  qed
next
  case Obj_Nil
  show ?case
    by (intro allI impI, case_tac n)
      (simp_all add: scan_once.simps skip_ws_hd is_ws_def starts_with_Cons hook)
next
  case (Obj s kvs)
  obtain s' where s: "s = 34 # s'" using text_of_hd(3) [OF Obj.hyps(1)] by blast
  show ?case
  proof (intro allI impI, goal_cases)
    case (1 n d rest)
    then obtain n' where n: "n = Suc n'" by (cases n) auto
    have "scan_members h pc rl n' (Suc d) (s' @ 125 # rest) = Inr (kvs, rest)"
      using Obj.IH 1 n by (simp add: s comp_def)
    then show ?case
      using 1 n by (simp add: s scan_once.simps skip_ws_hd is_ws_def starts_with_Cons expect_def hook [OF Obj.hyps(2)])
  qed
next
  case (Item s x)
  show ?case
  proof (intro allI impI, goal_cases)
    case (1 n d rest)
    then obtain n' where n: "n = Suc n'" by (cases n) auto
    have "scan_once h pc rl n' d (s @ 93 # rest) = Inr (x, 93 # rest)" using Item.IH 1 n by (simp add: term_ok_def)
    then show ?case using n by (simp add: scan_items.simps skip_ws_hd is_ws_def starts_with_Cons expect_def)
  qed
next
  case (Items s x ws s' xs)
  show ?case
  proof (intro allI impI, goal_cases)
    case (1 n d rest)
    then obtain n' where n: "n = Suc n'" by (cases n) auto
    have "scan_once h pc rl n' d (s @ 44 # ws @ s' @ 93 # rest) = Inr (x, 44 # ws @ s' @ 93 # rest)"
      using Items.IH(1) 1 n by (simp add: term_ok_def)
    moreover have "scan_items h pc rl n' d (s' @ 93 # rest) = Inr (xs, rest)" using Items.IH(2) 1 n by simp
    ultimately show ?case
      using n skip_text(2) [OF Items.hyps(3)]
      by (simp add: scan_items.simps skip_ws_hd [of 44] is_ws_def [of 44] starts_with_Cons skip_ws_all [OF Items.hyps(2)])
  qed
next
  case (Member k t ws s v)
  show ?case
  proof (intro allI impI, goal_cases)
    case (1 n d rest)
    then obtain n' where n: "n = Suc n'" by (cases n) auto
    have "scan_once h pc rl n' d (s @ 125 # rest) = Inr (v, 125 # rest)" using Member.IH 1 n by (simp add: term_ok_def)
    then show ?case
      using n skip_text(1) [OF Member.hyps(3)] Member.hyps(1)
      by (simp add: scan_members.simps string_reads_def skip_ws_hd is_ws_def [of 58] is_ws_def [of 125] starts_with_Cons expect_def
          skip_ws_all [OF Member.hyps(2)])
  qed
next
  case (Members k t ws s v ws' s' kvs)
  obtain r where r: "s' = 34 # r" using text_of_hd(3) [OF Members.hyps(5)] by blast
  show ?case
  proof (intro allI impI, goal_cases)
    case (1 n d rest)
    then obtain n' where n: "n = Suc n'" by (cases n) auto
    have "scan_once h pc rl n' d (s @ 44 # ws' @ s' @ 125 # rest) = Inr (v, 44 # ws' @ s' @ 125 # rest)"
      using Members.IH(1) 1 n by (simp add: term_ok_def)
    moreover have "scan_members h pc rl n' d (r @ 125 # rest) = Inr (kvs, rest)" using Members.IH(2) 1 n by (simp add: r)
    ultimately show ?case
      using n skip_text(1) [OF Members.hyps(3)] Members.hyps(1)
      by (simp add: r scan_members.simps string_reads_def skip_ws_hd is_ws_def [of 58] is_ws_def [of 44] is_ws_def [of 34]
          starts_with_Cons expect_def skip_ws_all [OF Members.hyps(2)] skip_ws_all [OF Members.hyps(4)])
  qed
qed

section \<open>What is written is read back\<close>

definition scalar :: "nat \<Rightarrow> bool" where
  "scalar c \<longleftrightarrow> c < 0x110000 \<and> \<not> (0xD800 \<le> c \<and> c < 0xE000)"

lemma base16:
  "c = 16 * d + r0 \<Longrightarrow> d = 16 * e + r1 \<Longrightarrow> e = 16 * f + r2 \<Longrightarrow> 4096 * f + 256 * r2 + 16 * r1 + r0 = (c :: nat)"
  by simp

lemma hex4_unit:
  assumes "c < 0x10000"
  shows "hex4 (hex_digit (c div 4096) # hex_digit (c div 256 mod 16) # hex_digit (c div 16 mod 16) # hex_digit (c mod 16) # r)
    = Some (c, r)"
proof -
  have "c div 256 = c div 16 div 16" "c div 4096 = c div 16 div 16 div 16" by (simp_all add: div_mult2_eq [symmetric])
  then have "4096 * (c div 4096) + 256 * (c div 256 mod 16) + 16 * (c div 16 mod 16) + c mod 16 = c"
    using base16 [of c "c div 16" "c mod 16" "c div 16 div 16" "c div 16 mod 16" "c div 16 div 16 div 16" "c div 16 div 16 mod 16"]
    by (simp only: mult_div_mod_eq simp_thms)
  moreover have "c div 4096 < 16" using assms by simp
  ultimately show ?thesis by (simp add: hex4_def hex_val_digit)
qed

lemma scan_string_unit:
  assumes "c < 0x10000" "\<not> (0xD800 \<le> c \<and> c < 0xE000)"
  shows "(scan_string (unicode_unit c @ r) :: 'e jexc + (ustr \<times> ustr)) = mapR (map_prod (Cons c) id) (scan_string r)"
  using assms by (auto simp: unicode_unit_def unicode_escape_def hex4_unit)

lemma scan_string_pair:
  assumes "0x10000 \<le> c" "c < 0x110000"
  shows "(scan_string (unicode_unit (0xD800 + (c - 0x10000) div 0x400) @ unicode_unit (0xDC00 + (c - 0x10000) mod 0x400) @ r)
      :: 'e jexc + (ustr \<times> ustr)) = mapR (map_prod (Cons c) id) (scan_string r)"
proof -
  let ?h = "0xD800 + (c - 0x10000) div 0x400" and ?l = "0xDC00 + (c - 0x10000) mod 0x400"
  have h: "0xD800 \<le> ?h" "?h < 0xDC00" using assms by (auto simp: div_less_iff_less_mult)
  have l: "0xDC00 \<le> ?l" "?l < 0xE000" by auto
  have sum: "0x10000 + (?h - 0xD800) * 1024 + (?l - 0xDC00) = c" using assms by simp
  have "unicode_escape (tl (tl (unicode_unit ?h)) @ unicode_unit ?l @ r) = Some (c, r)"
    using h l sum hex4_unit [of ?h] hex4_unit [of ?l]
    by (simp add: unicode_escape_def unicode_unit_def starts_with_Cons)
  then show ?thesis by (simp add: unicode_unit_def)
qed

lemma ascii_string_reads: "list_all scalar s \<Longrightarrow> string_reads (concat (map escape_ascii s)) s"
proof (induction s)
  case Nil
  then show ?case by (simp add: string_reads_def)
next
  case (Cons c s)
  have "(scan_string (escape_ascii c @ r) :: unit jexc + (ustr \<times> ustr)) = mapR (map_prod (Cons c) id) (scan_string r)" for r
  proof (cases "c < 0x10000")
    case True
    then show ?thesis
      using Cons.prems scan_string_unit [OF True, where 'e = unit] by (simp add: escape_ascii_def simple_escape_def scalar_def)
  next
    case False
    then show ?thesis
      using Cons.prems scan_string_pair [of c r, where 'e = unit] by (simp add: escape_ascii_def scalar_def)
  qed
  then show ?case using Cons by (simp add: string_reads_def)
qed

text \<open>Values \<open>dumps\<close> writes without loss: no float, code points only, plain containers, distinct keys.\<close>

primrec dumpable :: "pyval \<Rightarrow> bool" where
  "dumpable PNone \<longleftrightarrow> True"
| "dumpable (PBool b) \<longleftrightarrow> True"
| "dumpable (PInt i) \<longleftrightarrow> length (nat_text (nat \<bar>i\<bar>)) \<le> INT_MAX_STR_DIGITS"
| "dumpable (PFloat f) \<longleftrightarrow> False"
| "dumpable (PStr s) \<longleftrightarrow> list_all scalar s"
| "dumpable (PArr m xs) \<longleftrightarrow> m = Mut \<and> list_all id (map dumpable xs)"
| "dumpable (PObj m kvs) \<longleftrightarrow> m = Mut \<and> distinct_keys kvs \<and> list_all (\<lambda>(k, b). list_all scalar k \<and> b) (map (map_prod id dumpable) kvs)"

lemma dumpable_simps [simp]:
  "dumpable (PArr m xs) \<longleftrightarrow> m = Mut \<and> (\<forall>x \<in> set xs. dumpable x)"
  "dumpable (PObj m kvs) \<longleftrightarrow> m = Mut \<and> distinct_keys kvs \<and> (\<forall>(k, v) \<in> set kvs. list_all scalar k \<and> dumpable v)"
  by (auto simp: list_all_iff)

declare dumpable.simps(6,7) [simp del]

lemma space_ws: "\<forall>c \<in> set [32]. is_ws c"
  by (simp add: is_ws_def)

lemma ascii_items:
  "\<forall>x \<in> set xs. text_of (ascii_text env x) x \<Longrightarrow> xs \<noteq> [] \<Longrightarrow> items_of (join_with [44, 32] (map (ascii_text env) xs)) xs"
proof (induction xs)
  case (Cons x xs)
  show ?case
  proof (cases xs)
    case Nil
    then show ?thesis using Cons.prems by (simp add: Item)
  next
    case (Cons y ys)
    then show ?thesis
      using Cons.IH Cons.prems(1) Items [OF _ space_ws, of "ascii_text env x" x] by simp
  qed
qed simp

lemma ascii_members:
  "\<forall>(k, v) \<in> set kvs. list_all scalar k \<and> text_of (ascii_text env v) v \<Longrightarrow> kvs \<noteq> [] \<Longrightarrow>
   members_of (join_with [44, 32] (map (\<lambda>(k, v). ascii_string k @ [58, 32] @ ascii_text env v) kvs)) kvs"
proof (induction kvs)
  case (Cons kv kvs)
  obtain k v where kv: "kv = (k, v)" by (cases kv)
  have k: "string_reads (concat (map escape_ascii k)) k" "text_of (ascii_text env v) v"
    using Cons.prems(1) ascii_string_reads by (auto simp: kv)
  show ?case
  proof (cases kvs)
    case Nil
    then show ?thesis using Member [OF k(1) space_ws k(2)] by (simp add: kv ascii_string_def)
  next
    case (Cons y ys)
    then show ?thesis
      using Cons.IH Cons.prems(1) Members [OF k(1) space_ws k(2) space_ws] by (simp add: kv ascii_string_def)
  qed
qed simp

lemma ascii_is_text: "dumpable v \<Longrightarrow> text_of (ascii_text env v) v"
proof (induction v)
  case (PBool b)
  show ?case using Bool [of b] by simp
next
  case (PStr s)
  then show ?case using Str [OF ascii_string_reads] by (simp add: ascii_string_def)
next
  case (PArr m xs)
  show ?case
  proof (cases xs)
    case Nil
    then show ?thesis using PArr.prems Arr_Nil by simp
  next
    case (Cons y ys)
    then show ?thesis using PArr Arr [OF ascii_items [of xs env]] by simp
  qed
next
  case (PObj m kvs)
  have shape: "ascii_text env (PObj m kvs) =
      123 # join_with [44, 32] (map (\<lambda>(k, v). ascii_string k @ [58, 32] @ ascii_text env v) kvs) @ [125]"
    by (simp add: comp_def case_prod_unfold)
  have sub: "\<forall>(k, v) \<in> set kvs. list_all scalar k \<and> text_of (ascii_text env v) v"
  proof (safe, goal_cases)
    case (1 k v)
    then show ?case using PObj.prems by auto
  next
    case (2 k v)
    then show ?case using PObj.prems PObj.IH [of "(k, v)" v] by auto
  qed
  show ?case
  proof (cases "kvs = []")
    case True
    then show ?thesis using PObj.prems Obj_Nil by simp
  next
    case False
    then show ?thesis
      unfolding shape using PObj.prems Obj [OF ascii_members [OF sub]] by simp
  qed
qed (auto intro: text_of_items_of_members_of.intros)

lemma hex_digit_ascii: "v < 16 \<Longrightarrow> 32 \<le> hex_digit v \<and> hex_digit v < 128"
  by (auto simp: hex_digit_def)

lemma unicode_unit_ascii:
  assumes "c < 0x10000" "x \<in> set (unicode_unit c)"
  shows "32 \<le> x \<and> x < 128"
proof -
  have "c div 4096 < 16" using assms(1) by simp
  then show ?thesis
    using assms(2) hex_digit_ascii [of "c div 4096"] hex_digit_ascii [of "c div 256 mod 16"]
      hex_digit_ascii [of "c div 16 mod 16"] hex_digit_ascii [of "c mod 16"]
    by (auto simp: unicode_unit_def)
qed

lemma escape_ascii_ascii:
  assumes "c < 0x110000" "x \<in> set (escape_ascii c)"
  shows "32 \<le> x \<and> x < 128"
proof -
  have "0xD800 + (c - 0x10000) div 0x400 < 0x10000" "0xDC00 + (c - 0x10000) mod 0x400 < 0x10000" using assms(1) by auto
  note units = unicode_unit_ascii [of c x] unicode_unit_ascii [OF this(1), of x] unicode_unit_ascii [OF this(2), of x]
  show ?thesis using assms(2) units by (auto simp: escape_ascii_def split: if_splits)
qed

definition all_ascii :: "ustr \<Rightarrow> bool" where
  "all_ascii s \<longleftrightarrow> (\<forall>x \<in> set s. 32 \<le> x \<and> x < 128)"

lemma all_ascii_append [simp]: "all_ascii [] \<longleftrightarrow> True" "all_ascii (c # s) \<longleftrightarrow> 32 \<le> c \<and> c < 128 \<and> all_ascii s"
  "all_ascii (s @ t) \<longleftrightarrow> all_ascii s \<and> all_ascii t"
  by (auto simp: all_ascii_def)

lemma all_ascii_join: "(\<forall>s \<in> set ss. all_ascii s) \<Longrightarrow> all_ascii (join_with [44, 32] ss)"
  by (induction "[44, 32 :: nat]" ss rule: join_with.induct) auto

lemma ascii_string_ascii: "list_all scalar s \<Longrightarrow> all_ascii (ascii_string s)"
  using escape_ascii_ascii by (auto simp: ascii_string_def all_ascii_def scalar_def list_all_iff)

lemma ascii_text_ascii: "dumpable v \<Longrightarrow> all_ascii (ascii_text env v)"
proof (induction v)
  case (PInt i)
  have "all_ascii (nat_text n)" for n using nat_text_digits by (fastforce simp: all_ascii_def is_digit_def)
  then show ?case by (simp add: int_text_def)
next
  case (PStr s)
  then show ?case by (simp add: ascii_string_ascii)
next
  case (PArr m xs)
  then show ?case by (auto intro!: all_ascii_join)
next
  case (PObj m kvs)
  have "all_ascii (ascii_string k @ [58, 32] @ ascii_text env v)" if "(k, v) \<in> set kvs" for k v
    using that PObj.prems PObj.IH [of "(k, v)" v] ascii_string_ascii by auto
  then show ?case by (fastforce intro!: all_ascii_join simp: comp_def)
qed (auto simp: u_literals)

lemma decode_ascii:
  assumes "all_ascii s" "s \<noteq> []"
  shows "json_decode_bytes s = Some s"
proof -
  have "\<not> starts_with [0, 0, 0xFE, 0xFF] s" "\<not> starts_with [0xFF, 0xFE, 0, 0] s" "\<not> starts_with [0xFE, 0xFF] s"
    "\<not> starts_with [0xFF, 0xFE] s" "\<not> starts_with [0xEF, 0xBB, 0xBF] s"
    using assms by (auto simp: starts_with_iff)
  moreover have "s ! 0 \<noteq> 0" using assms by (cases s) auto
  moreover have "2 \<le> length s \<longrightarrow> s ! Suc 0 \<noteq> 0"
  proof
    assume "2 \<le> length s"
    then have "s ! Suc 0 \<in> set s" by simp
    then show "s ! Suc 0 \<noteq> 0" using assms(1) unfolding all_ascii_def by fastforce
  qed
  moreover have "utf8_dec True s = Some s" using assms(1) by (intro utf8_dec_ascii) (auto simp: all_ascii_def)
  ultimately show ?thesis by (auto simp: json_decode_bytes_def)
qed

text \<open>\<open>json.loads(json.dumps(v))\<close> is \<open>v\<close>.\<close>

lemma loads_dumps:
  assumes "dumpable v" "container_depth v \<le> rl" "json_dumps env v = Inr b"
  shows "loads rl b = Inr v"
proof -
  let ?s = "ascii_text env v"
  have b: "b = map of_nat ?s" using assms(3) by (simp add: json_dumps_def split: if_splits)
  have a: "all_ascii ?s" by (rule ascii_text_ascii [OF assms(1)])
  have t: "text_of ?s v" by (rule ascii_is_text [OF assms(1)])
  have "map unat b = ?s"
    unfolding b using a by (intro bytes_of_nats) (auto simp: all_ascii_def list_all_iff)
  moreover have "json_decode_bytes ?s = Some ?s" using decode_ascii [OF a] text_of_hd(1) [OF t] by auto
  moreover have "json_decode dict_hook constant_value rl ?s = Inr v"
  proof -
    have hook: "distinct_keys ps \<Longrightarrow> dict_hook ps = Inr (PObj Mut ps)" for ps by (simp add: dict_hook_def dict_of_distinct)
    have "scan_once dict_hook constant_value rl (2 * length ?s + 2) 0 (?s @ []) = Inr (v, [])"
      using scan_text(1) [OF hook t, of rl constant_value] assms(2) by (simp add: term_ok_def)
    then show ?thesis using skip_text(1) [OF t, of "[]"] by (simp add: json_decode_def skip_ws_def)
  qed
  ultimately show ?thesis by (simp add: loads_def json_loads_def)
qed

end
