(* ===== verification/Registry.thy ===== *)
theory Registry
  imports Protocol_Guard Identity Json_Ascii
begin

text \<open>
  \<open>gateway/registry.py\<close>: the approved servers and tools, the load-time gates on an approved
  schema, the fingerprint of an advertised tool, drift detection at start-up, and the one
  predicate that decides whether a tool is callable. The JSON Schema validator and the SDK's
  annotation check are the fields of \<open>schema_lib\<close>.
\<close>

abbreviation reg_deny :: "reason_code \<Rightarrow> exc" where
  "reg_deny c \<equiv> Denial REGISTRY c"

text \<open>
  \<open>Draft202012Validator.check_schema\<close>, the keyword of the first error of \<open>iter_errors\<close>, and
  \<open>find_invalid_x_mcp_header\<close>.
\<close>

record schema_lib =
  js_valid_schema :: "pyval \<Rightarrow> bool"
  js_first_error :: "pyval \<Rightarrow> pyval \<Rightarrow> ustr option"
  js_bad_annotation :: "pyval \<Rightarrow> ustr option"

section \<open>Approved schemas\<close>

fun first_some :: "('a \<Rightarrow> 'b option) \<Rightarrow> 'a list \<Rightarrow> 'b option" where
  "first_some f [] = None"
| "first_some f (x # xs) = (case f x of Some y \<Rightarrow> Some y | None \<Rightarrow> first_some f xs)"

lemma first_some_cong [fundef_cong]:
  "xs = ys \<Longrightarrow> (\<And>x. x \<in> set ys \<Longrightarrow> f x = g x) \<Longrightarrow> first_some f xs = first_some g ys"
  by (induction xs arbitrary: ys) (auto split: option.splits)

lemma first_some_None: "first_some f xs = None \<longleftrightarrow> (\<forall>x \<in> set xs. f x = None)"
  by (induction xs) (auto split: option.splits)

definition SCHEMA_MAPS :: "ustr list" where
  "SCHEMA_MAPS = [u ''properties'', u ''patternProperties'', u ''$defs'', u ''definitions'']"

definition SCHEMA_LISTS :: "ustr list" where
  "SCHEMA_LISTS = [u ''allOf'', u ''anyOf'', u ''oneOf'', u ''prefixItems'']"

definition SCHEMA_VALUES :: "ustr list" where
  "SCHEMA_VALUES = [u ''items'', u ''not'', u ''if'', u ''then'', u ''else'', u ''contains'']"

definition lstrip_dots :: "ustr \<Rightarrow> ustr" where
  "lstrip_dots s = dropWhile (\<lambda>c. c = 46) s"

text \<open>The schema positions below a node, each with its path, in the order they are visited.\<close>

definition schema_children :: "(ustr \<times> pyval) list \<Rightarrow> ustr \<Rightarrow> (ustr \<times> pyval) list" where
  "schema_children node path =
     concat (map (\<lambda>key. case dict_get node key of
         Some (PObj m kvs) \<Rightarrow> map (\<lambda>(name, child). (lstrip_dots (path @ u ''.'' @ name), child)) kvs
       | _ \<Rightarrow> []) SCHEMA_MAPS)
     @ concat (map (\<lambda>key. case dict_get node key of
         Some (PArr Mut xs) \<Rightarrow>
           map (\<lambda>(i, child). (path @ u ''.'' @ key @ u ''['' @ nat_text i @ u '']'', child)) (enumerate 0 xs)
       | _ \<Rightarrow> []) SCHEMA_LISTS)
     @ concat (map (\<lambda>key. case dict_get node key of
         Some child \<Rightarrow> [(path @ u ''.'' @ key, child)]
       | None \<Rightarrow> []) SCHEMA_VALUES)"

definition open_object :: "(ustr \<times> pyval) list \<Rightarrow> bool" where
  "open_object node \<longleftrightarrow>
     (dict_get node (u ''type'') = Some (PStr (u ''object'')) \<or> dict_has node (u ''properties''))
     \<and> dict_get node (u ''additionalProperties'') \<noteq> Some (PBool False)"

lemma nodes_member: "(k, v) \<in> set kvs \<Longrightarrow> nodes v < nodes (PObj m kvs)"
  using member_le_sum_list [of "nodes v" "map snd (map (map_prod id nodes) kvs)"]
  by (force simp: less_Suc_eq_le)

lemma nodes_item: "v \<in> set xs \<Longrightarrow> nodes v < nodes (PArr m xs)"
  using member_le_sum_list [of "nodes v" "map nodes xs"] by (simp add: less_Suc_eq_le)

lemma nodes_schema_child:
  assumes "(p, child) \<in> set (schema_children node path)"
  shows "nodes child < nodes (PObj m node)"
proof -
  have get: "nodes v < nodes (PObj m node)" if "dict_get node key = Some v" for key v
    using nodes_member [OF dict_get_in_set [OF that]] .
  have obj: "nodes c < nodes (PObj m node)"
    if "dict_get node key = Some (PObj m' kvs)" "(n, c) \<in> set kvs" for key m' kvs n c
    using get [OF that(1)] nodes_member [OF that(2), of m'] by simp
  have arr: "nodes c < nodes (PObj m node)"
    if "dict_get node key = Some (PArr m' xs)" "c \<in> set xs" for key m' xs c
    using get [OF that(1)] nodes_item [OF that(2), of m'] by simp
  from assms show ?thesis
    unfolding schema_children_def
    by (auto simp del: nodes.simps split: option.splits pyval.splits mutability.splits if_splits
        simp: enumerate_eq_zip dest: obj [OF sym] get [OF sym] intro: arr [OF sym] set_zip_rightD)
qed

function first_open_object :: "pyval \<Rightarrow> ustr \<Rightarrow> ustr option" where
  "first_open_object (PObj m node) path =
     (if open_object node then Some path
      else first_some (\<lambda>(p, child). first_open_object child p) (schema_children node path))"
| "first_open_object PNone path = None"
| "first_open_object (PBool b) path = None"
| "first_open_object (PInt i) path = None"
| "first_open_object (PFloat f) path = None"
| "first_open_object (PStr s) path = None"
| "first_open_object (PArr m xs) path = None"
  by pat_completeness auto
termination
  by (relation "measure (\<lambda>(v, p). nodes v)") (auto simp del: nodes.simps dest: nodes_schema_child)

section \<open>Entries\<close>

record tool_entry =
  te_name :: ustr
  te_risk_tier :: risk_tier
  te_operation :: operation
  te_enabled :: bool
  te_schema_fingerprint :: ustr
  te_approved_for :: ustr
  te_input_schema :: ustr

text \<open>\<open>json.loads\<close> of a string without hooks.\<close>

definition loads_str :: "pyenv \<Rightarrow> ustr \<Rightarrow> unit jexc + pyval" where
  "loads_str env s =
     (if starts_with [0xFEFF] s then Inl JSONDecodeError
      else json_decode (\<lambda>ps. Inr (PObj Mut (dict_of ps))) constant_value (recursion_limit env) s)"

definition valid_input_schema :: "pyenv \<Rightarrow> schema_lib \<Rightarrow> ustr \<Rightarrow> unit result" where
  "valid_input_schema env lib v =
     (case loads_str env v of
        Inl _ \<Rightarrow> Inl ValidationError
      | Inr schema \<Rightarrow>
          bindR (raise_if (\<not> is_dict schema) ValidationError) (\<lambda>_.
          bindR (raise_if (first_open_object schema [] \<noteq> None) ValidationError) (\<lambda>_.
          bindR (raise_if (\<not> js_valid_schema lib schema) ValidationError) (\<lambda>_.
          raise_if (js_bad_annotation lib schema \<noteq> None) ValidationError))))"

definition approved_schema :: "pyenv \<Rightarrow> tool_entry \<Rightarrow> pyval" where
  "approved_schema env t = (case loads_str env (te_input_schema t) of Inr v \<Rightarrow> v | Inl _ \<Rightarrow> PNone)"

datatype server_state = Enabled | Quarantined | Disabled

record server_entry =
  se_id :: ustr
  se_executable :: ustr
  se_args :: "ustr list"
  se_cwd :: ustr
  se_env_allowlist :: "ustr list"
  se_expected_protocol_version :: ustr
  se_state :: server_state
  se_owner :: ustr
  se_review_date :: ustr
  se_tool :: "tool_entry list"

definition unique_names :: "tool_entry list \<Rightarrow> unit result" where
  "unique_names ts = raise_if (\<not> distinct (map te_name ts)) ValidationError"

text \<open>The only constructor of launch parameters.\<close>

definition child_config_of :: "server_entry \<Rightarrow> child_tuning \<Rightarrow> child_config" where
  "child_config_of s tuning =
     \<lparr> ch_startup_timeout_s = ch_startup_timeout_s tuning,
       ch_shutdown_grace_s = ch_shutdown_grace_s tuning,
       ch_stderr_capture_lines = ch_stderr_capture_lines tuning,
       ch_executable = se_executable s, ch_args = se_args s, ch_cwd = se_cwd s,
       ch_env_allowlist = se_env_allowlist s \<rparr>"

definition validate_document ::
    "pyenv \<Rightarrow> schema_lib \<Rightarrow> (pyval \<Rightarrow> server_entry list option) \<Rightarrow> pyval \<Rightarrow> server_entry list result" where
  "validate_document env lib typed raw =
     (case typed raw of
        None \<Rightarrow> Inl ValidationError
      | Some servers \<Rightarrow>
          bindR (forR (\<lambda>s. bindR (forR (valid_input_schema env lib \<circ> te_input_schema) (se_tool s))
                              (\<lambda>_. unique_names (se_tool s))) servers)
            (\<lambda>_. Inr servers))"

section \<open>Fingerprints\<close>

definition NORMALIZED_KEYS :: "ustr list" where
  "NORMALIZED_KEYS = [u ''description'', u ''inputSchema'', u ''outputSchema'', u ''annotations'']"

definition normalize :: "pyval \<Rightarrow> pyval result" where
  "normalize tool =
     (if obj_has tool (u ''input_schema'') \<or> obj_has tool (u ''output_schema'') then Inl ProgrammingError
      else case dict_get (items tool) (u ''name'') of
        None \<Rightarrow> Inl (PyError ''KeyError'')
      | Some name \<Rightarrow>
          Inr (PObj Mut (foldl (\<lambda>out key. case dict_get (items tool) key of
                 None \<Rightarrow> out
               | Some v \<Rightarrow> if v = PNone then out else dict_set out key v)
             [(u ''name'', name)] NORMALIZED_KEYS)))"

definition fingerprint :: "pyenv \<Rightarrow> pyval \<Rightarrow> ustr result" where
  "fingerprint env tool = bindR (normalize tool) (fingerprint_obj env)"

section \<open>The registry\<close>

record registry =
  reg_server :: server_entry
  reg_tools :: "(ustr \<times> tool_entry) list"
  reg_drift :: "(ustr \<times> reason_code) list"
  reg_sealed :: bool

definition Registry :: "server_entry \<Rightarrow> registry" where
  "Registry server =
     \<lparr> reg_server = server, reg_tools = dict_of (map (\<lambda>t. (te_name t, t)) (se_tool server)),
       reg_drift = [], reg_sealed = False \<rparr>"

definition load_registry ::
    "pyenv \<Rightarrow> schema_lib \<Rightarrow> (pyval \<Rightarrow> server_entry list option) \<Rightarrow> (ustr \<Rightarrow> toml_file) \<Rightarrow> ustr
      \<Rightarrow> registry result" where
  "load_registry env lib typed open_toml p =
     (case open_toml p of
        Toml raw \<Rightarrow>
          (case validate_document env lib typed raw of
             Inr [server] \<Rightarrow> Inr (Registry server)
           | _ \<Rightarrow> Inl ConfigError)
      | _ \<Rightarrow> Inl ConfigError)"

record drift_event =
  de_server_id :: ustr
  de_tool_name :: ustr
  de_reason_code :: ustr
  de_approved_fingerprint :: "ustr option"
  de_advertised_fingerprint :: "ustr option"

definition mk_drift_event :: "registry \<Rightarrow> ustr \<Rightarrow> reason_code \<Rightarrow> ustr option \<Rightarrow> ustr option \<Rightarrow> drift_event" where
  "mk_drift_event reg tool code approved actual =
     \<lparr> de_server_id = se_id (reg_server reg), de_tool_name = tool, de_reason_code = u (reason_value code),
       de_approved_fingerprint = approved, de_advertised_fingerprint = actual \<rparr>"

text \<open>\<open>str(adv.get("name", ""))\<close>.\<close>

definition advertised_name :: "pyenv \<Rightarrow> pyval \<Rightarrow> ustr" where
  "advertised_name env adv =
     (case dict_get (items adv) (u ''name'') of
        None \<Rightarrow> []
      | Some (PStr s) \<Rightarrow> s
      | Some v \<Rightarrow> str_of env v)"

fun verify_advertised :: "pyenv \<Rightarrow> registry \<Rightarrow> pyval list \<Rightarrow> (registry \<times> drift_event list) result" where
  "verify_advertised env reg [] = Inr (reg, [])"
| "verify_advertised env reg (adv # advs) =
     (let name = advertised_name env adv in
      case dict_get (reg_tools reg) name of
        None \<Rightarrow>
          mapR (\<lambda>(r, es). (r, mk_drift_event reg name REG_TOOL_UNKNOWN None None # es))
            (verify_advertised env reg advs)
      | Some approved \<Rightarrow>
          bindR (fingerprint env adv) (\<lambda>actual.
            if actual \<noteq> te_schema_fingerprint approved then
              mapR (\<lambda>(r, es). (r, mk_drift_event reg name REG_SCHEMA_DRIFT
                                   (Some (te_schema_fingerprint approved)) (Some actual) # es))
                (verify_advertised env
                   (reg \<lparr> reg_drift := dict_set (reg_drift reg) name REG_SCHEMA_DRIFT \<rparr>) advs)
            else verify_advertised env reg advs))"

text \<open>The approved names that were not advertised; the source visits them in set order.\<close>

definition unadvertised :: "pyenv \<Rightarrow> registry \<Rightarrow> pyval list \<Rightarrow> (ustr \<times> tool_entry) list" where
  "unadvertised env reg advs =
     filter (\<lambda>(n, t). n \<notin> set (map (advertised_name env) advs)) (reg_tools reg)"

definition verify_schemas :: "pyenv \<Rightarrow> registry \<Rightarrow> pyval list \<Rightarrow> (registry \<times> drift_event list) result" where
  "verify_schemas env reg advs =
     mapR (\<lambda>(r, es).
        (let gone = unadvertised env reg advs in
         (r \<lparr> reg_drift := foldl (\<lambda>d (n, t). dict_set d n REG_TOOL_UNKNOWN) (reg_drift r) gone,
              reg_sealed := True \<rparr>,
          es @ map (\<lambda>(n, t). mk_drift_event reg n REG_TOOL_UNKNOWN (Some (te_schema_fingerprint t)) None) gone)))
       (verify_advertised env reg advs)"

definition quarantined :: "registry \<Rightarrow> (ustr \<times> reason_code) list" where
  "quarantined reg = reg_drift reg"

definition callable_reason :: "registry \<Rightarrow> tool_entry \<Rightarrow> reason_code option" where
  "callable_reason reg tool =
     (if se_state (reg_server reg) \<noteq> Enabled then Some REG_SERVER_UNAVAILABLE
      else if \<not> reg_sealed reg then Some REG_SCHEMA_UNVERIFIED
      else case dict_get (reg_drift reg) (te_name tool) of
        Some drifted \<Rightarrow>
          Some (if drifted = REG_SCHEMA_DRIFT then REG_TOOL_QUARANTINED else REG_TOOL_UNKNOWN)
      | None \<Rightarrow> if \<not> te_enabled tool then Some REG_TOOL_UNKNOWN else None)"

definition visible_tools ::
    "registry \<Rightarrow> authz_context \<Rightarrow> (authz_context \<Rightarrow> tool_entry \<Rightarrow> bool) \<Rightarrow> tool_entry list" where
  "visible_tools reg ctx could_ever_allow =
     filter (\<lambda>t. callable_reason reg t = None \<and> could_ever_allow ctx t) (map snd (reg_tools reg))"

definition validate_arguments ::
    "pyenv \<Rightarrow> sdk \<Rightarrow> schema_lib \<Rightarrow> tool_entry \<Rightarrow> canonical_request \<Rightarrow> unit result" where
  "validate_arguments env s lib tool req =
     (let arguments = thaw (req_arguments req); schema = approved_schema env tool in
      case js_first_error lib schema arguments of
        Some keyword \<Rightarrow>
          Inl (reg_deny (if keyword = u ''additionalProperties'' then REG_ARGS_UNKNOWN_FIELD
                         else REG_ARGS_INVALID))
      | None \<Rightarrow> check_param_headers s schema arguments (req_param_headers req))"

definition LIST_METHOD :: ustr where
  "LIST_METHOD = u ''tools/list''"

definition resolve ::
    "pyenv \<Rightarrow> sdk \<Rightarrow> schema_lib \<Rightarrow> canonical_request \<Rightarrow> authz_context \<Rightarrow> registry \<Rightarrow> resolved_target result" where
  "resolve env s lib req ctx reg =
     (if se_state (reg_server reg) \<noteq> Enabled then Inl (reg_deny REG_SERVER_UNAVAILABLE)
      else if req_method req = LIST_METHOD then
        (if \<not> reg_sealed reg then Inl (reg_deny REG_SCHEMA_UNVERIFIED)
         else ResolvedTarget (se_id (reg_server reg)) None None R0 Op_read)
      else case req_tool_name req of
        None \<Rightarrow> Inl (reg_deny REG_TOOL_UNKNOWN)
      | Some name \<Rightarrow>
          (case dict_get (reg_tools reg) name of
             None \<Rightarrow> Inl (reg_deny REG_TOOL_UNKNOWN)
           | Some tool \<Rightarrow>
               (case callable_reason reg tool of
                  Some reason \<Rightarrow> Inl (reg_deny reason)
                | None \<Rightarrow>
                    bindR (validate_arguments env s lib tool req) (\<lambda>_.
                    ResolvedTarget (se_id (reg_server reg)) (Some (te_name tool))
                      (Some (te_schema_fingerprint tool)) (te_risk_tier tool) (te_operation tool)))))"

definition registry_audit_fields :: "resolved_target \<Rightarrow> (ustr \<times> pyval) list" where
  "registry_audit_fields tgt =
     [(u ''server_id'', PStr (tgt_server_id tgt)),
      (u ''tool_name'', case tgt_tool_name tgt of None \<Rightarrow> PNone | Some n \<Rightarrow> PStr n),
      (u ''schema_fingerprint'', case tgt_schema_fingerprint tgt of None \<Rightarrow> PNone | Some n \<Rightarrow> PStr n),
      (u ''risk_tier'', PStr (tier_value (tgt_risk_tier tgt))),
      (u ''operation'', PStr (operation_value (tgt_operation tgt)))]"

section \<open>Well-formed registries\<close>

definition wf_registry :: "registry \<Rightarrow> bool" where
  "wf_registry reg \<longleftrightarrow>
     distinct_keys (reg_tools reg) \<and> (\<forall>(n, t) \<in> set (reg_tools reg). te_name t = n)"

lemma dict_of_subset: "set (dict_of ps) \<subseteq> set ps"
proof -
  have "set (foldl (\<lambda>d (k, v). dict_set d k v) d ps) \<subseteq> set d \<union> set ps" for d :: "('a \<times> 'b) list"
  proof (induction ps arbitrary: d)
    case (Cons p ps)
    obtain k v where p: "p = (k, v)" by (cases p)
    show ?case using Cons.IH [of "dict_set d k v"] set_dict_set_subset [of d k v] p by auto
  qed simp
  from this [of "[]"] show ?thesis by (simp add: dict_of_def)
qed

lemma wf_Registry: "wf_registry (Registry server)"
  using dict_of_subset [of "map (\<lambda>t. (te_name t, t)) (se_tool server)"]
  by (auto simp: wf_registry_def Registry_def distinct_dict_of)

lemma wf_registryD: "wf_registry reg \<Longrightarrow> dict_get (reg_tools reg) n = Some t \<Longrightarrow> te_name t = n"
  by (auto simp: wf_registry_def dest: dict_get_in_set)

lemma wf_registry_get: "wf_registry reg \<Longrightarrow> (n, t) \<in> set (reg_tools reg) \<Longrightarrow> dict_get (reg_tools reg) n = Some t"
  by (auto simp: wf_registry_def dict_get_def)

section \<open>Drift detection\<close>

definition mismatched :: "pyenv \<Rightarrow> registry \<Rightarrow> pyval list \<Rightarrow> ustr \<Rightarrow> bool" where
  "mismatched env reg advs n \<longleftrightarrow>
     (case dict_get (reg_tools reg) n of
        None \<Rightarrow> False
      | Some t \<Rightarrow> list_ex (\<lambda>adv. advertised_name env adv = n
                     \<and> fingerprint env adv \<noteq> Inr (te_schema_fingerprint t)) advs)"

lemma verify_advertised_drift:
  "verify_advertised env reg advs = Inr (reg', es) \<Longrightarrow>
     \<exists>d. reg' = reg \<lparr> reg_drift := d \<rparr>
       \<and> (\<forall>n. dict_get d n = (if mismatched env reg advs n then Some REG_SCHEMA_DRIFT
                               else dict_get (reg_drift reg) n))"
proof (induction env reg advs arbitrary: reg' es rule: verify_advertised.induct)
  case (1 env reg)
  then show ?case
    by (auto simp: mismatched_def split: option.splits intro: exI [of _ "reg_drift reg"])
next
  case (2 env reg adv advs)
  let ?n = "advertised_name env adv"
  have m: "mismatched env reg (adv # advs) k \<longleftrightarrow>
      (k = ?n \<and> (\<exists>t. dict_get (reg_tools reg) k = Some t \<and> fingerprint env adv \<noteq> Inr (te_schema_fingerprint t)))
      \<or> mismatched env reg advs k" for k
    by (auto simp: mismatched_def split: option.splits)
  show ?case
  proof (cases "dict_get (reg_tools reg) ?n")
    case None
    with "2.prems" obtain es' where "verify_advertised env reg advs = Inr (reg', es')"
      by (auto simp: Let_def mapR_Inr_iff)
    from "2.IH"(1) [OF refl None this] None show ?thesis by (auto simp: m)
  next
    case (Some t)
    with "2.prems" obtain h where h: "fingerprint env adv = Inr h"
      by (auto simp: Let_def bindR_Inr_iff)
    show ?thesis
    proof (cases "h = te_schema_fingerprint t")
      case True
      with "2.prems" Some h have "verify_advertised env reg advs = Inr (reg', es)"
        by (auto simp: Let_def)
      from "2.IH"(3) [OF refl Some h _ this] True Some h show ?thesis by (auto simp: m)
    next
      case False
      let ?r = "reg \<lparr> reg_drift := dict_set (reg_drift reg) ?n REG_SCHEMA_DRIFT \<rparr>"
      from False "2.prems" Some h obtain es' where v: "verify_advertised env ?r advs = Inr (reg', es')"
        by (auto simp: Let_def mapR_Inr_iff)
      have "mismatched env ?r advs k = mismatched env reg advs k" for k
        by (simp add: mismatched_def)
      with "2.IH"(2) [OF refl Some h False v] obtain d where d: "reg' = ?r \<lparr> reg_drift := d \<rparr>"
        "\<forall>k. dict_get d k = (if mismatched env reg advs k then Some REG_SCHEMA_DRIFT
              else dict_get (reg_drift ?r) k)" by auto
      show ?thesis
        using d Some h False by (intro exI [of _ d]) (auto simp: m)
    qed
  qed
qed

lemma dict_get_fold_const:
  "dict_get (foldl (\<lambda>d (n, t). dict_set d n c) d ps) k
     = (if k \<in> set (map fst ps) then Some c else dict_get d k)"
  by (induction ps arbitrary: d) auto

text \<open>
  C15: what start-up verification leaves callable. After the upstream's tools were compared,
  an approved tool is callable exactly when the server is enabled, the tool was advertised,
  every advertisement under its name has the approved fingerprint, and it is enabled; a
  mismatch quarantines it, and a missing one makes it unknown.
\<close>

theorem drift_quarantines:
  assumes "verify_schemas env (Registry server) advs = Inr (reg, es)"
    and "dict_get (reg_tools (Registry server)) n = Some t"
  shows "callable_reason reg t =
    (if se_state server \<noteq> Enabled then Some REG_SERVER_UNAVAILABLE
     else if n \<notin> set (map (advertised_name env) advs) then Some REG_TOOL_UNKNOWN
     else if mismatched env (Registry server) advs n then Some REG_TOOL_QUARANTINED
     else if \<not> te_enabled t then Some REG_TOOL_UNKNOWN else None)"
proof -
  let ?reg = "Registry server"
  obtain d where r: "reg = ?reg \<lparr> reg_drift := foldl (\<lambda>d (n, t). dict_set d n REG_TOOL_UNKNOWN) d
        (unadvertised env ?reg advs), reg_sealed := True \<rparr>"
      and d: "\<forall>k. dict_get d k = (if mismatched env ?reg advs k then Some REG_SCHEMA_DRIFT
          else dict_get (reg_drift ?reg) k)"
    using assms(1) verify_advertised_drift [of env ?reg advs]
    by (fastforce simp: verify_schemas_def mapR_Inr_iff Let_def)
  have "dict_get (reg_drift ?reg) n = None" by (simp add: Registry_def dict_get_def)
  moreover have "n \<in> set (map fst (unadvertised env ?reg advs)) \<longleftrightarrow> n \<notin> set (map (advertised_name env) advs)"
    using dict_get_in_set [OF assms(2)] by (force simp: unadvertised_def)
  moreover have "te_name t = n" by (rule wf_registryD [OF wf_Registry assms(2)])
  moreover have "reg_server ?reg = server" by (simp add: Registry_def)
  ultimately show ?thesis
    using d unfolding r callable_reason_def by (simp add: dict_get_fold_const)
qed

section \<open>Resolution\<close>

definition target_of :: "registry \<Rightarrow> tool_entry \<Rightarrow> resolved_target" where
  "target_of reg t =
     \<lparr> tgt_server_id = se_id (reg_server reg), tgt_tool_name = Some (te_name t),
       tgt_schema_fingerprint = Some (te_schema_fingerprint t), tgt_risk_tier = te_risk_tier t,
       tgt_operation = te_operation t \<rparr>"

text \<open>A call that the registry lets through, and what it resolves to.\<close>

definition approved_call ::
    "pyenv \<Rightarrow> sdk \<Rightarrow> schema_lib \<Rightarrow> registry \<Rightarrow> canonical_request \<Rightarrow> tool_entry \<Rightarrow> bool" where
  "approved_call env s lib reg req t \<longleftrightarrow>
     req_tool_name req = Some (te_name t) \<and> dict_get (reg_tools reg) (te_name t) = Some t
   \<and> te_enabled t \<and> dict_get (reg_drift reg) (te_name t) = None
   \<and> js_first_error lib (approved_schema env t) (thaw (req_arguments req)) = None
   \<and> sdk_validate_param_headers s (approved_schema env t) (thaw (req_arguments req)) (req_param_headers req) = None"

text \<open>
  C14: the default-deny surface, both ways (REG-001, REG-003, REG-009, REG-012). A request resolves
  exactly when the server is enabled and verified and it is a listing, which resolves to the R0
  target that names no tool, or a call of a tool that is written in the registry under that name,
  enabled and not quarantined, whose approved schema accepts the thawed arguments and agrees with
  the mirrored headers; the target then carries the registry's own tier, operation and
  fingerprint, whatever the upstream advertises. Every other request is denied with a registry
  code, or with \<open>PROTO_HEADER_BODY_PARAM_MISMATCH\<close> when only those headers disagree.
\<close>

theorem resolve_default_deny:
  assumes "wf_registry reg"
  shows "(resolve env s lib req ctx reg = Inr tgt \<longleftrightarrow>
      se_state (reg_server reg) = Enabled \<and> reg_sealed reg \<and>
      (if req_method req = LIST_METHOD
       then tgt = \<lparr> tgt_server_id = se_id (reg_server reg), tgt_tool_name = None, tgt_schema_fingerprint = None,
                    tgt_risk_tier = R0, tgt_operation = Op_read \<rparr>
       else \<exists>t. approved_call env s lib reg req t \<and> tgt = target_of reg t))
    \<and> (\<forall>e. resolve env s lib req ctx reg = Inl e \<longrightarrow>
        (\<exists>c. e = reg_deny c)
      \<or> e = proto_deny PROTO_HEADER_BODY_PARAM_MISMATCH
        \<and> (\<exists>t. approved_call env (s \<lparr> sdk_validate_param_headers := \<lambda>_ _ _. None \<rparr>) lib reg req t))"
proof
  have n: "te_name t = name" if "dict_get (reg_tools reg) name = Some t" for name t
    using wf_registryD [OF assms that] .
  show "resolve env s lib req ctx reg = Inr tgt \<longleftrightarrow>
      se_state (reg_server reg) = Enabled \<and> reg_sealed reg \<and>
      (if req_method req = LIST_METHOD
       then tgt = \<lparr> tgt_server_id = se_id (reg_server reg), tgt_tool_name = None, tgt_schema_fingerprint = None,
                    tgt_risk_tier = R0, tgt_operation = Op_read \<rparr>
       else \<exists>t. approved_call env s lib reg req t \<and> tgt = target_of reg t)"
    unfolding approved_call_def resolve_def
    by (auto simp: ResolvedTarget_Inr_iff bindR_Inr_iff callable_reason_def target_of_def validate_arguments_def
        check_param_headers_def raise_if_Inr_iff Let_def dest: n split: if_splits option.splits)
  show "\<forall>e. resolve env s lib req ctx reg = Inl e \<longrightarrow> (\<exists>c. e = reg_deny c)
      \<or> e = proto_deny PROTO_HEADER_BODY_PARAM_MISMATCH
        \<and> (\<exists>t. approved_call env (s \<lparr> sdk_validate_param_headers := \<lambda>_ _ _. None \<rparr>) lib reg req t)"
    unfolding approved_call_def resolve_def
    by (auto simp: ResolvedTarget_def bindR_Inl_iff callable_reason_def validate_arguments_def
        check_param_headers_def raise_if_Inl_iff Let_def dest: n split: if_splits option.splits)
qed

lemma resolve_tool:
  assumes "dict_get (reg_tools reg) (te_name t) = Some t"
    and "req_method req \<noteq> LIST_METHOD" "req_tool_name req = Some (te_name t)"
  shows "resolve env s lib req ctx reg =
    (case callable_reason reg t of
       Some reason \<Rightarrow> Inl (reg_deny reason)
     | None \<Rightarrow> mapR (\<lambda>_. target_of reg t) (validate_arguments env s lib t req))"
  using assms
  by (auto simp: resolve_def callable_reason_def target_of_def ResolvedTarget_def bindR_def mapR_def
      split: option.splits sum.splits)

text \<open>
  C29: discovery and calls agree (REG-011). A tool listed for a principal is one the principal
  could be allowed to use and whose calls fail at this stage only on their arguments; a tool
  hidden although the principal could be allowed it is denied on every call, with the
  registry's reason.
\<close>

theorem discovery_agrees_with_calls:
  assumes "wf_registry reg" "dict_get (reg_tools reg) (te_name t) = Some t"
    and "req_method req \<noteq> LIST_METHOD" "req_tool_name req = Some (te_name t)"
  shows "if t \<in> set (visible_tools reg ctx allow)
    then allow ctx t
      \<and> resolve env s lib req ctx' reg = mapR (\<lambda>_. target_of reg t) (validate_arguments env s lib t req)
    else \<not> allow ctx t \<or> (\<exists>reason. resolve env s lib req ctx' reg = Inl (reg_deny reason))"
proof -
  have "t \<in> set (map snd (reg_tools reg))" using dict_get_in_set [OF assms(2)] by force
  then show ?thesis
    unfolding resolve_tool [OF assms(2-4)] by (auto simp: visible_tools_def split: option.splits)
qed

section \<open>What a fingerprint pins\<close>

definition pinned :: "pyval \<Rightarrow> ustr \<Rightarrow> pyval option" where
  "pinned tool key =
     (case dict_get (items tool) key of
        Some v \<Rightarrow> if v = PNone \<and> key \<noteq> u ''name'' then None else Some v
      | None \<Rightarrow> None)"

lemma dict_get_fold_present:
  "distinct keys \<Longrightarrow> dict_get (foldl (\<lambda>out key. case dict_get d key of None \<Rightarrow> out
       | Some v \<Rightarrow> if v = PNone then out else dict_set out key v) out keys) k
     = (if k \<in> set keys \<and> dict_get d k \<notin> {None, Some PNone} then dict_get d k else dict_get out k)"
  by (induction keys arbitrary: out) (auto split: option.splits)

lemma NORMALIZED_KEYS: "distinct NORMALIZED_KEYS" "u ''name'' \<notin> set NORMALIZED_KEYS"
  by (simp_all add: NORMALIZED_KEYS_def u_eq_iff)

lemma normalize_get:
  assumes "normalize tool = Inr doc" "key \<in> insert (u ''name'') (set NORMALIZED_KEYS)"
  shows "dict_get (items doc) key = pinned tool key"
  using assms NORMALIZED_KEYS
  by (auto simp: normalize_def pinned_def dict_get_fold_present split: if_splits option.splits)
    (auto simp: dict_get_def)

lemma fold_present_plain:
  assumes "distinct_keys out" "\<forall>(k, v) \<in> set out. plain_json v" "\<forall>(k, v) \<in> set d. plain_json v"
  shows "plain_json (PObj Mut (foldl (\<lambda>out key. case dict_get d key of None \<Rightarrow> out
       | Some v \<Rightarrow> if v = PNone then out else dict_set out key v) out keys))"
  using assms
proof (induction keys arbitrary: out)
  case Nil
  then show ?case by (auto simp: list_all_iff)
next
  case (Cons k keys)
  show ?case
  proof (cases "dict_get d k")
    case None
    then show ?thesis using Cons.IH [OF Cons.prems] by simp
  next
    case (Some v)
    have "plain_json v" using dict_get_in_set [OF Some] Cons.prems(3) by auto
    then have "\<forall>(k, v) \<in> set (dict_set out k v). plain_json v"
      using Cons.prems(2) set_dict_set_subset [of out k v] by auto
    then show ?thesis
      using Some Cons.IH [OF Cons.prems] Cons.IH [OF distinct_dict_set [OF Cons.prems(1)] _ Cons.prems(3)]
      by simp
  qed
qed

lemma normalize_plain:
  assumes "normalize tool = Inr doc" "plain_json tool"
  shows "plain_json doc \<and> (\<exists>kvs. doc = PObj Mut kvs \<and> distinct_keys kvs)"
proof -
  have items: "\<forall>(k, v) \<in> set (items tool). plain_json v"
    using assms(2) by (cases tool) (auto simp: items_def list_all_iff)
  obtain name where name: "dict_get (items tool) (u ''name'') = Some name"
    and doc: "doc = PObj Mut (foldl (\<lambda>out key. case dict_get (items tool) key of None \<Rightarrow> out
         | Some v \<Rightarrow> if v = PNone then out else dict_set out key v) [(u ''name'', name)] NORMALIZED_KEYS)"
    using assms(1) by (auto simp: normalize_def split: if_splits option.splits)
  have "plain_json name" using dict_get_in_set [OF name] items by auto
  then have "plain_json doc" unfolding doc by (intro fold_present_plain) (auto simp: items)
  with doc show ?thesis by simp
qed

text \<open>
  a fingerprint pins the whole description. Two advertised tools with the same fingerprint
  agree, up to SHA-256 collisions and the order of keys, on the name, the description, both
  schemas and the annotations, including which of these are present; so an added or changed
  annotation is drift.
\<close>

lemma fingerprint_pins:
  assumes "plain_json a" "plain_json b" "normalize a = Inr da" "normalize b = Inr db"
    and "sha_separates env da db"
    and "fingerprint env a = Inr h" "fingerprint env b = Inr h"
    and "key \<in> insert (u ''name'') (set NORMALIZED_KEYS)"
  shows "map_option sort_keys (pinned a key) = map_option sort_keys (pinned b key)"
proof -
  have "\<exists>k. hash_obj env da = Inr k \<and> hash_obj env db = Inr k"
    using assms(3,4,6,7) by (auto simp: fingerprint_def fingerprint_obj_def mapR_Inr_iff)
  then obtain bs where "canonical_json env da = Inr bs" "canonical_json env db = Inr bs"
    using hash_obj_eqD [OF assms(5)] by blast
  with canonical_json_inj normalize_plain assms(1-4) have eq: "sort_keys da = sort_keys db" by blast
  have "map_option sort_keys (dict_get (items d) key) = dict_get (items (sort_keys d)) key"
    if "plain_json d \<and> (\<exists>kvs. d = PObj Mut kvs \<and> distinct_keys kvs)" for d
    using that dict_get_sort_keys by (metis items_PObj)
  with eq normalize_plain assms(1-4) have "map_option sort_keys (dict_get (items da) key)
      = map_option sort_keys (dict_get (items db) key)" by metis
  then show ?thesis using assms(3,4,8) by (simp add: normalize_get)
qed

section \<open>Examples\<close>

definition demo_lib :: schema_lib where
  "demo_lib = \<lparr> js_valid_schema = (\<lambda>_. True), js_first_error = (\<lambda>_ _. None),
     js_bad_annotation = (\<lambda>_. None) \<rparr>"

definition demo_advert :: pyval where
  "demo_advert = PObj Mut [(u ''name'', PStr (u ''read'')), (u ''description'', PNone)]"

definition demo_tool :: tool_entry where
  "demo_tool = \<lparr> te_name = u ''read'', te_risk_tier = R1, te_operation = Op_read, te_enabled = True,
     te_schema_fingerprint = u ''v2:{\"name\":\"read\"}'', te_approved_for = [],
     te_input_schema = u ''{\"type\":\"object\",\"additionalProperties\":false}'' \<rparr>"

definition demo_server :: server_entry where
  "demo_server = \<lparr> se_id = u ''fs'', se_executable = u ''python'', se_args = [], se_cwd = u ''.'',
     se_env_allowlist = [u ''PATH''], se_expected_protocol_version = u ''v'', se_state = Enabled,
     se_owner = u ''o'', se_review_date = u ''d'', se_tool = [demo_tool] \<rparr>"

definition demo_registry :: registry where
  "demo_registry = Registry demo_server \<lparr> reg_sealed := True \<rparr>"

definition demo_call :: canonical_request where
  "demo_call = demo_req \<lparr> req_method := u ''tools/call'', req_tool_name := Some (u ''read'') \<rparr>"

definition demo_ctx :: authz_context where
  "demo_ctx = resolve_identity demo_req (cfg_identity demo_config)"

lemma demo_verify: "verify_schemas plain_env (Registry demo_server) [demo_advert] = Inr (demo_registry, [])"
  by code_simp

lemma demo_tool_get: "dict_get (reg_tools (Registry demo_server)) (u ''read'') = Some demo_tool"
  by code_simp

lemma demo_registry_wf: "wf_registry demo_registry"
  using wf_Registry [of demo_server] by (simp add: demo_registry_def wf_registry_def)

lemma demo_resolve:
  "resolve plain_env demo_sdk demo_lib demo_call demo_ctx demo_registry = Inr (target_of demo_registry demo_tool)"
  by code_simp

theorem drift_quarantines_witness: "callable_reason demo_registry demo_tool = None"
  unfolding drift_quarantines [OF demo_verify demo_tool_get] by code_simp

theorem resolve_default_deny_witness:
  "reg_sealed demo_registry \<and> (\<exists>t. approved_call plain_env demo_sdk demo_lib demo_registry demo_call t
     \<and> target_of demo_registry demo_tool = target_of demo_registry t)"
proof -
  have "req_method demo_call \<noteq> LIST_METHOD" by code_simp
  then show ?thesis
    using resolve_default_deny [OF demo_registry_wf, of plain_env demo_sdk demo_lib demo_call demo_ctx
        "target_of demo_registry demo_tool"] demo_resolve by simp
qed

theorem discovery_agrees_with_calls_witness:
  "resolve plain_env demo_sdk demo_lib demo_call demo_ctx demo_registry
     = mapR (\<lambda>_. target_of demo_registry demo_tool)
         (validate_arguments plain_env demo_sdk demo_lib demo_tool demo_call)"
proof -
  have a: "dict_get (reg_tools demo_registry) (te_name demo_tool) = Some demo_tool" by code_simp
  have b: "req_method demo_call \<noteq> LIST_METHOD" by code_simp
  have c: "req_tool_name demo_call = Some (te_name demo_tool)" by code_simp
  have d: "demo_tool \<in> set (visible_tools demo_registry demo_ctx (\<lambda>_ _. True))" by code_simp
  from discovery_agrees_with_calls [OF demo_registry_wf a b c, of demo_ctx "\<lambda>_ _. True"] d
  show ?thesis by simp
qed

lemma fingerprint_pins_witness:
  "map_option sort_keys (pinned demo_advert (u ''annotations''))
     = map_option sort_keys (pinned (PObj Mut [(u ''name'', PStr (u ''read''))]) (u ''annotations''))"
proof -
  let ?d = "PObj Mut [(u ''name'', PStr (u ''read''))]"
  have "normalize demo_advert = Inr ?d" "normalize ?d = Inr ?d" by code_simp+
  moreover have "plain_json demo_advert" "plain_json ?d" by code_simp+
  moreover have "sha_separates plain_env ?d ?d" by code_simp
  moreover have "fingerprint plain_env demo_advert = Inr (u ''v2:{\"name\":\"read\"}'')"
    "fingerprint plain_env ?d = Inr (u ''v2:{\"name\":\"read\"}'')" by code_simp+
  moreover have "u ''annotations'' \<in> insert (u ''name'') (set NORMALIZED_KEYS)"
    by (simp add: NORMALIZED_KEYS_def)
  ultimately show ?thesis using fingerprint_pins by blast
qed

text \<open>
  the closure gate has gaps. An approved schema whose \<open>opts\<close> property has the type list
  \<open>["object", "null"]\<close>, or no type at all, is not found open, although it admits any object
  there.
\<close>

definition loose_schema :: "pyval \<Rightarrow> pyval" where
  "loose_schema sub =
     PObj Mut [(u ''type'', PStr (u ''object'')), (u ''additionalProperties'', PBool False),
       (u ''properties'', PObj Mut [(u ''opts'', sub)])]"

lemma closure_gate_gap:
  "first_open_object (loose_schema (PObj Mut [(u ''type'', PArr Mut [PStr (u ''object''), PStr (u ''null'')])])) []
     = None
   \<and> first_open_object (loose_schema (PObj Mut [])) [] = None
   \<and> first_open_object (loose_schema (PObj Mut [(u ''type'', PStr (u ''object''))])) [] = Some (u ''opts'')"
  by (intro conjI; code_simp)

end
