(* ===== verification/Rego_Policy.thy ===== *)
theory Rego_Policy
  imports Registry
begin

text \<open>
  The policy bundle \<open>policies/rego/gateway\<close> and the input document the broker builds for it
  (\<open>gateway/policy.py\<close>, \<open>build_input\<close>). A Rego rule is a function that is undefined, has a
  value, or conflicts (two bodies with different values, which OPA answers with an error);
  the lemmas show that no rule of this bundle conflicts, give the decision in closed form,
  and relate it to the discovery question.
\<close>

section \<open>The input document\<close>

record policy_input =
  in_request_id :: ustr
  in_protocol_version :: ustr
  in_transport :: ustr
  in_method :: ustr
  in_principal_id :: ustr
  in_auth_method :: ustr
  in_assurance :: ustr
  in_roles :: "ustr list"
  in_environment :: ustr
  in_client_id :: ustr
  in_server_id :: ustr
  in_tool_name :: "ustr option"
  in_schema_fingerprint :: "ustr option"
  in_risk_tier :: risk_tier
  in_canonical_path :: ustr
  in_root :: ustr
  in_classification :: ustr
  in_exists :: bool
  in_arg_hash :: ustr
  in_operation :: ustr
  in_policy_revision :: ustr

definition build_input ::
    "canonical_request \<Rightarrow> authz_context \<Rightarrow> resolved_target \<Rightarrow> derived_attributes \<Rightarrow> ustr \<Rightarrow> policy_input" where
  "build_input req ctx tgt drv revision =
     \<lparr> in_request_id = req_id req, in_protocol_version = req_protocol_version req,
       in_transport = ctx_transport ctx, in_method = req_method req,
       in_principal_id = ctx_principal ctx, in_auth_method = ctx_auth_method ctx,
       in_assurance = ctx_assurance ctx, in_roles = ctx_roles ctx,
       in_environment = ctx_environment ctx, in_client_id = ctx_client_id ctx,
       in_server_id = tgt_server_id tgt, in_tool_name = tgt_tool_name tgt,
       in_schema_fingerprint = tgt_schema_fingerprint tgt, in_risk_tier = tgt_risk_tier tgt,
       in_canonical_path = drv_canonical_path drv, in_root = drv_root drv,
       in_classification = drv_classification drv, in_exists = drv_exists drv,
       in_arg_hash = drv_arg_hash drv, in_operation = operation_value (drv_operation drv),
       in_policy_revision = revision \<rparr>"

text \<open>\<open>data.config\<close>, as \<open>publish_config\<close> writes it; one entry per root name.\<close>

record policy_data =
  data_role_vocabulary :: "ustr list"
  data_roots :: "(ustr \<times> root_config) list"

definition config_data :: "config \<Rightarrow> policy_data" where
  "config_data cfg =
     \<lparr> data_role_vocabulary = idc_role_vocabulary (cfg_identity cfg),
       data_roots = dict_of (map (\<lambda>r. (root_name r, r)) (can_roots (cfg_canonicalize cfg))) \<rparr>"

text \<open>\<open>data.config.roots[root][key]\<close> is defined and not false.\<close>

definition root_flag :: "root_config \<Rightarrow> ustr \<Rightarrow> bool" where
  "root_flag r key =
     (if key = u ''read'' then root_read r
      else if key = u ''create'' then root_create r
      else if key = u ''overwrite'' then root_overwrite r
      else if key = u ''append'' then root_append r
      else if key = u ''rename'' then root_rename r
      else if key = u ''delete'' then root_delete r
      else key = u ''classification'')"

definition root_value :: "policy_data \<Rightarrow> ustr \<Rightarrow> ustr \<Rightarrow> bool" where
  "root_value d root key = (case dict_get (data_roots d) root of None \<Rightarrow> False | Some r \<Rightarrow> root_flag r key)"

section \<open>grants.rego\<close>

definition grants :: "(ustr \<times> (ustr \<times> ustr list) list) list" where
  "grants =
     [(u ''intern'', [(u ''public'', [u ''read''])]),
      (u ''developer'',
        [(u ''public'', [u ''read'']),
         (u ''workspace'', [u ''read'', u ''create'', u ''overwrite'', u ''append'', u ''delete''])]),
      (u ''auditor'',
        [(u ''public'', [u ''read'']), (u ''workspace'', [u ''read'']),
         (u ''confidential'', [u ''read'']), (u ''production'', [u ''read''])])]"

definition role_roots :: "ustr \<Rightarrow> (ustr \<times> ustr list) list" where
  "role_roots role = (case dict_get grants role of None \<Rightarrow> [] | Some rs \<Rightarrow> rs)"

definition prohibited_root :: "ustr \<Rightarrow> bool" where
  "prohibited_root root \<longleftrightarrow> root = u ''traps''"

definition prohibited_classification :: "ustr \<Rightarrow> bool" where
  "prohibited_classification c \<longleftrightarrow> c = u ''secret''"

definition roles_without_grants :: "policy_data \<Rightarrow> ustr list" where
  "roles_without_grants d = filter (\<lambda>role. \<not> dict_has grants role) (data_role_vocabulary d)"

definition grants_without_roles :: "policy_data \<Rightarrow> ustr list" where
  "grants_without_roles d = filter (\<lambda>role. role \<notin> set (data_role_vocabulary d)) (map fst grants)"

definition granted_pairs :: "(ustr \<times> ustr) list" where
  "granted_pairs = concat (map (\<lambda>(role, roots). map (\<lambda>(root, ops). (role, root)) roots) grants)"

definition grants_naming_unknown_roots :: "policy_data \<Rightarrow> (ustr \<times> ustr) list" where
  "grants_naming_unknown_roots d = filter (\<lambda>(role, root). \<not> dict_has (data_roots d) root) granted_pairs"

definition grants_on_prohibited_roots :: "policy_data \<Rightarrow> (ustr \<times> ustr) list" where
  "grants_on_prohibited_roots d =
     filter (\<lambda>(role, root). prohibited_root root
        \<or> (case dict_get (data_roots d) root of None \<Rightarrow> False
           | Some r \<Rightarrow> prohibited_classification (root_classification r))) granted_pairs"

section \<open>decision.rego and prohibitions.rego\<close>

datatype 'a rego = Undef | Val 'a | Conflict

text \<open>
  A complete rule with several bodies. A body is undefined when its conditions fail; the values
  of the bodies that succeed must agree, and a conflict in a rule that a body evaluates is a
  conflict of the rule.
\<close>

definition rego_values :: "'a rego \<Rightarrow> 'a list" where
  "rego_values r = (case r of Val v \<Rightarrow> [v] | _ \<Rightarrow> [])"

definition complete :: "'a rego list \<Rightarrow> 'a rego" where
  "complete bs =
     (if Conflict \<in> set bs then Conflict
      else case remdups (concat (map rego_values bs)) of [] \<Rightarrow> Undef | [v] \<Rightarrow> Val v | _ \<Rightarrow> Conflict)"

definition body :: "bool \<Rightarrow> 'a rego \<Rightarrow> 'a rego" where
  "body c r = (if c then r else Undef)"

text \<open>A value computed from another rule's value.\<close>

definition rego_map :: "('a \<Rightarrow> 'b) \<Rightarrow> 'a rego \<Rightarrow> 'b rego" where
  "rego_map f r = (case r of Undef \<Rightarrow> Undef | Val v \<Rightarrow> Val (f v) | Conflict \<Rightarrow> Conflict)"

definition is_discovery :: "policy_input \<Rightarrow> bool" where
  "is_discovery i \<longleftrightarrow> in_tool_name i = None"

definition timeout_ms :: "policy_input \<Rightarrow> int" where
  "timeout_ms i = (if in_risk_tier i = R2 then 5000 else 3000)"

definition obligations_doc :: "policy_input \<Rightarrow> pyval" where
  "obligations_doc i =
     PObj Mut [(u ''timeout_ms'', PInt (timeout_ms i)), (u ''max_response_bytes'', PInt 1048576)]"

definition response :: "policy_input \<Rightarrow> string \<Rightarrow> reason_code \<Rightarrow> pyval" where
  "response i verdict code =
     PObj Mut [(u ''decision'', PStr (u verdict)), (u ''reason_code'', PStr (u (reason_value code))),
       (u ''risk_tier'', PStr (tier_value (in_risk_tier i))), (u ''obligations'', obligations_doc i)]"

definition default_decision :: pyval where
  "default_decision =
     PObj Mut [(u ''decision'', PStr (u ''deny'')), (u ''reason_code'', PStr (u ''POLICY_DEFAULT_DENY'')),
       (u ''risk_tier'', PStr (u ''R4'')), (u ''obligations'', PObj Mut [])]"

definition granted :: "policy_input \<Rightarrow> bool" where
  "granted i \<longleftrightarrow>
     list_ex (\<lambda>role. case dict_get (role_roots role) (in_root i) of
        None \<Rightarrow> False | Some ops \<Rightarrow> in_operation i \<in> set ops) (in_roles i)"

definition root_permits_operation :: "policy_data \<Rightarrow> policy_input \<Rightarrow> bool" where
  "root_permits_operation d i = root_value d (in_root i) (in_operation i)"

definition permitted_operations :: "policy_input \<Rightarrow> ustr list" where
  "permitted_operations i = concat (map (\<lambda>role. concat (map snd (role_roots role))) (in_roles i))"

definition deny_code :: "policy_data \<Rightarrow> policy_input \<Rightarrow> reason_code rego" where
  "deny_code d i =
     complete
       [body (\<not> root_permits_operation d i) (Val POLICY_OPERATION_NOT_PERMITTED),
        body (in_operation i \<notin> set (permitted_operations i)) (Val POLICY_OPERATION_NOT_PERMITTED),
        body (root_permits_operation d i \<and> in_operation i \<in> set (permitted_operations i))
          (Val POLICY_PATH_NOT_PERMITTED)]"

definition explicit_deny :: "policy_data \<Rightarrow> policy_input \<Rightarrow> pyval rego" where
  "explicit_deny d i =
     complete [body (\<not> is_discovery i \<and> \<not> granted i) (rego_map (response i ''deny'') (deny_code d i))]"

definition allow_code :: "policy_input \<Rightarrow> reason_code rego" where
  "allow_code i =
     complete
       [body (in_risk_tier i = R0) (Val POLICY_METADATA_READ),
        body (in_risk_tier i \<noteq> R0 \<and> in_operation i = u ''read'') (Val POLICY_SCOPED_READ),
        body (in_risk_tier i \<noteq> R0 \<and> in_operation i \<noteq> u ''read'') (Val POLICY_SCOPED_WRITE)]"

definition allow :: "policy_data \<Rightarrow> policy_input \<Rightarrow> pyval rego" where
  "allow d i =
     complete
       [body (\<not> is_discovery i \<and> granted i \<and> root_permits_operation d i)
          (rego_map (response i ''allow'') (allow_code i)),
        body (is_discovery i) (Val (response i ''allow'' POLICY_METADATA_READ))]"

definition prohibition :: "policy_input \<Rightarrow> pyval rego" where
  "prohibition i =
     complete
       [body (\<not> is_discovery i \<and> prohibited_root (in_root i)) (Val (response i ''deny'' POLICY_PROHIBITED)),
        body (\<not> is_discovery i \<and> prohibited_classification (in_classification i))
          (Val (response i ''deny'' POLICY_PROHIBITED)),
        body (\<not> is_discovery i \<and> in_root i = []) (Val (response i ''deny'' POLICY_PROHIBITED))]"

text \<open>The entrypoint: each level is guarded by \<open>not\<close> on the ones above it, then the default.\<close>

definition decision :: "policy_data \<Rightarrow> policy_input \<Rightarrow> pyval rego" where
  "decision d i =
     (case complete
        [prohibition i,
         body (prohibition i = Undef) (explicit_deny d i),
         body (prohibition i = Undef \<and> explicit_deny d i = Undef) (allow d i)] of
        Undef \<Rightarrow> Val default_decision
      | r \<Rightarrow> r)"

section \<open>discoverable.rego\<close>

definition discoverable_rule :: "policy_data \<Rightarrow> ustr list \<Rightarrow> ustr \<Rightarrow> bool" where
  "discoverable_rule d roles op \<longleftrightarrow>
     list_ex (\<lambda>role. list_ex (\<lambda>(root, ops).
       \<not> prohibited_root root \<and> op \<in> set ops \<and> root_value d root op) (role_roots role)) roles"

section \<open>The decision in closed form\<close>

definition prohibited :: "policy_input \<Rightarrow> bool" where
  "prohibited i \<longleftrightarrow> \<not> is_discovery i
     \<and> (prohibited_root (in_root i) \<or> prohibited_classification (in_classification i) \<or> in_root i = [])"

lemmas rego_defs = complete_def body_def rego_map_def rego_values_def

lemma prohibition_eq:
  "prohibition i = (if prohibited i then Val (response i ''deny'' POLICY_PROHIBITED) else Undef)"
  by (simp add: prohibition_def prohibited_def rego_defs)

lemma deny_code_eq:
  "deny_code d i = Val (if root_permits_operation d i \<and> in_operation i \<in> set (permitted_operations i)
     then POLICY_PATH_NOT_PERMITTED else POLICY_OPERATION_NOT_PERMITTED)"
  by (simp add: deny_code_def rego_defs)

lemma explicit_deny_eq:
  "explicit_deny d i = (if \<not> is_discovery i \<and> \<not> granted i
     then Val (response i ''deny'' (if root_permits_operation d i \<and> in_operation i \<in> set (permitted_operations i)
       then POLICY_PATH_NOT_PERMITTED else POLICY_OPERATION_NOT_PERMITTED)) else Undef)"
  unfolding explicit_deny_def deny_code_eq by (simp add: rego_defs)

definition allow_code_of :: "policy_input \<Rightarrow> reason_code" where
  "allow_code_of i =
     (if is_discovery i \<or> in_risk_tier i = R0 then POLICY_METADATA_READ
      else if in_operation i = u ''read'' then POLICY_SCOPED_READ else POLICY_SCOPED_WRITE)"

lemma allow_code_eq: "\<not> is_discovery i \<Longrightarrow> allow_code i = Val (allow_code_of i)"
  by (simp add: allow_code_def allow_code_of_def rego_defs)

lemma allow_eq:
  "allow d i = (if is_discovery i \<or> granted i \<and> root_permits_operation d i
     then Val (response i ''allow'' (allow_code_of i)) else Undef)"
  by (cases "is_discovery i") (simp_all add: allow_def allow_code_eq allow_code_of_def rego_defs)

lemma not_prohibited_discovery: "is_discovery i \<Longrightarrow> \<not> prohibited i"
  by (simp add: prohibited_def)

lemma decision_eq:
  "decision d i =
     Val (if prohibited i then response i ''deny'' POLICY_PROHIBITED
          else if is_discovery i then response i ''allow'' POLICY_METADATA_READ
          else if \<not> granted i
            then response i ''deny'' (if root_permits_operation d i \<and> in_operation i \<in> set (permitted_operations i)
                   then POLICY_PATH_NOT_PERMITTED else POLICY_OPERATION_NOT_PERMITTED)
          else if root_permits_operation d i then response i ''allow'' (allow_code_of i)
          else default_decision)"
  unfolding decision_def prohibition_eq explicit_deny_eq allow_eq
  by (auto simp: rego_defs not_prohibited_discovery allow_code_of_def)

text \<open>The verdict a decision document carries.\<close>

definition says :: "string \<Rightarrow> pyval rego \<Rightarrow> bool" where
  "says v r = (case r of Val (PObj m doc) \<Rightarrow> dict_get doc (u ''decision'') = Some (PStr (u v)) | _ \<Rightarrow> False)"

lemma says_simps [simp]:
  "says v (Val (response i w c)) \<longleftrightarrow> v = w"
  "says v (Val default_decision) \<longleftrightarrow> v = ''deny''"
  by (auto simp: says_def response_def default_decision_def dict_get_def)

lemma response_not_default [simp]: "response i w c \<noteq> default_decision" "default_decision \<noteq> response i w c"
  by (auto simp: response_def default_decision_def obligations_doc_def)

lemma rego_val_if: "Val (if b then x else y) = (if b then Val x else Val y)"
  by simp

lemma decision_allows:
  "says ''allow'' (decision d i) \<longleftrightarrow>
     is_discovery i \<or> (granted i \<and> root_permits_operation d i \<and> \<not> prohibited i)"
  unfolding decision_eq rego_val_if by (auto simp: not_prohibited_discovery)

section \<open>Discovery\<close>

lemma grants_roots_nonempty: "(role, root) \<in> set granted_pairs \<Longrightarrow> root \<noteq> []"
  by (auto simp: granted_pairs_def grants_def)

lemma role_roots_granted:
  assumes "(root, ops) \<in> set (role_roots role)"
  shows "(role, root) \<in> set granted_pairs"
proof -
  obtain rs where rs: "dict_get grants role = Some rs" and m: "(root, ops) \<in> set rs"
    using assms by (cases "dict_get grants role") (auto simp: role_roots_def)
  from dict_get_in_set [OF rs] m show ?thesis
    by (force simp: granted_pairs_def)
qed

lemma role_roots_distinct: "distinct_keys (role_roots role)"
  by (auto simp: role_roots_def grants_def dict_get_def)

lemma role_roots_get: "(root, ops) \<in> set (role_roots role) \<longleftrightarrow> dict_get (role_roots role) root = Some ops"
  using role_roots_distinct [of role] by (simp add: dict_get_def)

lemma granted_iff:
  "granted i \<longleftrightarrow> (\<exists>role ops. role \<in> set (in_roles i) \<and> (in_root i, ops) \<in> set (role_roots role)
     \<and> in_operation i \<in> set ops)"
  by (auto simp: granted_def list_ex_iff role_roots_get split: option.splits)

lemma discoverable_iff:
  "discoverable_rule d roles op \<longleftrightarrow> (\<exists>role root ops. role \<in> set roles \<and> (root, ops) \<in> set (role_roots role)
     \<and> \<not> prohibited_root root \<and> op \<in> set ops \<and> root_value d root op)"
  by (auto simp: discoverable_rule_def list_ex_iff)

text \<open>An input whose classification is the one the configuration gives its root, as stage 05 derives it.\<close>

definition classified :: "policy_data \<Rightarrow> policy_input \<Rightarrow> bool" where
  "classified d i = (case dict_get (data_roots d) (in_root i) of
     None \<Rightarrow> True | Some r \<Rightarrow> in_classification i = root_classification r)"

lemma prohibited_classified:
  assumes g: "grants_on_prohibited_roots d = []" and gr: "(role, in_root i) \<in> set granted_pairs"
    and c: "classified d i" and v: "root_value d (in_root i) op"
  shows "\<not> prohibited i"
proof -
  obtain r where r: "dict_get (data_roots d) (in_root i) = Some r"
    using v by (auto simp: root_value_def split: option.splits)
  have "\<not> prohibited_root (in_root i) \<and> \<not> prohibited_classification (root_classification r)"
    using g gr r by (auto simp: grants_on_prohibited_roots_def filter_empty_conv)
  then show ?thesis
    using r c grants_roots_nonempty [OF gr] by (simp add: prohibited_def classified_def)
qed

lemma discoverable_iff_allowed:
  assumes g: "grants_on_prohibited_roots d = []"
  shows "discoverable_rule d roles op \<longleftrightarrow>
    (\<exists>i. in_roles i = roles \<and> in_operation i = op \<and> \<not> is_discovery i \<and> classified d i
       \<and> says ''allow'' (decision d i))"
    (is "?L \<longleftrightarrow> ?R")
proof
  assume ?L
  then obtain role root ops where w: "role \<in> set roles" "(root, ops) \<in> set (role_roots role)"
      "op \<in> set ops" "root_value d root op" by (auto simp: discoverable_iff)
  define cl where "cl = (case dict_get (data_roots d) root of None \<Rightarrow> [] | Some r \<Rightarrow> root_classification r)"
  define i :: policy_input where "i = undefined \<lparr> in_roles := roles, in_operation := op, in_root := root,
    in_classification := cl, in_tool_name := Some [] \<rparr>"
  have f [simp]: "in_roles i = roles" "in_operation i = op" "in_root i = root" "\<not> is_discovery i" "classified d i"
    by (auto simp: i_def cl_def is_discovery_def classified_def split: option.splits)
  have "granted i" using w by (auto simp: granted_iff)
  moreover have "root_permits_operation d i" using w by (simp add: root_permits_operation_def)
  moreover have "\<not> prohibited i"
    using role_roots_granted [OF w(2)] w(4) by (intro prohibited_classified [OF g]) auto
  ultimately show ?R by (intro exI [of _ i]) (simp add: decision_allows)
next
  assume ?R
  then obtain i where i: "in_roles i = roles" "in_operation i = op" "\<not> is_discovery i"
      "granted i" "root_permits_operation d i" "\<not> prohibited i" by (auto simp: decision_allows)
  moreover have "\<not> prohibited_root (in_root i)" using i by (simp add: prohibited_def)
  ultimately show ?L by (auto simp: discoverable_iff granted_iff root_permits_operation_def)
qed

section \<open>Properties\<close>

text \<open>
  C16: the entrypoint always has exactly one value, and precedence is respected. A prohibition
  overrides everything; then discovery is allowed; then a request no role grants is refused
  with the code that tells a wrong operation from a wrong place; then a granted request is
  allowed exactly when the ceiling of its root permits the operation, and denied by the default
  otherwise (POLICY-005, POLICY-008).
\<close>

theorem decision_precedence:
  "decision d i =
     Val (if prohibited i then response i ''deny'' POLICY_PROHIBITED
          else if is_discovery i then response i ''allow'' POLICY_METADATA_READ
          else if \<not> granted i
            then response i ''deny'' (if root_permits_operation d i \<and> in_operation i \<in> set (permitted_operations i)
                   then POLICY_PATH_NOT_PERMITTED else POLICY_OPERATION_NOT_PERMITTED)
          else if root_permits_operation d i then response i ''allow'' (allow_code_of i)
          else default_decision)"
  by (rule decision_eq)

text \<open>
  the default decision fires exactly when a role grants the operation in that root and the
  root's own ceiling refuses it. The comment in decision.rego that this default never fires is
  false: \<open>deny_code\<close> has a value there, but \<open>explicit_deny\<close> is guarded by \<open>not granted\<close>.
\<close>

lemma default_fires_iff:
  "decision d i = Val default_decision \<longleftrightarrow>
     \<not> is_discovery i \<and> granted i \<and> \<not> root_permits_operation d i \<and> \<not> prohibited i"
  by (auto simp: decision_eq not_prohibited_discovery)

text \<open>
  the discovery answer is exact. Under the start-up check that no grant names a prohibited
  root, a tool is discoverable for a set of roles exactly when some call of that operation by
  those roles, on a resource classified as the configuration says, would be allowed.
\<close>

lemma discoverable_exact:
  assumes "grants_on_prohibited_roots d = []"
  shows "discoverable_rule d roles op \<longleftrightarrow>
    (\<exists>i. in_roles i = roles \<and> in_operation i = op \<and> \<not> is_discovery i \<and> classified d i
       \<and> says ''allow'' (decision d i))"
  using assms by (rule discoverable_iff_allowed)

definition demo_data :: policy_data where
  "demo_data = \<lparr> data_role_vocabulary = [u ''developer''], data_roots = [(u ''public'', demo_root)] \<rparr>"

lemma discoverable_exact_witness:
  "\<exists>i. in_roles i = [u ''developer''] \<and> in_operation i = u ''read'' \<and> \<not> is_discovery i
     \<and> classified demo_data i \<and> says ''allow'' (decision demo_data i)"
proof -
  have g: "grants_on_prohibited_roots demo_data = []" by code_simp
  have "discoverable_rule demo_data [u ''developer''] (u ''read'')" by code_simp
  then show ?thesis unfolding discoverable_exact [OF g] .
qed

end
