(* ===== verification/Policy_Broker.thy ===== *)
theory Policy_Broker
  imports Rego_Policy
begin

text \<open>
  \<open>gateway/policy.py\<close>: the connection to the policy engine, the start-up checks of its bundle,
  the evaluation of one decision and its validation, the clamping of obligations and the
  discovery question. OPA itself and its HTTP client are an argument (what each request is
  answered); the bundle is modelled in \<open>Rego_Policy\<close>.
\<close>

abbreviation policy_deny :: "reason_code \<Rightarrow> exc" where
  "policy_deny c \<equiv> Denial POLICY c"

section \<open>The HTTP client\<close>

text \<open>
  What a request to OPA ends in: the deadline of the caller, a connect or read error, any other
  \<open>httpx.HTTPError\<close> (an error status, the client's own timeout) or an answer that is no JSON,
  another exception by its class name, or a JSON document.
\<close>

datatype reply =
    Timed_out
  | Connection_error
  | Http_error
  | Raises string
  | Body pyval

text \<open>\<open>eng_post path body n\<close> is the answer to the \<open>n\<close>-th attempt.\<close>

record policy_engine =
  eng_post :: "ustr \<Rightarrow> pyval \<Rightarrow> nat \<Rightarrow> reply"
  eng_revision :: ustr

definition field :: "(ustr \<times> pyval) list \<Rightarrow> string \<Rightarrow> pyval" where
  "field doc key = (case dict_get doc (u key) of None \<Rightarrow> PNone | Some v \<Rightarrow> v)"

text \<open>\<open>response.json().get("result")\<close>\<close>

definition get_result :: "pyval \<Rightarrow> pyval result" where
  "get_result v = (case v of PObj m doc \<Rightarrow> Inr (field doc ''result'') | _ \<Rightarrow> Inl (PyError ''AttributeError''))"

section \<open>Obligations\<close>

definition bounded :: "pyval \<Rightarrow> int \<Rightarrow> int option \<Rightarrow> int" where
  "bounded v dflt ceiling =
     (let value = (case v of PInt i \<Rightarrow> if i \<le> 0 then dflt else i | _ \<Rightarrow> dflt) in
      case ceiling of None \<Rightarrow> value | Some c \<Rightarrow> min value c)"

definition clamp :: "pyval \<Rightarrow> policy_config \<Rightarrow> obligations \<times> bool" where
  "clamp raw cfg =
     (let values = (case raw of PObj Mut doc \<Rightarrow> doc | _ \<Rightarrow> []);
          asked_timeout = bounded (field values ''timeout_ms'') (pol_default_timeout_ms cfg) None;
          asked_limit = bounded (field values ''max_response_bytes'') (pol_default_response_bytes cfg) None;
          timeout = min asked_timeout (pol_max_timeout_ms cfg);
          limit = min asked_limit (pol_max_response_bytes cfg)
      in (\<lparr> ob_timeout_ms = timeout, ob_max_response_bytes = limit \<rparr>,
          (timeout, limit) \<noteq> (asked_timeout, asked_limit)))"

section \<open>Validation of a decision\<close>

definition verdict_value :: "verdict \<Rightarrow> string" where
  "verdict_value v = (case v of Allow \<Rightarrow> ''allow'' | Deny \<Rightarrow> ''deny'')"

definition verdict_of :: "pyval \<Rightarrow> verdict option" where
  "verdict_of v = find (\<lambda>d. v = PStr (u (verdict_value d))) [Allow, Deny]"

text \<open>\<open>ReasonCode(code)\<close>; a value that is no string, hashable or not, is no member.\<close>

definition reason_of :: "pyval \<Rightarrow> reason_code option" where
  "reason_of v = find (\<lambda>c. v = PStr (u (reason_value c))) all_codes"

text \<open>\<open>tier not in _RISK_TIERS\<close>: a list or a dict has no hash, and the test raises.\<close>

definition risk_tier_of :: "pyval \<Rightarrow> risk_tier result" where
  "risk_tier_of v =
     (case v of
        PStr s \<Rightarrow> (case tier_of s of None \<Rightarrow> Inl (policy_deny POLICY_RESULT_INVALID) | Some t \<Rightarrow> Inr t)
      | PArr Mut _ \<Rightarrow> Inl (PyError ''TypeError'')
      | PObj Mut _ \<Rightarrow> Inl (PyError ''TypeError'')
      | _ \<Rightarrow> Inl (policy_deny POLICY_RESULT_INVALID))"

definition validate_doc ::
    "(ustr \<times> pyval) list \<Rightarrow> canonical_request \<Rightarrow> ustr \<Rightarrow> policy_config \<Rightarrow> ustr \<Rightarrow> decision result" where
  "validate_doc doc req revision cfg arg_hash =
     (case verdict_of (field doc ''decision'') of
        None \<Rightarrow> Inl (policy_deny POLICY_RESULT_INVALID)
      | Some verdict \<Rightarrow>
     (case reason_of (field doc ''reason_code'') of
        None \<Rightarrow> Inl (policy_deny POLICY_RESULT_INVALID)
      | Some reason \<Rightarrow>
          bindR (raise_if ((verdict = Allow) \<noteq> (reason \<in> set ALLOW_CODES)) (policy_deny POLICY_RESULT_INVALID)) (\<lambda>_.
          bindR (risk_tier_of (field doc ''risk_tier'')) (\<lambda>tier.
          bindR (raise_if (revision = []) (policy_deny POLICY_REVISION_UNKNOWN)) (\<lambda>_.
          case clamp (field doc ''obligations'') cfg of (obl, clamped) \<Rightarrow>
          Inr \<lparr> dec_request_id = req_id req, dec_method = req_method req, dec_tool_name = req_tool_name req,
                dec_decision = verdict, dec_reason_code = u (reason_value reason), dec_risk_tier = tier,
                dec_policy_revision = revision, dec_obligations = obl, dec_arg_hash = arg_hash,
                dec_clamped = clamped \<rparr>)))))"

definition validate_result ::
    "pyval \<Rightarrow> canonical_request \<Rightarrow> ustr \<Rightarrow> policy_config \<Rightarrow> ustr \<Rightarrow> decision result" where
  "validate_result result req revision cfg arg_hash =
     (case result of
        PNone \<Rightarrow> Inl (policy_deny POLICY_DEFAULT_DENY)
      | PObj Mut doc \<Rightarrow> validate_doc doc req revision cfg arg_hash
      | _ \<Rightarrow> Inl (policy_deny POLICY_RESULT_INVALID))"

section \<open>Evaluation\<close>

definition ustr_or_none :: "ustr option \<Rightarrow> pyval" where
  "ustr_or_none s = (case s of None \<Rightarrow> PNone | Some s \<Rightarrow> PStr s)"

text \<open>\<open>PolicyInput.model_dump()\<close>\<close>

definition input_doc :: "policy_input \<Rightarrow> pyval" where
  "input_doc i =
     PObj Mut
       [(u ''request'', PObj Mut
          [(u ''request_id'', PStr (in_request_id i)), (u ''protocol_version'', PStr (in_protocol_version i)),
           (u ''transport'', PStr (in_transport i)), (u ''method'', PStr (in_method i))]),
        (u ''principal'', PObj Mut
          [(u ''id'', PStr (in_principal_id i)), (u ''auth_method'', PStr (in_auth_method i)),
           (u ''assurance'', PStr (in_assurance i)), (u ''roles'', PArr Frz (map PStr (in_roles i))),
           (u ''environment'', PStr (in_environment i))]),
        (u ''client'', PObj Mut [(u ''id'', PStr (in_client_id i))]),
        (u ''target'', PObj Mut
          [(u ''server_id'', PStr (in_server_id i)), (u ''tool_name'', ustr_or_none (in_tool_name i)),
           (u ''schema_fingerprint'', ustr_or_none (in_schema_fingerprint i)),
           (u ''registry_risk_tier'', PStr (tier_value (in_risk_tier i)))]),
        (u ''resource'', PObj Mut
          [(u ''canonical_path'', PStr (in_canonical_path i)), (u ''root'', PStr (in_root i)),
           (u ''classification'', PStr (in_classification i)), (u ''exists'', PBool (in_exists i))]),
        (u ''arguments'', PObj Mut
          [(u ''arg_hash'', PStr (in_arg_hash i)), (u ''operation'', PStr (in_operation i))]),
        (u ''context'', PObj Mut [(u ''policy_revision'', PStr (in_policy_revision i))])]"

definition payload :: "pyval \<Rightarrow> pyval" where
  "payload input = PObj Mut [(u ''input'', input)]"

text \<open>The attempts that are left; only a connection error leads to the next one.\<close>

fun post_attempts :: "(nat \<Rightarrow> reply) \<Rightarrow> nat list \<Rightarrow> pyval result" where
  "post_attempts post [] = Inl (policy_deny POLICY_UNAVAILABLE)"
| "post_attempts post (n # ns) =
     (case post n of
        Timed_out \<Rightarrow> Inl (policy_deny POLICY_TIMEOUT)
      | Connection_error \<Rightarrow> post_attempts post ns
      | Http_error \<Rightarrow> Inl (policy_deny POLICY_UNAVAILABLE)
      | Raises e \<Rightarrow> Inl (PyError e)
      | Body v \<Rightarrow> get_result v)"

definition post_decision :: "policy_engine \<Rightarrow> policy_config \<Rightarrow> pyval \<Rightarrow> pyval result" where
  "post_decision eng cfg doc = post_attempts (eng_post eng (pol_decision_path cfg) doc) [1, 2]"

definition evaluate ::
    "canonical_request \<Rightarrow> authz_context \<Rightarrow> resolved_target \<Rightarrow> derived_attributes \<Rightarrow> policy_engine option
      \<Rightarrow> policy_config \<Rightarrow> decision result" where
  "evaluate req ctx tgt drv opa cfg =
     (case opa of
        None \<Rightarrow> Inl (policy_deny POLICY_UNAVAILABLE)
      | Some eng \<Rightarrow>
          bindR (post_decision eng cfg (payload (input_doc (build_input req ctx tgt drv (eng_revision eng)))))
            (\<lambda>result. validate_result result req (eng_revision eng) cfg (drv_arg_hash drv)))"

definition discoverable_input :: "ustr list \<Rightarrow> operation \<Rightarrow> pyval" where
  "discoverable_input roles op =
     PObj Mut [(u ''principal'', PObj Mut [(u ''roles'', PArr Mut (map PStr roles))]),
               (u ''arguments'', PObj Mut [(u ''operation'', PStr (operation_value op))])]"

definition discoverable ::
    "policy_engine option \<Rightarrow> policy_config \<Rightarrow> authz_context \<Rightarrow> operation \<Rightarrow> bool result" where
  "discoverable opa cfg ctx op =
     (case opa of
        None \<Rightarrow> Inl (policy_deny POLICY_UNAVAILABLE)
      | Some eng \<Rightarrow>
          bindR (case eng_post eng (pol_discoverable_path cfg) (payload (discoverable_input (ctx_roles ctx) op)) 1 of
                   Timed_out \<Rightarrow> Inl (policy_deny POLICY_TIMEOUT)
                 | Connection_error \<Rightarrow> Inl (policy_deny POLICY_UNAVAILABLE)
                 | Http_error \<Rightarrow> Inl (policy_deny POLICY_UNAVAILABLE)
                 | Raises e \<Rightarrow> Inl (PyError e)
                 | Body v \<Rightarrow> get_result v)
            (\<lambda>r. case r of PBool b \<Rightarrow> Inr b | _ \<Rightarrow> Inl (policy_deny POLICY_RESULT_INVALID)))"

definition policy_audit_fields :: "decision \<Rightarrow> (ustr \<times> pyval) list" where
  "policy_audit_fields d =
     [(u ''decision'', PStr (u (verdict_value (dec_decision d)))),
      (u ''reason_code'', PStr (dec_reason_code d)),
      (u ''risk_tier'', PStr (tier_value (dec_risk_tier d))),
      (u ''policy_revision'', PStr (dec_policy_revision d)),
      (u ''obligations'', PObj Mut [(u ''timeout_ms'', PInt (ob_timeout_ms (dec_obligations d))),
                                    (u ''max_response_bytes'', PInt (ob_max_response_bytes (dec_obligations d)))]),
      (u ''obligations_clamped'', PBool (dec_clamped d))]"

section \<open>Start-up\<close>

definition root_doc :: "root_config \<Rightarrow> pyval" where
  "root_doc r =
     PObj Mut [(u ''classification'', PStr (root_classification r)), (u ''read'', PBool (root_read r)),
       (u ''create'', PBool (root_create r)), (u ''overwrite'', PBool (root_overwrite r)),
       (u ''append'', PBool (root_append r)), (u ''rename'', PBool (root_rename r)),
       (u ''delete'', PBool (root_delete r))]"

definition config_document :: "config \<Rightarrow> pyval" where
  "config_document cfg =
     PObj Mut [(u ''role_vocabulary'', PArr Mut (map PStr (idc_role_vocabulary (cfg_identity cfg)))),
       (u ''roots'', PObj Mut (dict_of (map (\<lambda>r. (root_name r, root_doc r)) (can_roots (cfg_canonicalize cfg)))))]"

definition CONFIG_DATA_PATH :: ustr where
  "CONFIG_DATA_PATH = u ''/v1/data/config''"

text \<open>\<open>client.put\<close> and \<open>client.get\<close>: the client's own timeout is an \<open>Http_error\<close>.\<close>

definition publish_config :: "(ustr \<Rightarrow> pyval \<Rightarrow> reply) \<Rightarrow> config \<Rightarrow> unit result" where
  "publish_config put cfg =
     (case put CONFIG_DATA_PATH (config_document cfg) of
        Body _ \<Rightarrow> Inr ()
      | Raises e \<Rightarrow> Inl (PyError e)
      | Timed_out \<Rightarrow> Inl ConfigError | Connection_error \<Rightarrow> Inl ConfigError | Http_error \<Rightarrow> Inl ConfigError)"

definition query :: "(ustr \<Rightarrow> reply) \<Rightarrow> ustr \<Rightarrow> pyval result" where
  "query get path =
     (case get path of
        Body v \<Rightarrow> get_result v
      | Raises e \<Rightarrow> Inl (PyError e)
      | Timed_out \<Rightarrow> Inl ConfigError | Connection_error \<Rightarrow> Inl ConfigError | Http_error \<Rightarrow> Inl ConfigError)"

text \<open>\<open>bool(v)\<close>\<close>

definition truthy :: "pyval \<Rightarrow> bool" where
  "truthy v = (case v of PNone \<Rightarrow> False | PBool b \<Rightarrow> b | PInt i \<Rightarrow> i \<noteq> 0
     | PFloat f \<Rightarrow> (case f of Dec _ n _ \<Rightarrow> n \<noteq> 0 | _ \<Rightarrow> True)
     | PStr s \<Rightarrow> s \<noteq> [] | PArr _ xs \<Rightarrow> xs \<noteq> [] | PObj _ kvs \<Rightarrow> kvs \<noteq> [])"

definition BUNDLE_RULES :: "string list" where
  "BUNDLE_RULES =
     [''roles_without_grants'', ''grants_without_roles'', ''grants_naming_unknown_roots'',
      ''grants_on_prohibited_roots'']"

definition check_bundle :: "(ustr \<Rightarrow> reply) \<Rightarrow> ustr \<Rightarrow> unit result" where
  "check_bundle get revision =
     bindR (query get (u ''/v1/data/gateway/policy_revision'')) (\<lambda>stamped.
     bindR (raise_if (stamped \<noteq> PStr revision) ConfigError) (\<lambda>_.
     forR (\<lambda>rule. bindR (query get (u (''/v1/data/gateway/'' @ rule))) (\<lambda>offenders.
             raise_if (truthy offenders) ConfigError)) BUNDLE_RULES))"

text \<open>
  The revision of the bundle on disk. The files are given as their path relative to the bundle
  and their bytes; \<open>crlf\<close> is \<open>replace(b"\r\n", b"\n")\<close>.
\<close>

fun crlf :: "bytes \<Rightarrow> bytes" where
  "crlf (a # b # bs) = (if a = 13 \<and> b = 10 then 10 # crlf bs else a # crlf (b # bs))"
| "crlf [b] = [b]"
| "crlf [] = []"

definition base_name :: "ustr \<Rightarrow> ustr" where
  "base_name p = last (split_on 47 p)"

definition bundle_chunk :: "ustr \<times> bytes \<Rightarrow> bytes result" where
  "bundle_chunk f =
     (case encode_utf8 (fst f) of
        None \<Rightarrow> Inl (PyError ''UnicodeEncodeError'')
      | Some b \<Rightarrow> Inr (b @ [0] @ crlf (snd f) @ [10]))"

fun bundle_bytes :: "(ustr \<times> bytes) list \<Rightarrow> bytes result" where
  "bundle_bytes [] = Inr []"
| "bundle_bytes (f # fs) =
     (if base_name (fst f) = u ''revision.rego'' then bundle_bytes fs
      else bindR (bundle_chunk f) (\<lambda>c. mapR (\<lambda>cs. c @ cs) (bundle_bytes fs)))"

definition bundle_revision :: "pyenv \<Rightarrow> (ustr \<times> bytes) list \<Rightarrow> ustr result" where
  "bundle_revision env files =
     mapR (\<lambda>b. take 16 (sha256_hexdigest env b)) (bundle_bytes (sort_key fst files))"

section \<open>Lemmas on validation\<close>

lemma field_simps [simp]:
  "field ((k, v) # doc) key = (if k = u key then v else field doc key)"
  "field [] key = PNone"
  by (simp_all add: field_def dict_get_def)

lemma verdict_of_Some: "verdict_of v = Some d \<longleftrightarrow> v = PStr (u (verdict_value d))"
  by (cases d) (auto simp: verdict_of_def verdict_value_def)

lemma reason_of_Some: "reason_of v = Some c \<longleftrightarrow> v = PStr (u (reason_value c))"
proof
  assume "reason_of v = Some c"
  then show "v = PStr (u (reason_value c))" by (auto simp: reason_of_def find_Some_iff)
next
  assume v: "v = PStr (u (reason_value c))"
  then have "(\<lambda>c'. v = PStr (u (reason_value c'))) = (\<lambda>c'. c' = c)"
    by (auto dest: reason_value_inj)
  moreover have "find (\<lambda>c'. c' = c) all_codes = Some c"
    using all_codes_complete [of c] by (cases "find (\<lambda>c'. c' = c) all_codes") (auto simp: find_None_iff find_Some_iff)
  ultimately show "reason_of v = Some c" by (simp add: reason_of_def)
qed

lemma risk_tier_of_Inr: "risk_tier_of v = Inr t \<longleftrightarrow> v = PStr (tier_value t)"
proof
  assume "risk_tier_of v = Inr t"
  then show "v = PStr (tier_value t)"
    by (auto simp: risk_tier_of_def split: pyval.splits option.splits mutability.splits dest: tier_of_Some)
next
  assume "v = PStr (tier_value t)"
  then show "risk_tier_of v = Inr t" by (simp add: risk_tier_of_def tier_of_value)
qed

lemma validate_doc_Inr_iff:
  "validate_doc doc req revision cfg arg_hash = Inr dec \<longleftrightarrow>
     (\<exists>verdict reason tier.
        field doc ''decision'' = PStr (u (verdict_value verdict))
      \<and> field doc ''reason_code'' = PStr (u (reason_value reason))
      \<and> field doc ''risk_tier'' = PStr (tier_value tier)
      \<and> (verdict = Allow \<longleftrightarrow> reason \<in> set ALLOW_CODES) \<and> revision \<noteq> []
      \<and> dec = \<lparr> dec_request_id = req_id req, dec_method = req_method req, dec_tool_name = req_tool_name req,
            dec_decision = verdict, dec_reason_code = u (reason_value reason), dec_risk_tier = tier,
            dec_policy_revision = revision, dec_obligations = fst (clamp (field doc ''obligations'') cfg),
            dec_arg_hash = arg_hash, dec_clamped = snd (clamp (field doc ''obligations'') cfg) \<rparr>)"
proof (cases "verdict_of (field doc ''decision'')")
  case None
  then show ?thesis by (simp add: validate_doc_def verdict_of_Some [symmetric])
next
  case v: (Some verdict)
  show ?thesis
  proof (cases "reason_of (field doc ''reason_code'')")
    case None
    then show ?thesis using v by (simp add: validate_doc_def reason_of_Some [symmetric])
  next
    case r: (Some reason)
    show ?thesis
    proof (cases "risk_tier_of (field doc ''risk_tier'')")
      case (Inl e)
      then show ?thesis using v r
        by (simp add: validate_doc_def risk_tier_of_Inr [symmetric] raise_if_def)
    next
      case (Inr tier)
      with v r show ?thesis
        unfolding verdict_of_Some [symmetric] reason_of_Some [symmetric] risk_tier_of_Inr [symmetric]
        by (simp add: validate_doc_def raise_if_def case_prod_unfold eq_commute [of dec])
    qed
  qed
qed

lemma validate_result_Inr_iff:
  "validate_result result req revision cfg arg_hash = Inr dec \<longleftrightarrow>
     (\<exists>doc. result = PObj Mut doc \<and> validate_doc doc req revision cfg arg_hash = Inr dec)"
  by (auto simp: validate_result_def split: pyval.splits mutability.splits)

lemma evaluate_Inr_iff:
  "evaluate req ctx tgt drv opa cfg = Inr dec \<longleftrightarrow>
     (\<exists>eng doc. opa = Some eng
        \<and> post_decision eng cfg (payload (input_doc (build_input req ctx tgt drv (eng_revision eng)))) = Inr (PObj Mut doc)
        \<and> validate_doc doc req (eng_revision eng) cfg (drv_arg_hash drv) = Inr dec)"
  by (auto simp: evaluate_def bindR_Inr_iff validate_result_Inr_iff split: option.splits)

lemma post_decision_eq:
  "post_decision eng cfg doc =
     (let post = eng_post eng (pol_decision_path cfg) doc;
          answer = (if post 1 = Connection_error then post 2 else post 1)
      in case answer of Timed_out \<Rightarrow> Inl (policy_deny POLICY_TIMEOUT) | Raises e \<Rightarrow> Inl (PyError e)
         | Body v \<Rightarrow> get_result v | _ \<Rightarrow> Inl (policy_deny POLICY_UNAVAILABLE))"
  by (simp add: post_decision_def Let_def split: reply.splits)

lemma risk_tier_of_Inl: "risk_tier_of v = Inl e \<Longrightarrow> e = PyError ''TypeError'' \<or> e = policy_deny POLICY_RESULT_INVALID"
  by (auto simp: risk_tier_of_def split: pyval.splits option.splits mutability.splits)

lemma validate_doc_Inl:
  "validate_doc doc req revision cfg arg_hash = Inl e \<Longrightarrow>
     e = PyError ''TypeError'' \<or> e \<in> {policy_deny POLICY_RESULT_INVALID, policy_deny POLICY_REVISION_UNKNOWN}"
  unfolding validate_doc_def
  by (auto simp: bindR_Inl_iff raise_if_Inl_iff split: option.splits prod.splits dest: risk_tier_of_Inl)

lemma post_decision_Inl:
  "post_decision eng cfg doc = Inl e \<Longrightarrow>
     e \<in> {policy_deny POLICY_TIMEOUT, policy_deny POLICY_UNAVAILABLE, PyError ''AttributeError''}
     \<or> (\<exists>x n. e = PyError x \<and> eng_post eng (pol_decision_path cfg) doc n = Raises x)"
  unfolding post_decision_eq Let_def
  by (auto simp: get_result_def split: reply.splits pyval.splits if_splits)

lemma validate_result_Inl:
  "validate_result r req revision cfg arg_hash = Inl e \<Longrightarrow>
     e = PyError ''TypeError''
     \<or> e \<in> {policy_deny POLICY_DEFAULT_DENY, policy_deny POLICY_RESULT_INVALID, policy_deny POLICY_REVISION_UNKNOWN}"
  by (auto simp: validate_result_def split: pyval.splits mutability.splits dest!: validate_doc_Inl)

lemma clamp_fst:
  "ob_timeout_ms (fst (clamp raw cfg)) \<le> pol_max_timeout_ms cfg"
  "ob_max_response_bytes (fst (clamp raw cfg)) \<le> pol_max_response_bytes cfg"
  by (simp_all add: clamp_def Let_def)

section \<open>Properties of the broker\<close>

text \<open>The answer the broker uses: the first, or the second after a connection error.\<close>

lemma post_decision_Inr_iff:
  "post_decision eng cfg input = Inr v \<longleftrightarrow>
     (\<exists>n m answer. eng_post eng (pol_decision_path cfg) input n = Body (PObj m answer) \<and> field answer ''result'' = v
        \<and> (n = 1 \<or> n = 2 \<and> eng_post eng (pol_decision_path cfg) input 1 = Connection_error))"
  unfolding post_decision_eq Let_def
  by (cases "eng_post eng (pol_decision_path cfg) input 1"; cases "eng_post eng (pol_decision_path cfg) input 2")
    (auto simp: get_result_def split: pyval.splits)

text \<open>
  C21: fail-closed evaluation (POLICY-005, POLICY-006, POLICY-011, POLICY-014). A decision exists only
  when the engine answered the decision query about this very request, at the first attempt or
  at the second after a connection error, with a JSON object whose result is an object with a
  verdict, reason code and risk tier in their closed vocabularies that agree with each other,
  under a known revision. The decision names the request it answers, carries the derived
  argument hash and stays inside the configured ceilings. So an engine that is absent, that times
  out, that refuses both connections, or that answers with an error or something else, allows
  nothing.
\<close>

theorem evaluate_fail_closed:
  assumes "evaluate req ctx tgt drv opa cfg = Inr dec"
  shows "\<exists>eng n m answer doc reason.
      opa = Some eng \<and> eng_revision eng \<noteq> [] \<and> dec_policy_revision dec = eng_revision eng
    \<and> (let post = eng_post eng (pol_decision_path cfg)
             (payload (input_doc (build_input req ctx tgt drv (eng_revision eng)))) in
         post n = Body (PObj m answer) \<and> (n = 1 \<or> n = 2 \<and> post 1 = Connection_error))
    \<and> field answer ''result'' = PObj Mut doc
    \<and> field doc ''decision'' = PStr (u (verdict_value (dec_decision dec)))
    \<and> field doc ''reason_code'' = PStr (u (reason_value reason)) \<and> dec_reason_code dec = u (reason_value reason)
    \<and> (dec_decision dec = Allow \<longleftrightarrow> reason \<in> set ALLOW_CODES)
    \<and> field doc ''risk_tier'' = PStr (tier_value (dec_risk_tier dec))
    \<and> dec_request_id dec = req_id req \<and> dec_method dec = req_method req \<and> dec_tool_name dec = req_tool_name req
    \<and> dec_arg_hash dec = drv_arg_hash drv
    \<and> ob_timeout_ms (dec_obligations dec) \<le> pol_max_timeout_ms cfg
    \<and> ob_max_response_bytes (dec_obligations dec) \<le> pol_max_response_bytes cfg"
proof -
  from assms obtain eng doc where 1: "opa = Some eng"
    "post_decision eng cfg (payload (input_doc (build_input req ctx tgt drv (eng_revision eng)))) = Inr (PObj Mut doc)"
    "validate_doc doc req (eng_revision eng) cfg (drv_arg_hash drv) = Inr dec" by (auto simp: evaluate_Inr_iff)
  from 1(2) obtain n m answer where 2: "eng_post eng (pol_decision_path cfg)
       (payload (input_doc (build_input req ctx tgt drv (eng_revision eng)))) n = Body (PObj m answer)"
    "field answer ''result'' = PObj Mut doc"
    "n = 1 \<or> n = 2 \<and> eng_post eng (pol_decision_path cfg)
       (payload (input_doc (build_input req ctx tgt drv (eng_revision eng)))) 1 = Connection_error"
    unfolding post_decision_Inr_iff by blast
  from 1(3) obtain reason where 3: "eng_revision eng \<noteq> [] \<and> dec_policy_revision dec = eng_revision eng
    \<and> field doc ''decision'' = PStr (u (verdict_value (dec_decision dec)))
    \<and> field doc ''reason_code'' = PStr (u (reason_value reason)) \<and> dec_reason_code dec = u (reason_value reason)
    \<and> (dec_decision dec = Allow \<longleftrightarrow> reason \<in> set ALLOW_CODES)
    \<and> field doc ''risk_tier'' = PStr (tier_value (dec_risk_tier dec))
    \<and> dec_request_id dec = req_id req \<and> dec_method dec = req_method req \<and> dec_tool_name dec = req_tool_name req
    \<and> dec_arg_hash dec = drv_arg_hash drv
    \<and> ob_timeout_ms (dec_obligations dec) \<le> pol_max_timeout_ms cfg
    \<and> ob_max_response_bytes (dec_obligations dec) \<le> pol_max_response_bytes cfg"
    by (auto simp: validate_doc_Inr_iff clamp_fst)
  show ?thesis unfolding Let_def using 1(1) 2 3 by blast
qed

text \<open>
  every failure of the evaluation is a policy denial, except the exceptions the client
  itself leaks, an \<open>AttributeError\<close> for an answer that is no object and a \<open>TypeError\<close> for a risk
  tier that cannot be hashed; the pipeline turns these into \<open>INTERNAL_ERROR\<close>.
\<close>

lemma evaluate_errors:
  assumes "evaluate req ctx tgt drv opa cfg = Inl e"
  shows "e \<in> policy_deny ` {POLICY_UNAVAILABLE, POLICY_TIMEOUT, POLICY_DEFAULT_DENY, POLICY_RESULT_INVALID,
        POLICY_REVISION_UNKNOWN}
    \<or> e \<in> {PyError ''TypeError'', PyError ''AttributeError''}
    \<or> (\<exists>eng doc n x. opa = Some eng \<and> eng_post eng (pol_decision_path cfg) doc n = Raises x \<and> e = PyError x)"
  using assms
  by (auto simp: evaluate_def bindR_Inl_iff split: option.splits dest!: post_decision_Inl validate_result_Inl)

text \<open>
  "every branch below is a denial" is not quite true of \<open>validate_result\<close>. A deny whose risk
  tier is a list makes the set membership test raise \<open>TypeError\<close>, and a JSON answer that is no
  object makes \<open>.get\<close> raise \<open>AttributeError\<close>; neither is a \<open>PolicyDenial\<close>.
\<close>

lemma unhashable_tier_raises:
  "validate_result (PObj Mut [(u ''decision'', PStr (u ''deny'')), (u ''reason_code'', PStr (u ''POLICY_PROHIBITED'')),
       (u ''risk_tier'', PArr Mut xs)]) req revision cfg h = Inl (PyError ''TypeError'')
   \<and> get_result (PArr Mut xs) = Inl (PyError ''AttributeError'')"
proof -
  have "verdict_of (PStr (u ''deny'')) = Some Deny" by (simp add: verdict_of_Some verdict_value_def)
  moreover have "reason_of (PStr (u ''POLICY_PROHIBITED'')) = Some POLICY_PROHIBITED" by (simp add: reason_of_Some)
  moreover have "POLICY_PROHIBITED \<notin> set ALLOW_CODES" by (simp add: ALLOW_CODES_def)
  ultimately show ?thesis
    by (simp add: validate_result_def validate_doc_def risk_tier_of_def get_result_def)
qed

text \<open>
  policy narrows and never widens (POLICY-007). The enforced limits are at most the ceilings
  and at most what was asked for, where a missing, non-positive or non-integer obligation asks
  for the default; they are positive when the configuration's numbers are; and the decision is
  marked clamped exactly when something asked for exceeded its ceiling.
\<close>

lemma clamp_narrows:
  assumes "raw = PObj Mut doc"
    and "0 < pol_default_timeout_ms cfg" "0 < pol_max_timeout_ms cfg"
    and "0 < pol_default_response_bytes cfg" "0 < pol_max_response_bytes cfg"
  shows "let (ob, clamped) = clamp raw cfg;
             asked = (\<lambda>key dflt. case field doc key of PInt i \<Rightarrow> if 0 < i then i else dflt | _ \<Rightarrow> dflt);
             t = asked ''timeout_ms'' (pol_default_timeout_ms cfg);
             b = asked ''max_response_bytes'' (pol_default_response_bytes cfg)
    in 0 < ob_timeout_ms ob \<and> ob_timeout_ms ob \<le> pol_max_timeout_ms cfg \<and> ob_timeout_ms ob \<le> t
     \<and> 0 < ob_max_response_bytes ob \<and> ob_max_response_bytes ob \<le> pol_max_response_bytes cfg
     \<and> ob_max_response_bytes ob \<le> b
     \<and> (clamped \<longleftrightarrow> t > pol_max_timeout_ms cfg \<or> b > pol_max_response_bytes cfg)"
proof -
  have b: "bounded v dflt None = (case v of PInt i \<Rightarrow> if 0 < i then i else dflt | _ \<Rightarrow> dflt)" for v dflt
    by (cases v) (auto simp: bounded_def)
  have p: "0 < dflt \<Longrightarrow> 0 < bounded v dflt None" for v and dflt :: int
    by (cases v) (auto simp: bounded_def)
  show ?thesis
    using assms p [OF assms(2), of "field doc ''timeout_ms''"]
      p [OF assms(4), of "field doc ''max_response_bytes''"]
    unfolding b [symmetric] clamp_def Let_def by auto
qed

section \<open>The bundle behind the broker\<close>

text \<open>What a rule reads from the input document.\<close>

definition sub :: "pyval \<Rightarrow> string \<Rightarrow> pyval" where
  "sub v key = (case v of PObj m doc \<Rightarrow> field doc key | _ \<Rightarrow> PNone)"

definition text_of :: "pyval \<Rightarrow> ustr" where
  "text_of v = (case v of PStr s \<Rightarrow> s | _ \<Rightarrow> [])"

definition optional_text :: "pyval \<Rightarrow> ustr option" where
  "optional_text v = (case v of PStr s \<Rightarrow> Some s | _ \<Rightarrow> None)"

definition read_input :: "pyval \<Rightarrow> policy_input" where
  "read_input v =
     (let at = (\<lambda>block key. text_of (sub (sub v block) key)) in
      \<lparr> in_request_id = at ''request'' ''request_id'', in_protocol_version = at ''request'' ''protocol_version'',
        in_transport = at ''request'' ''transport'', in_method = at ''request'' ''method'',
        in_principal_id = at ''principal'' ''id'', in_auth_method = at ''principal'' ''auth_method'',
        in_assurance = at ''principal'' ''assurance'',
        in_roles = (case sub (sub v ''principal'') ''roles'' of PArr m xs \<Rightarrow> map text_of xs | _ \<Rightarrow> []),
        in_environment = at ''principal'' ''environment'', in_client_id = at ''client'' ''id'',
        in_server_id = at ''target'' ''server_id'',
        in_tool_name = optional_text (sub (sub v ''target'') ''tool_name''),
        in_schema_fingerprint = optional_text (sub (sub v ''target'') ''schema_fingerprint''),
        in_risk_tier = (case tier_of (at ''target'' ''registry_risk_tier'') of Some t \<Rightarrow> t | None \<Rightarrow> R4),
        in_canonical_path = at ''resource'' ''canonical_path'', in_root = at ''resource'' ''root'',
        in_classification = at ''resource'' ''classification'',
        in_exists = (sub (sub v ''resource'') ''exists'' = PBool True),
        in_arg_hash = at ''arguments'' ''arg_hash'', in_operation = at ''arguments'' ''operation'',
        in_policy_revision = at ''context'' ''policy_revision'' \<rparr>)"

lemma text_of_simps [simp]: "text_of (PStr s) = s" "text_of PNone = []"
  by (simp_all add: text_of_def)

lemma optional_text_none [simp]: "optional_text (ustr_or_none s) = s"
  by (cases s) (simp_all add: optional_text_def ustr_or_none_def)

lemma map_text_of: "map (text_of \<circ> PStr) xs = xs"
  by (induction xs) simp_all

lemma read_input_doc: "read_input (input_doc i) = i"
  by (cases i) (simp add: read_input_def input_doc_def Let_def sub_def tier_of_value map_text_of)

text \<open>
  the input document carries the whole policy input; nothing a rule could test is lost or
  confused with another block on its way to OPA (POLICY-001, POLICY-003).
\<close>

lemma input_document_roundtrip:
  "read_input (input_doc (build_input req ctx tgt drv revision)) = build_input req ctx tgt drv revision"
  by (rule read_input_doc)

text \<open>
  The contract of the sidecar: OPA serves this bundle, with \<open>data.config\<close> equal to \<open>d\<close>, at the
  configured paths. The client's lemmas below rest on nothing else.
\<close>

definition result_body :: "pyval \<Rightarrow> reply" where
  "result_body v = Body (PObj Mut [(u ''result'', v)])"

definition pair_doc :: "ustr \<times> ustr \<Rightarrow> pyval" where
  "pair_doc p = PArr Mut [PStr (fst p), PStr (snd p)]"

locale opa_sidecar =
  fixes eng :: policy_engine
    and get :: "ustr \<Rightarrow> reply"
    and d :: policy_data
    and cfg :: policy_config
  assumes decides: "decision d i = Val doc \<Longrightarrow>
      eng_post eng (pol_decision_path cfg) (payload (input_doc i)) n = result_body doc"
    and discovers: "eng_post eng (pol_discoverable_path cfg) (payload (discoverable_input roles op)) n
      = result_body (PBool (discoverable_rule d roles (operation_value op)))"
    and reports: "get (u (''/v1/data/gateway/'' @ ''grants_on_prohibited_roots''))
      = result_body (PArr Mut (map pair_doc (grants_on_prohibited_roots d)))"
begin

lemma post_decision_bundle: "decision d i = Val doc \<Longrightarrow> post_decision eng cfg (payload (input_doc i)) = Inr doc"
  by (simp add: post_decision_eq Let_def decides result_body_def get_result_def)

lemma evaluate_bundle:
  assumes "decision d (build_input req ctx tgt drv (eng_revision eng)) = Val doc"
  shows "evaluate req ctx tgt drv (Some eng) cfg = validate_result doc req (eng_revision eng) cfg (drv_arg_hash drv)"
  by (simp add: evaluate_def post_decision_bundle [OF assms])

lemma discoverable_bundle:
  "discoverable (Some eng) cfg ctx op = Inr (discoverable_rule d (ctx_roles ctx) (operation_value op))"
  by (simp add: discoverable_def discovers result_body_def get_result_def)

lemma checked_no_dead_grants:
  assumes "check_bundle get revision = Inr ()"
  shows "grants_on_prohibited_roots d = []"
proof -
  have "bindR (query get (u (''/v1/data/gateway/'' @ ''grants_on_prohibited_roots'')))
      (\<lambda>offenders. raise_if (truthy offenders) ConfigError) = Inr ()"
    using assms by (auto simp: check_bundle_def bindR_Inr_iff forR_Inr_iff BUNDLE_RULES_def)
  then show ?thesis
    by (simp add: query_def reports result_body_def get_result_def truthy_def raise_if_Inr_iff
        del: append.simps)
qed

end

text \<open>A sidecar of this bundle, answering what the rules of \<open>Rego_Policy\<close> evaluate to.\<close>

definition bundle_post :: "policy_data \<Rightarrow> policy_config \<Rightarrow> ustr \<Rightarrow> pyval \<Rightarrow> nat \<Rightarrow> reply" where
  "bundle_post d cfg path doc n =
     (let input = sub doc ''input'' in
      if path = pol_decision_path cfg \<and> sub input ''request'' \<noteq> PNone
      then (case decision d (read_input input) of Val v \<Rightarrow> result_body v | Undef \<Rightarrow> Body (PObj Mut []) | Conflict \<Rightarrow> Http_error)
      else if path = pol_discoverable_path cfg
      then result_body (PBool (discoverable_rule d (in_roles (read_input input)) (in_operation (read_input input))))
      else Body (PObj Mut []))"

definition bundle_engine :: "policy_data \<Rightarrow> policy_config \<Rightarrow> ustr \<Rightarrow> policy_engine" where
  "bundle_engine d cfg revision = \<lparr> eng_post = bundle_post d cfg, eng_revision = revision \<rparr>"

definition bundle_get :: "policy_data \<Rightarrow> ustr \<Rightarrow> ustr \<Rightarrow> reply" where
  "bundle_get d revision path =
     (if path = u ''/v1/data/gateway/policy_revision'' then result_body (PStr revision)
      else if path = u ''/v1/data/gateway/roles_without_grants'' then result_body (PArr Mut (map PStr (roles_without_grants d)))
      else if path = u ''/v1/data/gateway/grants_without_roles'' then result_body (PArr Mut (map PStr (grants_without_roles d)))
      else if path = u ''/v1/data/gateway/grants_naming_unknown_roots''
      then result_body (PArr Mut (map pair_doc (grants_naming_unknown_roots d)))
      else if path = u ''/v1/data/gateway/grants_on_prohibited_roots''
      then result_body (PArr Mut (map pair_doc (grants_on_prohibited_roots d)))
      else Body (PObj Mut []))"

lemma sub_payload [simp]: "sub (payload v) ''input'' = v"
  by (simp add: sub_def payload_def)

lemma sub_request:
  "sub (input_doc i) ''request'' \<noteq> PNone" "sub (discoverable_input roles op) ''request'' = PNone"
  by (simp_all add: sub_def input_doc_def discoverable_input_def)

lemma read_discoverable:
  "in_roles (read_input (discoverable_input roles op)) = roles"
  "in_operation (read_input (discoverable_input roles op)) = operation_value op"
  by (simp_all add: read_input_def discoverable_input_def Let_def sub_def map_text_of)

lemma bundle_sidecar: "opa_sidecar (bundle_engine d cfg revision) (bundle_get d revision) d cfg"
  by unfold_locales
    (simp_all add: bundle_engine_def bundle_post_def Let_def sub_request read_discoverable
      read_input_doc bundle_get_def)

interpretation served: opa_sidecar "bundle_engine d cfg revision" "bundle_get d revision" "d" "cfg" for d cfg revision
  by (rule bundle_sidecar)

lemma validate_response:
  assumes "revision \<noteq> []" and "verdict = Allow \<longleftrightarrow> c \<in> set ALLOW_CODES"
  shows "validate_result (response i (verdict_value verdict) c) req revision cfg h =
    Inr \<lparr> dec_request_id = req_id req, dec_method = req_method req, dec_tool_name = req_tool_name req,
          dec_decision = verdict, dec_reason_code = u (reason_value c), dec_risk_tier = in_risk_tier i,
          dec_policy_revision = revision, dec_obligations = fst (clamp (obligations_doc i) cfg),
          dec_arg_hash = h, dec_clamped = snd (clamp (obligations_doc i) cfg) \<rparr>"
  unfolding validate_result_Inr_iff validate_doc_Inr_iff response_def
  using assms by (auto simp: verdict_value_def split: verdict.splits)

lemma validate_default:
  "revision \<noteq> [] \<Longrightarrow> \<exists>dec. validate_result default_decision req revision cfg h = Inr dec \<and> dec_decision dec = Deny
     \<and> dec_reason_code dec = u (reason_value POLICY_DEFAULT_DENY) \<and> dec_risk_tier dec = R4"
proof -
  have "verdict_of (PStr (u ''deny'')) = Some Deny" by (simp add: verdict_of_Some verdict_value_def)
  moreover have "reason_of (PStr (u ''POLICY_DEFAULT_DENY'')) = Some POLICY_DEFAULT_DENY" by (simp add: reason_of_Some)
  moreover have "risk_tier_of (PStr (u ''R4'')) = Inr R4" by (simp add: risk_tier_of_Inr tier_value_def)
  moreover have "POLICY_DEFAULT_DENY \<notin> set ALLOW_CODES" by (simp add: ALLOW_CODES_def)
  moreover assume "revision \<noteq> []"
  ultimately show ?thesis
    by (simp add: validate_result_def validate_doc_def default_decision_def case_prod_unfold)
qed

lemma allow_code_of_allows: "allow_code_of i \<in> set ALLOW_CODES"
  by (simp add: allow_code_of_def ALLOW_CODES_def)

definition refusal_code :: "policy_data \<Rightarrow> policy_input \<Rightarrow> reason_code" where
  "refusal_code d i =
     (if prohibited i then POLICY_PROHIBITED
      else if root_permits_operation d i \<and> in_operation i \<in> set (permitted_operations i)
      then POLICY_PATH_NOT_PERMITTED else POLICY_OPERATION_NOT_PERMITTED)"

lemma refusal_code_denies: "refusal_code d i \<notin> set ALLOW_CODES"
  by (simp add: refusal_code_def ALLOW_CODES_def)

lemma deny_response:
  assumes "revision \<noteq> []" and "c \<notin> set ALLOW_CODES"
  shows "\<exists>dec. validate_result (response i ''deny'' c) req revision cfg h = Inr dec \<and> dec_decision dec = Deny
    \<and> dec_reason_code dec = u (reason_value c) \<and> dec_risk_tier dec = in_risk_tier i"
  using validate_response [OF assms(1), of Deny c i req cfg h] assms(2) by (simp add: verdict_value_def)

lemma allow_response:
  assumes "revision \<noteq> []" and "c \<in> set ALLOW_CODES"
  shows "\<exists>dec. validate_result (response i ''allow'' c) req revision cfg h = Inr dec \<and> dec_decision dec = Allow
    \<and> dec_reason_code dec = u (reason_value c) \<and> dec_risk_tier dec = in_risk_tier i
    \<and> dec_obligations dec = fst (clamp (obligations_doc i) cfg)"
  using validate_response [OF assms(1), of Allow c i req cfg h] assms(2) by (simp add: verdict_value_def)

text \<open>
  C22: broker and bundle together implement the authorization rule. Against a sidecar that serves
  this bundle, under a known revision, every request gets a decision, and it is the document the
  rules evaluate to for this request's input, field by field: verdict, reason code, risk tier, and
  the obligations clamped to the ceilings. It is an allow exactly for discovery, or when some role
  of the principal grants the operation in the root the path landed in, the root's own ceiling
  permits it, and nothing prohibits it; a denial carries the code of the first reason in the
  bundle's precedence.
\<close>

theorem evaluate_implements_bundle:
  assumes "opa_sidecar eng get d cfg" and "eng_revision eng \<noteq> []"
    and "i = build_input req ctx tgt drv (eng_revision eng)"
  shows "\<exists>doc dec. decision d i = Val (PObj Mut doc) \<and> evaluate req ctx tgt drv (Some eng) cfg = Inr dec
    \<and> field doc ''decision'' = PStr (u (verdict_value (dec_decision dec)))
    \<and> field doc ''reason_code'' = PStr (dec_reason_code dec)
    \<and> field doc ''risk_tier'' = PStr (tier_value (dec_risk_tier dec))
    \<and> (dec_obligations dec, dec_clamped dec) = clamp (field doc ''obligations'') cfg
    \<and> (dec_decision dec = Allow \<longleftrightarrow>
        tgt_tool_name tgt = None \<or> granted i \<and> root_permits_operation d i \<and> \<not> prohibited i)
    \<and> dec_reason_code dec = u (reason_value
        (if dec_decision dec = Allow then allow_code_of i
         else if prohibited i \<or> \<not> granted i then refusal_code d i else POLICY_DEFAULT_DENY))
    \<and> dec_risk_tier dec = (if dec_decision dec = Allow \<or> prohibited i \<or> \<not> granted i then tgt_risk_tier tgt else R4)"
proof -
  have disc: "is_discovery i \<longleftrightarrow> tgt_tool_name tgt = None" and tier: "in_risk_tier i = tgt_risk_tier tgt"
    by (simp_all add: assms(3) is_discovery_def build_input_def)
  obtain v where v: "decision d i = Val v" by (simp add: decision_eq)
  have ev: "evaluate req ctx tgt drv (Some eng) cfg = validate_result v req (eng_revision eng) cfg (drv_arg_hash drv)"
    using opa_sidecar.evaluate_bundle [OF assms(1)] v assms(3) by blast
  define A where "A \<longleftrightarrow> is_discovery i \<or> granted i \<and> root_permits_operation d i \<and> \<not> prohibited i"
  have v_eq: "v = (if A then response i ''allow'' (allow_code_of i)
      else if prohibited i \<or> \<not> granted i then response i ''deny'' (refusal_code d i) else default_decision)"
    using v unfolding decision_eq
    by (auto simp: A_def refusal_code_def not_prohibited_discovery allow_code_of_def split: if_splits)
  have "\<exists>dec. validate_result v req (eng_revision eng) cfg (drv_arg_hash drv) = Inr dec \<and> (dec_decision dec = Allow \<longleftrightarrow> A)
    \<and> dec_reason_code dec = u (reason_value (if A then allow_code_of i
         else if prohibited i \<or> \<not> granted i then refusal_code d i else POLICY_DEFAULT_DENY))
    \<and> dec_risk_tier dec = (if A \<or> prohibited i \<or> \<not> granted i then tgt_risk_tier tgt else R4)"
    using allow_response [OF assms(2) allow_code_of_allows [of i], of i req cfg "drv_arg_hash drv"]
      deny_response [OF assms(2) refusal_code_denies [of d i], of i req cfg "drv_arg_hash drv"]
      validate_default [OF assms(2), of req cfg "drv_arg_hash drv"]
    unfolding v_eq by (auto simp: tier)
  then obtain dec where dec: "validate_result v req (eng_revision eng) cfg (drv_arg_hash drv) = Inr dec"
    "dec_decision dec = Allow \<longleftrightarrow> A"
    "dec_reason_code dec = u (reason_value (if A then allow_code_of i
         else if prohibited i \<or> \<not> granted i then refusal_code d i else POLICY_DEFAULT_DENY))"
    "dec_risk_tier dec = (if A \<or> prohibited i \<or> \<not> granted i then tgt_risk_tier tgt else R4)" by blast
  then obtain doc where doc: "v = PObj Mut doc" "validate_doc doc req (eng_revision eng) cfg (drv_arg_hash drv) = Inr dec"
    by (auto simp: validate_result_Inr_iff)
  from doc(2) obtain verdict reason tier where f: "field doc ''decision'' = PStr (u (verdict_value verdict))"
    "field doc ''reason_code'' = PStr (u (reason_value reason))" "field doc ''risk_tier'' = PStr (tier_value tier)"
    "dec_decision dec = verdict" "dec_reason_code dec = u (reason_value reason)" "dec_risk_tier dec = tier"
    "(dec_obligations dec, dec_clamped dec) = clamp (field doc ''obligations'') cfg"
    unfolding validate_doc_Inr_iff by auto
  have A: "A \<longleftrightarrow> tgt_tool_name tgt = None \<or> granted i \<and> root_permits_operation d i \<and> \<not> prohibited i" by (simp add: A_def disc)
  show ?thesis
  proof (intro exI [of _ doc] exI [of _ dec] conjI)
    show "decision d i = Val (PObj Mut doc)" using v doc(1) by simp
    show "evaluate req ctx tgt drv (Some eng) cfg = Inr dec" using ev dec(1) by simp
    show "field doc ''decision'' = PStr (u (verdict_value (dec_decision dec)))"
      "field doc ''reason_code'' = PStr (dec_reason_code dec)" "field doc ''risk_tier'' = PStr (tier_value (dec_risk_tier dec))"
      using f by (simp_all only:)
    show "(dec_obligations dec, dec_clamped dec) = clamp (field doc ''obligations'') cfg" by (rule f(7))
    show "dec_decision dec = Allow \<longleftrightarrow> tgt_tool_name tgt = None \<or> granted i \<and> root_permits_operation d i \<and> \<not> prohibited i"
      using dec(2) A by (simp only:)
    show "dec_reason_code dec = u (reason_value (if dec_decision dec = Allow then allow_code_of i
         else if prohibited i \<or> \<not> granted i then refusal_code d i else POLICY_DEFAULT_DENY))"
      unfolding dec(2) by (rule dec(3))
    show "dec_risk_tier dec = (if dec_decision dec = Allow \<or> prohibited i \<or> \<not> granted i then tgt_risk_tier tgt else R4)"
      unfolding dec(2) by (rule dec(4))
  qed
qed

text \<open>
  what start-up buys. When the bundle check passed, the answer of the discovery query is exact:
  it is yes for a tool's operation exactly when some call of that operation by this principal
  would be allowed.
\<close>

lemma checked_discovery_exact:
  assumes "opa_sidecar eng get d cfg" and "check_bundle get revision = Inr ()"
  shows "discoverable (Some eng) cfg ctx op = Inr True \<longleftrightarrow>
    (\<exists>i. in_roles i = ctx_roles ctx \<and> in_operation i = operation_value op \<and> \<not> is_discovery i
       \<and> classified d i \<and> says ''allow'' (decision d i))"
  using discoverable_iff_allowed [OF opa_sidecar.checked_no_dead_grants [OF assms]]
  by (simp add: opa_sidecar.discoverable_bundle [OF assms(1)])

section \<open>What a revision identifies\<close>

text \<open>The bundle as its rules are read: path and normalized content, in order, without the stamp.\<close>

definition policy_files :: "(ustr \<times> bytes) list \<Rightarrow> (ustr \<times> bytes) list" where
  "policy_files files =
     map (\<lambda>(p, c). (p, crlf c)) (filter (\<lambda>(p, c). base_name p \<noteq> u ''revision.rego'') (sort_key fst files))"

text \<open>No file holds a NUL byte, and no path a NUL or a newline.\<close>

definition plain_bundle :: "(ustr \<times> bytes) list \<Rightarrow> bool" where
  "plain_bundle files \<longleftrightarrow>
     list_all (\<lambda>(p, c). 0 \<notin> set c
        \<and> (case encode_utf8 p of None \<Rightarrow> True | Some b \<Rightarrow> 0 \<notin> set b \<and> 10 \<notin> set b)) files"

definition frames :: "(bytes \<times> bytes) list \<Rightarrow> bytes" where
  "frames fs = concat (map (\<lambda>(p, c). p @ [0] @ c @ [10]) fs)"

lemma frames_simps [simp]:
  "frames [] = []" "frames ((p, c) # fs) = p @ 0 # c @ 10 # frames fs"
  by (simp_all add: frames_def)

lemma split_first:
  assumes "z \<notin> set xs" "z \<notin> set ys" "xs @ z # xs' = ys @ z # ys'"
  shows "xs = ys \<and> xs' = ys'"
  using assms
proof (induction xs arbitrary: ys)
  case Nil
  then show ?case by (cases ys) auto
next
  case (Cons x xs)
  then show ?case by (cases ys) auto
qed

lemma split_last:
  assumes "z \<notin> set xs'" "z \<notin> set ys'" "xs @ z # xs' = ys @ z # ys'"
  shows "xs = ys \<and> xs' = ys'"
  using split_first [of z "rev xs'" "rev ys'" "rev xs" "rev ys"] assms
  by (metis append_eq_append_conv2 rev.simps(2) rev_append rev_rev_ident set_rev append.assoc append_Cons append_Nil)

definition plain_frame :: "bytes \<times> bytes \<Rightarrow> bool" where
  "plain_frame f \<longleftrightarrow> 0 \<notin> set (fst f) \<and> 10 \<notin> set (fst f) \<and> 0 \<notin> set (snd f)"

lemma frames_no_zero: "0 \<notin> set (frames fs) \<Longrightarrow> fs = []"
  by (cases fs) auto

lemma frames_tail_inj:
  assumes "list_all plain_frame fs" "list_all plain_frame fs'" "0 \<notin> set c" "0 \<notin> set c'"
    and "c @ 10 # frames fs = c' @ 10 # frames fs'"
  shows "c = c' \<and> fs = fs'"
  using assms
proof (induction fs arbitrary: c c' fs')
  case Nil
  then have "0 \<notin> set (c' @ 10 # frames fs')" 
    unfolding Nil.prems(5) [symmetric] by simp
  then show ?case using Nil.prems frames_no_zero [of fs'] by auto
next
  case (Cons f fs)
  obtain p d where f: "f = (p, d)" by (cases f)
  have "0 \<in> set (c' @ 10 # frames fs')"
    unfolding Cons.prems(5) [symmetric] by (simp add: f)
  then have "0 \<in> set (frames fs')" using Cons.prems(4) by auto
  then obtain p' d' gs where fs': "fs' = (p', d') # gs" by (cases fs') auto
  have ok: "0 \<notin> set p" "10 \<notin> set p" "0 \<notin> set d" "0 \<notin> set p'" "10 \<notin> set p'" "0 \<notin> set d'"
    using Cons.prems(1,2) by (auto simp: f fs' plain_frame_def)
  have "(c @ 10 # p) @ 0 # (d @ 10 # frames fs) = (c' @ 10 # p') @ 0 # (d' @ 10 # frames gs)"
    using Cons.prems(5) by (simp add: f fs')
  then have "c @ 10 # p = c' @ 10 # p' \<and> d @ 10 # frames fs = d' @ 10 # frames gs"
    using ok Cons.prems(3,4) by (intro split_first) auto
  then show ?case
    using split_last [of 10 p p' c c'] Cons.IH [of gs d d'] ok Cons.prems(1,2) by (auto simp: f fs')
qed

lemma frames_inj:
  "list_all plain_frame fs \<Longrightarrow> list_all plain_frame fs' \<Longrightarrow> frames fs = frames fs' \<Longrightarrow> fs = fs'"
  using frames_tail_inj [of fs fs' "[]" "[]"] by simp

lemma set_crlf: "set (crlf b) \<subseteq> set b"
  by (induction b rule: crlf.induct) auto

definition frame_of :: "ustr \<times> bytes \<Rightarrow> bytes \<times> bytes" where
  "frame_of f = (the (encode_utf8 (fst f)), snd f)"

lemma bundle_bytes_Inr:
  assumes "bundle_bytes fs = Inr b"
  defines "ps \<equiv> map (\<lambda>(p, c). (p, crlf c)) (filter (\<lambda>(p, c). base_name p \<noteq> u ''revision.rego'') fs)"
  shows "b = frames (map frame_of ps) \<and> list_all (\<lambda>(p, c). encode_utf8 p \<noteq> None) ps"
  using assms(1) unfolding ps_def
proof (induction fs arbitrary: b)
  case Nil
  then show ?case by simp
next
  case (Cons f fs)
  then show ?case
    by (cases f) (auto simp: bindR_Inr_iff mapR_Inr_iff bundle_chunk_def frame_of_def split: if_splits option.splits)
qed

lemma frame_of_inj:
  assumes "list_all (\<lambda>(p, c). encode_utf8 p \<noteq> None) ps" "list_all (\<lambda>(p, c). encode_utf8 p \<noteq> None) qs"
    and "map frame_of ps = map frame_of qs"
  shows "ps = qs"
  using assms
proof (induction ps arbitrary: qs)
  case Nil
  then show ?case by simp
next
  case (Cons a ps)
  then obtain b qs' where "qs = b # qs'" by (cases qs) auto
  with Cons show ?case by (cases a; cases b) (auto simp: frame_of_def dest: encode_utf8_inj)
qed

lemma plain_policy_frames:
  assumes "plain_bundle fs" "list_all (\<lambda>(p, c). encode_utf8 p \<noteq> None) (policy_files fs)"
  shows "list_all plain_frame (map frame_of (policy_files fs))"
  unfolding list_all_iff
proof
  fix f assume "f \<in> set (map frame_of (policy_files fs))"
  then obtain g where g: "g \<in> set fs" "(fst g, crlf (snd g)) \<in> set (policy_files fs)" "f = frame_of (fst g, crlf (snd g))"
    by (fastforce simp: policy_files_def)
  define p c where "p = fst g" and "c = snd g"
  have m: "(p, c) \<in> set fs" "(p, crlf c) \<in> set (policy_files fs)" "f = frame_of (p, crlf c)"
    using g by (simp_all add: p_def c_def)
  then obtain b where "encode_utf8 p = Some b" using assms(2) by (auto simp: list_all_iff)
  then show "plain_frame f"
    using assms(1) m set_crlf [of c] by (auto simp: list_all_iff plain_bundle_def plain_frame_def frame_of_def)
qed

text \<open>
  the revision identifies the bundle (POLICY-014). Two bundles with the same revision hold the
  same policy files with the same content up to line endings, whatever the order the directory
  lists them in and whatever their stamps say, and conversely; provided the truncated hash
  separates the two serializations and no file holds a NUL byte.
\<close>

lemma revision_identifies_bundle:
  assumes "bundle_bytes (sort_key fst fs) = Inr b" "bundle_bytes (sort_key fst fs') = Inr b'"
    and "plain_bundle fs" "plain_bundle fs'"
    and "take 16 (sha256_hexdigest env b) = take 16 (sha256_hexdigest env b') \<Longrightarrow> b = b'"
  shows "bundle_revision env fs = bundle_revision env fs' \<longleftrightarrow> policy_files fs = policy_files fs'"
proof -
  have b: "b = frames (map frame_of (policy_files fs))" "b' = frames (map frame_of (policy_files fs'))"
    and e: "list_all (\<lambda>(p, c). encode_utf8 p \<noteq> None) (policy_files fs)"
      "list_all (\<lambda>(p, c). encode_utf8 p \<noteq> None) (policy_files fs')"
    using bundle_bytes_Inr [OF assms(1)] bundle_bytes_Inr [OF assms(2)] by (simp_all add: policy_files_def)
  have "policy_files fs = policy_files fs'" if "b = b'"
    using frame_of_inj [OF e] frames_inj [OF plain_policy_frames [OF assms(3) e(1)] plain_policy_frames [OF assms(4) e(2)]]
      b that by simp
  then show ?thesis using assms b by (auto simp: bundle_revision_def)
qed

section \<open>Examples\<close>

definition demo_policy :: policy_config where
  "demo_policy = (cfg_policy demo_config) \<lparr> pol_decision_path := u ''/d'', pol_discoverable_path := u ''/v'' \<rparr>"

definition broker_target :: resolved_target where
  "broker_target = \<lparr> tgt_server_id = u ''fs'', tgt_tool_name = Some (u ''read''),
     tgt_schema_fingerprint = Some (u ''v2:h''), tgt_risk_tier = R1, tgt_operation = Op_read \<rparr>"

definition broker_drv :: derived_attributes where
  "broker_drv = \<lparr> drv_canonical_path = u ''/s/a/f'', drv_root = u ''public'', drv_operation = Op_read,
     drv_classification = u ''public'', drv_exists = True, drv_arg_hash = u ''h'', drv_raw_hash = u ''h'',
     drv_path_argument = u ''path'', drv_relative_path = u ''a/f'' \<rparr>"

definition checked_data :: policy_data where
  "checked_data = \<lparr> data_role_vocabulary = [u ''intern'', u ''developer'', u ''auditor''],
     data_roots = map (\<lambda>n. (n, demo_root \<lparr> root_name := n \<rparr>)) [u ''public'', u ''workspace'', u ''confidential'', u ''production''] \<rparr>"

abbreviation demo_engine :: policy_engine where
  "demo_engine \<equiv> bundle_engine checked_data demo_policy (u ''r1'')"

abbreviation demo_input :: policy_input where
  "demo_input \<equiv> build_input demo_call demo_ctx broker_target broker_drv (eng_revision demo_engine)"

theorem evaluate_implements_bundle_witness:
  "\<exists>dec. evaluate demo_call demo_ctx broker_target broker_drv (Some demo_engine) demo_policy = Inr dec
     \<and> dec_decision dec = Allow \<and> dec_risk_tier dec = R1"
proof -
  have r: "eng_revision demo_engine \<noteq> []" by code_simp
  have "granted demo_input" "root_permits_operation checked_data demo_input" "\<not> prohibited demo_input" by code_simp+
  moreover have "tgt_risk_tier broker_target = R1" by (simp add: broker_target_def)
  ultimately show ?thesis
    using evaluate_implements_bundle [OF bundle_sidecar r refl, where req = demo_call and ctx = demo_ctx and tgt = broker_target
        and drv = broker_drv]
    by auto
qed

lemma checked_discovery_exact_witness:
  "\<nexists>i. in_roles i = ctx_roles demo_ctx \<and> in_operation i = operation_value Op_delete \<and> \<not> is_discovery i
     \<and> classified checked_data i \<and> says ''allow'' (decision checked_data i)"
proof -
  have "check_bundle (bundle_get checked_data (u ''r1'')) (u ''r1'') = Inr ()" by code_simp
  note exact = checked_discovery_exact [OF bundle_sidecar this, of demo_policy demo_ctx Op_delete]
  have "discoverable (Some demo_engine) demo_policy demo_ctx Op_delete = Inr False" by code_simp
  with exact show ?thesis by simp
qed

lemma demo_dec:
  "evaluate demo_call demo_ctx broker_target broker_drv (Some demo_engine) demo_policy =
     Inr \<lparr> dec_request_id = req_id demo_call, dec_method = u ''tools/call'', dec_tool_name = Some (u ''read''),
       dec_decision = Allow, dec_reason_code = u ''POLICY_SCOPED_READ'', dec_risk_tier = R1,
       dec_policy_revision = u ''r1'', dec_obligations = \<lparr> ob_timeout_ms = 3000, ob_max_response_bytes = 4000 \<rparr>,
       dec_arg_hash = u ''h'', dec_clamped = True \<rparr>"
  by code_simp

theorem evaluate_fail_closed_witness:
  "\<exists>n m answer doc. eng_post demo_engine (pol_decision_path demo_policy) (payload (input_doc demo_input)) n = Body (PObj m answer)
     \<and> field answer ''result'' = PObj Mut doc \<and> field doc ''decision'' = PStr (u ''allow'')"
proof -
  from evaluate_fail_closed [OF demo_dec] obtain eng n m answer doc where e: "Some demo_engine = Some eng"
    "eng_post eng (pol_decision_path demo_policy)
       (payload (input_doc (build_input demo_call demo_ctx broker_target broker_drv (eng_revision eng)))) n = Body (PObj m answer)"
    "field answer ''result'' = PObj Mut doc" "field doc ''decision'' = PStr (u (verdict_value Allow))"
    unfolding Let_def decision.select_convs by blast
  have eng: "eng = demo_engine" using e(1) by (simp only: option.inject)
  show ?thesis using e(2-4) unfolding eng by (intro exI [of _ n] exI [of _ m] exI [of _ answer] exI [of _ doc]) (simp add: verdict_value_def)
qed

lemma evaluate_errors_witness:
  "evaluate demo_call demo_ctx broker_target broker_drv None demo_policy = Inl (policy_deny POLICY_UNAVAILABLE)"
proof -
  have "evaluate demo_call demo_ctx broker_target broker_drv None demo_policy = Inl (policy_deny POLICY_UNAVAILABLE)"
    by (simp add: evaluate_def)
  from evaluate_errors [OF this] this show ?thesis by blast
qed

lemma clamp_narrows_witness:
  "clamp (PObj Mut [(u ''timeout_ms'', PInt 20000)]) demo_policy
     = (\<lparr> ob_timeout_ms = 10000, ob_max_response_bytes = 1000 \<rparr>, True)"
proof -
  have "0 < pol_default_timeout_ms demo_policy" "0 < pol_max_timeout_ms demo_policy"
    "0 < pol_default_response_bytes demo_policy" "0 < pol_max_response_bytes demo_policy" by code_simp+
  note clamp_narrows [OF refl this, of "[(u ''timeout_ms'', PInt 20000)]"]
  moreover have "clamp (PObj Mut [(u ''timeout_ms'', PInt 20000)]) demo_policy
     = (\<lparr> ob_timeout_ms = 10000, ob_max_response_bytes = 1000 \<rparr>, True)" by code_simp
  ultimately show ?thesis by blast
qed

lemma revision_identifies_bundle_witness:
  "bundle_revision plain_env [(u ''b.rego'', [13, 10]), (u ''a.rego'', [97])]
     = bundle_revision plain_env [(u ''a.rego'', [97]), (u ''revision.rego'', [98]), (u ''b.rego'', [10])]"
proof -
  let ?a = "[(u ''b.rego'', [13, 10]), (u ''a.rego'', [97])] :: (ustr \<times> bytes) list"
  let ?b = "[(u ''a.rego'', [97]), (u ''revision.rego'', [98]), (u ''b.rego'', [10])] :: (ustr \<times> bytes) list"
  let ?s = "map of_nat (u ''a.rego'') @ [0, 97, 10] @ map of_nat (u ''b.rego'') @ [0, 10, 10] :: bytes"
  have s: "bundle_bytes (sort_key fst ?a) = Inr ?s" "bundle_bytes (sort_key fst ?b) = Inr ?s" by code_simp+
  have p: "plain_bundle ?a" "plain_bundle ?b" by code_simp+
  have "policy_files ?a = policy_files ?b" by code_simp
  then show ?thesis by (simp only: revision_identifies_bundle [OF s p refl])
qed

end
