(* ===== verification/Canonicalize.thy ===== *)
theory Canonicalize
  imports Gateway_Config
begin

text \<open>
  \<open>gateway/canonicalize/fs.py\<close>: from the path a client supplied to the resource policy
  decides about. The steps before the file system is touched are string functions; the rest
  works on the file system of \<open>Py_Path\<close>. The theorems state containment on the resolved path,
  that a second decoding pass changes nothing, that the file the upstream opens is the one
  that was checked, and the case in which it is not. A name with a code point the file system
  encoding refuses (a lone surrogate) is here a name without an entry: the request ends in a
  denial or in the \<open>UnicodeEncodeError\<close> of the argument hash, in Python in that of \<open>os.lstat\<close>.
\<close>

abbreviation canon_deny :: "reason_code \<Rightarrow> exc" where
  "canon_deny c \<equiv> Denial CANONICAL c"

section \<open>Before the file system\<close>

definition IMPLEMENTED_DECODE_RULE :: ustr where
  "IMPLEMENTED_DECODE_RULE = u ''v1''"

definition PATH_ARG :: ustr where
  "PATH_ARG = u ''path''"

definition DEFAULT_PATH :: ustr where
  "DEFAULT_PATH = u ''.''"

definition RESERVED_NAMES :: "ustr list" where
  "RESERVED_NAMES = [u ''CON'', u ''PRN'', u ''AUX'', u ''NUL'']
     @ map (\<lambda>i. u ''COM'' @ nat_text i) [1..<10] @ map (\<lambda>i. u ''LPT'' @ nat_text i) [1..<10]"

definition CREATE_LIKE :: "operation list" where
  "CREATE_LIKE = [Op_create, Op_overwrite, Op_append, Op_rename]"

definition decode_once :: "ustr \<Rightarrow> ustr result" where
  "decode_once raw =
     (case unquote raw of
        None \<Rightarrow> Inl (canon_deny CANON_ENCODING_INVALID)
      | Some decoded \<Rightarrow>
          if has_escape decoded then Inl (canon_deny CANON_ENCODING_INVALID) else Inr decoded)"

definition reject_control_characters :: "ustr \<Rightarrow> unit result" where
  "reject_control_characters s =
     raise_if (list_ex (\<lambda>c. c = 0x7F \<or> c < 0x20) s) (canon_deny CANON_NULL_BYTE)"

text \<open>One component. \<open>ascii_upper\<close> stands for \<open>str.upper\<close>: no other character has an
  upper-case form that completes a reserved name.\<close>

definition hostile_part :: "ustr \<Rightarrow> bool" where
  "hostile_part part \<longleftrightarrow>
     part \<noteq> [] \<and> part \<noteq> dot \<and> part \<noteq> dotdot
     \<and> (58 \<in> set part
        \<or> part \<noteq> rstrip_of (\<lambda>c. c = 46 \<or> c = 32) part
        \<or> ascii_upper (hd (split_on 46 part)) \<in> set RESERVED_NAMES)"

definition reject_hostile_syntax :: "ustr \<Rightarrow> unit result" where
  "reject_hostile_syntax s =
     forR (\<lambda>part. raise_if (hostile_part part) (canon_deny CANON_PATH_REJECTED)) (parts s)"

text \<open>
  \<open>PurePosixPath(s).is_absolute()\<close>, or a drive or root under the Windows flavour: a leading
  slash is absolute for POSIX, and otherwise a drive is one character and a colon.
\<close>

definition absolute_any :: "ustr \<Rightarrow> bool" where
  "absolute_any s \<longleftrightarrow> is_abs s \<or> (2 \<le> length s \<and> s ! 1 = 58)"

definition sanitize :: "pyenv \<Rightarrow> ustr \<Rightarrow> canonicalize_config \<Rightarrow> ustr result" where
  "sanitize env raw cfg =
     bindR (raise_if (can_max_path_length cfg < int (length raw)) (canon_deny CANON_PATH_REJECTED)) (\<lambda>_.
     bindR (reject_control_characters raw) (\<lambda>_.
     bindR (decode_once raw) (\<lambda>decoded.
     bindR (reject_control_characters decoded) (\<lambda>_.
     let s = map (\<lambda>c. if c = 92 then 47 else c) (normalize_nfc env decoded) in
     bindR (reject_hostile_syntax s) (\<lambda>_.
     bindR (raise_if (absolute_any s) (canon_deny CANON_OUTSIDE_ROOT)) (\<lambda>_.
     Inr s))))))"

section \<open>The file system\<close>

record resolved_config =
  rsv_base :: path
  rsv_roots :: "(path \<times> root_config) list"
  rsv_decoys :: "path list"

text \<open>
  The configuration resolved once; the cache is keyed on the configured strings, so the file
  system of the first call is the one that counts. Deepest roots first.
\<close>

definition realpaths :: "pyver \<Rightarrow> fsys \<Rightarrow> path \<Rightarrow> canonicalize_config \<Rightarrow> path \<times> path list \<times> path list" where
  "realpaths v fs cwd cfg =
     (let real_base = fst (realpath v fs (abs_parts cwd (can_base cfg)))
      in (real_base,
          map (\<lambda>r. fst (realpath v fs (abs_parts cwd (root_path r)))) (can_roots cfg),
          map (\<lambda>d. fst (realpath v fs (pure_join real_base d))) (can_sensitive_decoys cfg)))"

definition resolved :: "pyver \<Rightarrow> fsys \<Rightarrow> path \<Rightarrow> canonicalize_config \<Rightarrow> resolved_config" where
  "resolved v fs cwd cfg =
     (case realpaths v fs cwd cfg of (base, root_paths, decoys) \<Rightarrow>
        \<lparr> rsv_base = base,
          rsv_roots = sort_key (\<lambda>(p, r). - int (length p)) (zip root_paths (can_roots cfg)),
          rsv_decoys = decoys \<rparr>)"

definition containing_root :: "path \<Rightarrow> resolved_config \<Rightarrow> root_config option" where
  "containing_root p res = map_option snd (find (\<lambda>(real_root, root). is_relative_to p real_root) (rsv_roots res))"

text \<open>The real path with its flag, and the lexical one, which only chooses a reason code.\<close>

definition resolve_path :: "pyver \<Rightarrow> fsys \<Rightarrow> ustr \<Rightarrow> resolved_config \<Rightarrow> (path \<times> bool) \<times> path" where
  "resolve_path v fs s res =
     (let candidate = pure_join (rsv_base res) s in (realpath v fs candidate, normpath candidate))"

definition relative_to_base :: "path \<Rightarrow> resolved_config \<Rightarrow> ustr result" where
  "relative_to_base real res =
     (case relative_to real (rsv_base res) of
        None \<Rightarrow> Inl (canon_deny CANON_RESOLUTION_FAILED)
      | Some r \<Rightarrow> Inr (rel_as_posix r))"

definition require_existence :: "fsys \<Rightarrow> path \<Rightarrow> operation \<Rightarrow> bool result" where
  "require_existence fs real op =
     (if op \<in> set CREATE_LIKE then
        (if \<not> is_dir fs (butlast real) then Inl (canon_deny CANON_RESOLUTION_FAILED)
         else Inr (path_exists fs real))
      else if \<not> path_exists fs real then Inl (canon_deny CANON_RESOLUTION_FAILED)
      else Inr True)"

definition refine_operation :: "operation \<Rightarrow> bool \<Rightarrow> operation" where
  "refine_operation registry_op target_exists =
     (if registry_op = Op_create \<or> registry_op = Op_overwrite
      then (if target_exists then Op_overwrite else Op_create)
      else registry_op)"

section \<open>The stage\<close>

definition raw_path :: "pyenv \<Rightarrow> canonical_request \<Rightarrow> ustr" where
  "raw_path env req =
     (case dict_get (items (req_arguments req)) PATH_ARG of
        None \<Rightarrow> DEFAULT_PATH
      | Some (PStr s) \<Rightarrow> s
      | Some v \<Rightarrow> str_of env v)"

definition no_resource :: "pyenv \<Rightarrow> canonical_request \<Rightarrow> derived_attributes result" where
  "no_resource env req =
     mapR (\<lambda>h. \<lparr> drv_canonical_path = [], drv_root = [], drv_operation = Op_read,
                 drv_classification = [], drv_exists = False, drv_arg_hash = h,
                 drv_raw_hash = sha256_hex env [], drv_path_argument = [], drv_relative_path = [] \<rparr>)
       (argument_hash env (req_arguments req) [])"

definition encode_path :: "ustr \<Rightarrow> bytes result" where
  "encode_path raw = (case encode_utf8 raw of None \<Rightarrow> Inl (PyError ''UnicodeEncodeError'') | Some b \<Rightarrow> Inr b)"

definition derive_path ::
    "pyenv \<Rightarrow> pyver \<Rightarrow> fsys \<Rightarrow> resolved_config \<Rightarrow> canonical_request \<Rightarrow> resolved_target \<Rightarrow> ustr
      \<Rightarrow> path \<Rightarrow> path \<Rightarrow> derived_attributes result" where
  "derive_path env v fs res req tgt raw real lexical =
     (case containing_root real res of
        None \<Rightarrow> Inl (canon_deny (if containing_root lexical res \<noteq> None then CANON_SYMLINK_ESCAPE
                                else CANON_OUTSIDE_ROOT))
      | Some root \<Rightarrow>
          bindR (raise_if (list_ex (\<lambda>d. real = d \<or> is_relative_to real d) (rsv_decoys res))
                   (canon_deny CANON_SENSITIVE_PATH)) (\<lambda>_.
          bindR (require_existence fs real (tgt_operation tgt)) (\<lambda>target_exists.
          bindR (relative_to_base real res) (\<lambda>relative.
          bindR (argument_hash env (req_arguments req) (as_posix real)) (\<lambda>arg_hash.
          bindR (encode_path raw) (\<lambda>raw_bytes.
          Inr \<lparr> drv_canonical_path = as_posix real, drv_root = root_name root,
                drv_operation = refine_operation (tgt_operation tgt) target_exists,
                drv_classification = root_classification root, drv_exists = target_exists,
                drv_arg_hash = arg_hash, drv_raw_hash = sha256_hex env raw_bytes,
                drv_path_argument = PATH_ARG, drv_relative_path = relative \<rparr>))))))"

text \<open>\<open>fs0\<close> is the file system when the configuration was first resolved, \<open>fs\<close> the present one.\<close>

definition derive ::
    "pyenv \<Rightarrow> pyver \<Rightarrow> fsys \<Rightarrow> fsys \<Rightarrow> path \<Rightarrow> canonical_request \<Rightarrow> resolved_target \<Rightarrow> canonicalize_config
      \<Rightarrow> derived_attributes result" where
  "derive env v fs0 fs cwd req tgt cfg =
     (case tgt_tool_name tgt of
        None \<Rightarrow> no_resource env req
      | Some _ \<Rightarrow>
          (let res = resolved v fs0 cwd cfg; raw = raw_path env req in
           bindR (sanitize env raw cfg) (\<lambda>s.
           case resolve_path v fs s res of ((real, ok), lexical) \<Rightarrow>
             derive_path env v fs res req tgt raw real lexical)))"

definition canonical_audit_fields :: "derived_attributes \<Rightarrow> (ustr \<times> pyval) list" where
  "canonical_audit_fields drv =
     [(u ''canonical_resource'', PStr (drv_canonical_path drv)),
      (u ''classification'', PStr (drv_classification drv)),
      (u ''operation'', PStr (operation_value (drv_operation drv))),
      (u ''arg_hash'', PStr (drv_arg_hash drv)),
      (u ''raw_hash'', PStr (drv_raw_hash drv))]"

section \<open>Lemmas\<close>

lemma containing_root_deepest:
  assumes "containing_root p (resolved v fs cwd cfg) = Some root"
  shows "\<exists>q. (q, root) \<in> set (rsv_roots (resolved v fs cwd cfg)) \<and> is_relative_to p q
    \<and> (\<forall>(q', r') \<in> set (rsv_roots (resolved v fs cwd cfg)). is_relative_to p q' \<longrightarrow> length q' \<le> length q)"
proof -
  define rs where "rs = rsv_roots (resolved v fs cwd cfg)"
  have srt: "sorted (map (\<lambda>(p, r). - int (length p)) rs)"
    by (simp add: rs_def resolved_def realpaths_def Let_def)
  obtain q where f: "find (\<lambda>(q, r). is_relative_to p q) rs = Some (q, root)"
    using assms by (auto simp: containing_root_def rs_def)
  then obtain i where i0: "i < length rs" "is_relative_to p (fst (rs ! i))" "(q, root) = rs ! i"
    "\<forall>j < i. \<not> is_relative_to p (fst (rs ! j))"
    by (auto simp: find_Some_iff case_prod_unfold)
  then have i: "i < length rs" "is_relative_to p q" "rs ! i = (q, root)"
    "\<And>j. j < i \<Longrightarrow> \<not> is_relative_to p (fst (rs ! j))"
    by (metis fst_conv)+
  have "length q' \<le> length q" if m: "(q', r') \<in> set rs" "is_relative_to p q'" for q' r'
  proof -
    obtain j where j: "j < length rs" "rs ! j = (q', r')" using m(1) unfolding in_set_conv_nth by blast
    have "i \<le> j" using i(4) [of j] j m(2) by (metis fst_conv not_le)
    with sorted_nth_mono [OF srt this] j i show ?thesis by simp
  qed
  moreover have "(q, root) \<in> set rs" using i by (metis nth_mem)
  ultimately show ?thesis using i(2) unfolding rs_def by blast
qed

lemma rsv_roots_set:
  "set (rsv_roots (resolved v fs cwd cfg))
     = {(fst (realpath v fs (abs_parts cwd (root_path r))), r) | r. r \<in> set (can_roots cfg)}"
  by (auto simp: resolved_def realpaths_def Let_def set_zip in_set_conv_nth) force

lemma decode_once_Inr_iff:
  "decode_once raw = Inr s \<longleftrightarrow> unquote raw = Some s \<and> \<not> has_escape s"
  by (auto simp: decode_once_def split: option.splits)

text \<open>
  decoding is done exactly once (CANON-001). Of a path that passes the residual check
  nothing is left to decode: another pass, or any number of them, returns the same path.
\<close>

lemma decode_once_is_final:
  assumes "decode_once raw = Inr s"
  shows "unquote s = Some s \<and> decode_once s = Inr s"
  using assms by (simp add: decode_once_Inr_iff unquote_id)

lemma decode_once_is_final_witness:
  "decode_once (u ''workspace/f.txt'') = Inr (u ''workspace/f.txt'')"
proof -
  have "decode_once (u ''%77orkspace/f.txt'') = Inr (u ''workspace/f.txt'')" by code_simp
  from decode_once_is_final [OF this] show ?thesis by blast
qed

lemma relative_to_append [simp]: "relative_to (q @ r) q = Some r"
  by (simp add: relative_to_Some_iff)

lemma derive_path_Inr_iff:
  "derive_path env v fs res req tgt raw real lexical = Inr drv \<longleftrightarrow>
     (\<exists>root target_exists r raw_bytes.
        containing_root real res = Some root
        \<and> list_all (\<lambda>d. \<not> is_relative_to real d) (rsv_decoys res)
        \<and> require_existence fs real (tgt_operation tgt) = Inr target_exists
        \<and> real = rsv_base res @ r
        \<and> argument_hash env (req_arguments req) (as_posix real) = Inr (drv_arg_hash drv)
        \<and> encode_path raw = Inr raw_bytes
        \<and> drv = \<lparr> drv_canonical_path = as_posix real, drv_root = root_name root,
                drv_operation = refine_operation (tgt_operation tgt) target_exists,
                drv_classification = root_classification root, drv_exists = target_exists,
                drv_arg_hash = drv_arg_hash drv, drv_raw_hash = sha256_hex env raw_bytes,
                drv_path_argument = PATH_ARG, drv_relative_path = rel_as_posix r \<rparr>)"
  by (auto simp: derive_path_def relative_to_base_def bindR_Inr_iff raise_if_Inr_iff relative_to_Some_iff
      list_all_iff list_ex_iff split: option.splits)

lemma require_existence_Inr_iff:
  "require_existence fs real op = Inr e \<longleftrightarrow>
     e = path_exists fs real \<and> (if op \<in> set CREATE_LIKE then is_dir fs (butlast real) else path_exists fs real)"
  by (auto simp: require_existence_def)

lemma derive_facts:
  assumes "derive env v fs0 fs cwd req tgt cfg = Inr drv" "tgt_tool_name tgt = Some n"
    and "res = resolved v fs0 cwd cfg"
  shows "\<exists>s real q root r.
      sanitize env (raw_path env req) cfg = Inr s
    \<and> real = fst (realpath v fs (pure_join (rsv_base res) s)) \<and> drv_canonical_path drv = as_posix real
    \<and> root \<in> set (can_roots cfg) \<and> q = fst (realpath v fs0 (abs_parts cwd (root_path root)))
    \<and> is_relative_to real q \<and> drv_root drv = root_name root
    \<and> drv_classification drv = root_classification root
    \<and> (\<forall>(q', r') \<in> set (rsv_roots res). is_relative_to real q' \<longrightarrow> length q' \<le> length q)
    \<and> (\<forall>d \<in> set (rsv_decoys res). \<not> is_relative_to real d)
    \<and> real = rsv_base res @ r \<and> drv_relative_path drv = rel_as_posix r
    \<and> drv_exists drv = path_exists fs real
    \<and> (if tgt_operation tgt \<in> set CREATE_LIKE then is_dir fs (butlast real) else path_exists fs real)
    \<and> drv_operation drv = refine_operation (tgt_operation tgt) (drv_exists drv)
    \<and> argument_hash env (req_arguments req) (drv_canonical_path drv) = Inr (drv_arg_hash drv)"
proof -
  obtain s where s: "sanitize env (raw_path env req) cfg = Inr s"
    and d: "derive_path env v fs res req tgt (raw_path env req)
        (fst (realpath v fs (pure_join (rsv_base res) s))) (normpath (pure_join (rsv_base res) s)) = Inr drv"
    using assms by (auto simp: derive_def Let_def bindR_Inr_iff resolve_path_def case_prod_unfold)
  define real where "real = fst (realpath v fs (pure_join (rsv_base res) s))"
  from d obtain root te r rb where root: "containing_root real res = Some root"
    and rest: "list_all (\<lambda>d. \<not> is_relative_to real d) (rsv_decoys res)" "real = rsv_base res @ r"
      "require_existence fs real (tgt_operation tgt) = Inr te"
      "argument_hash env (req_arguments req) (as_posix real) = Inr (drv_arg_hash drv)"
    and drv: "drv = \<lparr> drv_canonical_path = as_posix real, drv_root = root_name root,
                drv_operation = refine_operation (tgt_operation tgt) te,
                drv_classification = root_classification root, drv_exists = te,
                drv_arg_hash = drv_arg_hash drv, drv_raw_hash = sha256_hex env rb,
                drv_path_argument = PATH_ARG, drv_relative_path = rel_as_posix r \<rparr>"
    unfolding real_def [symmetric] derive_path_Inr_iff by blast
  have sel: "drv_canonical_path drv = as_posix real" "drv_root drv = root_name root"
      "drv_classification drv = root_classification root" "drv_relative_path drv = rel_as_posix r"
      "drv_exists drv = te" "drv_operation drv = refine_operation (tgt_operation tgt) (drv_exists drv)"
    by (subst drv, simp)+
  from containing_root_deepest [OF root [unfolded assms(3)]] obtain q where
    q: "(q, root) \<in> set (rsv_roots res)" "is_relative_to real q"
      "\<forall>(q', r') \<in> set (rsv_roots res). is_relative_to real q' \<longrightarrow> length q' \<le> length q"
    unfolding assms(3) by blast
  have "root \<in> set (can_roots cfg) \<and> q = fst (realpath v fs0 (abs_parts cwd (root_path root)))"
    using q(1) unfolding assms(3) rsv_roots_set by auto
  moreover have "te = path_exists fs real"
    "if tgt_operation tgt \<in> set CREATE_LIKE then is_dir fs (butlast real) else path_exists fs real"
    using rest(3) by (auto simp: require_existence_Inr_iff)
  ultimately show ?thesis
    using s q rest sel unfolding list_all_iff
    by (intro exI [of _ s] exI [of _ real] exI [of _ q] exI [of _ root] exI [of _ r]) (simp add: real_def)
qed

text \<open>
  C12: policy decides about a contained, existing resource (CANON-005, CANON-007). Whenever stage 05
  yields attributes for a tool call, the canonical path is the resolved form of the supplied path
  below the base; as a path it lies in the deepest approved root containing it, whose name and
  classification are reported, and below no sensitive decoy; its parent (for a create-like
  operation) or it itself exists; and the argument hash covers exactly that path. When the
  resolution met no link loop the path holds no symbolic link, and whoever walks it arrives at
  that path and nowhere else, so the object is inside the root too.
\<close>

theorem derive_contained:
  assumes "derive env v fs0 fs cwd req tgt cfg = Inr drv" "tgt_tool_name tgt = Some n"
    and "res = resolved v fs0 cwd cfg"
  shows "\<exists>s real q root r.
      sanitize env (raw_path env req) cfg = Inr s
    \<and> real = fst (realpath v fs (pure_join (rsv_base res) s)) \<and> drv_canonical_path drv = as_posix real
    \<and> root \<in> set (can_roots cfg) \<and> q = fst (realpath v fs0 (abs_parts cwd (root_path root)))
    \<and> is_relative_to real q \<and> drv_root drv = root_name root
    \<and> drv_classification drv = root_classification root
    \<and> (\<forall>(q', r') \<in> set (rsv_roots res). is_relative_to real q' \<longrightarrow> length q' \<le> length q)
    \<and> (\<forall>d \<in> set (rsv_decoys res). \<not> is_relative_to real d)
    \<and> real = rsv_base res @ r \<and> drv_relative_path drv = rel_as_posix r
    \<and> drv_exists drv = path_exists fs real
    \<and> (if tgt_operation tgt \<in> set CREATE_LIKE then is_dir fs (butlast real) else path_exists fs real)
    \<and> drv_operation drv = refine_operation (tgt_operation tgt) (drv_exists drv)
    \<and> argument_hash env (req_arguments req) (drv_canonical_path drv) = Inr (drv_arg_hash drv)
    \<and> (snd (realpath v fs (pure_join (rsv_base res) s)) \<longrightarrow>
        links_free fs real \<and> (\<forall>k. os_walk fs k [] real \<in> {None, Some real}))"
proof -
  obtain s real q root r where d: "sanitize env (raw_path env req) cfg = Inr s"
      "real = fst (realpath v fs (pure_join (rsv_base res) s)) \<and> drv_canonical_path drv = as_posix real
    \<and> root \<in> set (can_roots cfg) \<and> q = fst (realpath v fs0 (abs_parts cwd (root_path root)))
    \<and> is_relative_to real q \<and> drv_root drv = root_name root
    \<and> drv_classification drv = root_classification root
    \<and> (\<forall>(q', r') \<in> set (rsv_roots res). is_relative_to real q' \<longrightarrow> length q' \<le> length q)
    \<and> (\<forall>d \<in> set (rsv_decoys res). \<not> is_relative_to real d)
    \<and> real = rsv_base res @ r \<and> drv_relative_path drv = rel_as_posix r
    \<and> drv_exists drv = path_exists fs real
    \<and> (if tgt_operation tgt \<in> set CREATE_LIKE then is_dir fs (butlast real) else path_exists fs real)
    \<and> drv_operation drv = refine_operation (tgt_operation tgt) (drv_exists drv)
    \<and> argument_hash env (req_arguments req) (drv_canonical_path drv) = Inr (drv_arg_hash drv)"
    using derive_facts [OF assms] by blast
  have "links_free fs real \<and> (\<forall>k. os_walk fs k [] real \<in> {None, Some real})"
    if "snd (realpath v fs (pure_join (rsv_base res) s))"
  proof -
    have "realpath v fs (pure_join (rsv_base res) s) = (real, True)" using that d(2) by (simp add: prod_eq_iff)
    then have r: "realpath v fs (pure_join (rsv_base res) s) = ([] @ real, True)" by simp
    have "os_walk fs k [] real \<in> {None, Some real}" for k
      using py_path.kernel_opens_suffix [OF r, of k] by (cases "os_walk fs k [] real") auto
    then show ?thesis using py_path.links_free_resolved [OF r] by simp
  qed
  with d show ?thesis by blast
qed

text \<open>
  C13: the upstream opens what was authorized (ROUTE-004). When the resolution met no link
  loop, walking the forwarded relative path from the base, as the upstream does, reaches the
  canonical path itself and follows no symbolic link on the way.
\<close>

theorem upstream_opens_canonical:
  assumes "derive env v fs0 fs cwd req tgt cfg = Inr drv" "tgt_tool_name tgt = Some n"
    and "res = resolved v fs0 cwd cfg" "sanitize env (raw_path env req) cfg = Inr s"
    and "snd (realpath v fs (pure_join (rsv_base res) s))"
  shows "\<exists>r. drv_relative_path drv = rel_as_posix r \<and> drv_canonical_path drv = as_posix (rsv_base res @ r)
    \<and> links_free fs (rsv_base res @ r)
    \<and> (\<forall>k. os_walk fs k (rsv_base res) r \<in> {None, Some (rsv_base res @ r)})"
proof -
  obtain r where r: "fst (realpath v fs (pure_join (rsv_base res) s)) = rsv_base res @ r"
    "drv_relative_path drv = rel_as_posix r" "drv_canonical_path drv = as_posix (rsv_base res @ r)"
    using derive_facts [OF assms(1-3)] assms(4) by auto
  then have real: "realpath v fs (pure_join (rsv_base res) s) = (rsv_base res @ r, True)"
    using assms(5) by (cases "realpath v fs (pure_join (rsv_base res) s)") auto
  have "os_walk fs k (rsv_base res) r \<in> {None, Some (rsv_base res @ r)}" for k
    using py_path.kernel_opens_suffix [OF real, of k]
    by (cases "os_walk fs k (rsv_base res) r") auto
  with r py_path.links_free_resolved [OF real] show ?thesis by blast
qed

section \<open>Examples\<close>

definition trap_fs :: fsys where
  "trap_fs =
     [([u ''s''], Dir), ([u ''s'', u ''pub''], Dir), ([u ''s'', u ''pub'', u ''f''], File),
      ([u ''s'', u ''traps''], Dir), ([u ''s'', u ''traps'', u ''loop''], Link (u ''loop'')),
      ([u ''s'', u ''traps'', u ''out''], Link (u ''/etc'')),
      ([u ''etc''], Dir), ([u ''etc'', u ''x''], File)]"

definition mk_root :: "string \<Rightarrow> string \<Rightarrow> root_config" where
  "mk_root n p = demo_root \<lparr> root_name := u n, root_path := u p, root_classification := u ''internal'' \<rparr>"

definition trap_config :: canonicalize_config where
  "trap_config = \<lparr> can_base = u ''s'', can_roots = [mk_root ''pub'' ''s/pub'', mk_root ''traps'' ''s/traps''],
     can_max_path_length = 100, can_sensitive_decoys = [] \<rparr>"

definition path_request :: "string \<Rightarrow> canonical_request" where
  "path_request p = CanonicalRequest (u ''r'') (u ''v'') (u ''tools/call'') (Id_int 1) (Some (u ''read''))
     (PObj Mut [(u ''path'', PStr (u p))]) [] []"

definition read_target :: resolved_target where
  "read_target = \<lparr> tgt_server_id = u ''fs'', tgt_tool_name = Some (u ''read''),
     tgt_schema_fingerprint = Some (u ''v2:h''), tgt_risk_tier = R1, tgt_operation = Op_read \<rparr>"

definition read_drv :: derived_attributes where
  "read_drv = \<lparr> drv_canonical_path = u ''/s/pub/f'', drv_root = u ''pub'', drv_operation = Op_read,
     drv_classification = u ''internal'', drv_exists = True,
     drv_arg_hash = u ''{\"canonical_path\":\"/s/pub/f\",\"path\":\"pub/%66\"}'',
     drv_raw_hash = u ''pub/%66'', drv_path_argument = u ''path'', drv_relative_path = u ''pub/f'' \<rparr>"

lemma read_derive:
  "derive plain_env Py313 trap_fs trap_fs [] (path_request ''pub/%66'') read_target trap_config = Inr read_drv"
  by code_simp

theorem derive_contained_witness:
  "\<exists>real. u ''/s/pub/f'' = as_posix real \<and> path_exists trap_fs real \<and> links_free trap_fs real"
proof -
  let ?res = "resolved Py313 trap_fs [] trap_config"
  have t: "tgt_tool_name read_target = Some (u ''read'')" by (simp add: read_target_def)
  have s: "sanitize plain_env (raw_path plain_env (path_request ''pub/%66'')) trap_config = Inr (u ''pub/f'')" by code_simp
  have k: "snd (realpath Py313 trap_fs (pure_join (rsv_base ?res) (u ''pub/f'')))" by code_simp
  from derive_contained [OF read_derive t refl] s k show ?thesis by (auto simp: read_drv_def)
qed

theorem upstream_opens_canonical_witness:
  "\<exists>r. u ''/s/pub/f'' = as_posix ([u ''s''] @ r) \<and> links_free trap_fs ([u ''s''] @ r)"
proof -
  have t: "tgt_tool_name read_target = Some (u ''read'')" by (simp add: read_target_def)
  have b: "rsv_base (resolved Py313 trap_fs [] trap_config) = [u ''s'']" by code_simp
  have s: "sanitize plain_env (raw_path plain_env (path_request ''pub/%66'')) trap_config = Inr (u ''pub/f'')"
    by code_simp
  have k: "snd (realpath Py313 trap_fs (pure_join (rsv_base (resolved Py313 trap_fs [] trap_config)) (u ''pub/f'')))"
    by code_simp
  from upstream_opens_canonical [OF read_derive t refl s k] show ?thesis
    by (auto simp: read_drv_def b)
qed

text \<open>
  on Python 3.12, which the project supports, the loop condition of the previous property
  matters. \<open>realpath\<close> stops resolving at a link loop and collapses \<open>..\<close> behind it, so the
  path \<open>traps/loop/../out/x\<close> is canonicalized to \<open>/s/traps/out/x\<close>, inside the root \<open>traps\<close>,
  while the kernel opens \<open>/etc/x\<close>; Python 3.13 resolves the link and stage 05 denies.
\<close>

lemma symlink_loop_escape_312:
  "mapR drv_canonical_path
       (derive plain_env Py312 trap_fs trap_fs [] (path_request ''traps/loop/../out/x'') read_target trap_config)
     = Inr (u ''/s/traps/out/x'')
   \<and> os_walk trap_fs MAXSYMLINKS [u ''s''] (parts (u ''traps/out/x'')) = Some [u ''etc'', u ''x'']
   \<and> derive plain_env Py313 trap_fs trap_fs [] (path_request ''traps/loop/../out/x'') read_target trap_config
     = Inl (canon_deny CANON_SYMLINK_ESCAPE)"
  by (intro conjI; code_simp)

end
