(* ===== verification/Audit_Event.thy ===== *)
theory Audit_Event
  imports Registry
begin

text \<open>
  \<open>gateway/audit_schema.py\<close> and the \<open>AuditBuilder\<close> of \<open>gateway/audit.py\<close>: the records of the
  audit log, the per-request accumulator, and how a denial, an internal error, a cancellation
  and an expired deadline end up in the one event of a request.
\<close>

section \<open>The schema\<close>

datatype outcome = Out_allowed | Out_denied | Out_error | Out_cancelled | Out_timeout

definition outcome_value :: "outcome \<Rightarrow> string" where
  "outcome_value out = (case out of Out_allowed \<Rightarrow> ''allowed'' | Out_denied \<Rightarrow> ''denied'' | Out_error \<Rightarrow> ''error''
     | Out_cancelled \<Rightarrow> ''cancelled'' | Out_timeout \<Rightarrow> ''timeout'')"

definition all_outcomes :: "outcome list" where
  "all_outcomes = [Out_allowed, Out_denied, Out_error, Out_cancelled, Out_timeout]"

text \<open>The declared type of a field; every type but \<open>Ty_bool\<close> and the literals admits \<open>None\<close>.\<close>

datatype field_type =
    Ty_str | Ty_strs | Ty_ints | Ty_int | Ty_float | Ty_bool
  | Ty_opt_literal "string list"
  | Ty_literal "string list"
  | Ty_version int

definition opt_literal :: "string list \<Rightarrow> pyval \<Rightarrow> bool" where
  "opt_literal ls v \<longleftrightarrow> v = PNone \<or> list_ex (\<lambda>l. v = PStr (u l)) ls"

definition has_type :: "field_type \<Rightarrow> pyval \<Rightarrow> bool" where
  "has_type ft v =
     (case ft of
        Ty_str \<Rightarrow> v = PNone \<or> is_str v
      | Ty_strs \<Rightarrow> v = PNone \<or> (case v of PArr Frz xs \<Rightarrow> list_all is_str xs | _ \<Rightarrow> False)
      | Ty_ints \<Rightarrow> v = PNone \<or> (case v of PObj Mut kvs \<Rightarrow> list_all (\<lambda>(k, x). case x of PInt _ \<Rightarrow> True | _ \<Rightarrow> False) kvs | _ \<Rightarrow> False)
      | Ty_int \<Rightarrow> v = PNone \<or> (case v of PInt _ \<Rightarrow> True | _ \<Rightarrow> False)
      | Ty_float \<Rightarrow> v = PNone \<or> (case v of PFloat _ \<Rightarrow> True | _ \<Rightarrow> False)
      | Ty_bool \<Rightarrow> (case v of PBool _ \<Rightarrow> True | _ \<Rightarrow> False)
      | Ty_opt_literal ls \<Rightarrow> opt_literal ls v
      | Ty_literal ls \<Rightarrow> list_ex (\<lambda>l. v = PStr (u l)) ls
      | Ty_version n \<Rightarrow> v = PInt n)"

text \<open>
  The fields a stage may contribute, in the order of the class. The fields \<open>finalize\<close> fills in
  itself are separate, since a stage writing one of them is a duplicate keyword argument.
\<close>

definition SCHEMA_VERSION :: int where
  "SCHEMA_VERSION = 3"

definition STAGE_FIELDS :: "(string \<times> field_type) list" where
  "STAGE_FIELDS =
     [(''schema_version'', Ty_version SCHEMA_VERSION), (''event_type'', Ty_literal [''request'']),
      (''mcp_method'', Ty_str), (''mcp_protocol_version'', Ty_str), (''body_hash'', Ty_str),
      (''principal'', Ty_str), (''client_id'', Ty_str), (''roles'', Ty_strs),
      (''auth_method'', Ty_opt_literal [''local_config'']), (''assurance'', Ty_opt_literal [''unverified_local'']),
      (''environment'', Ty_str),
      (''server_id'', Ty_str), (''tool_name'', Ty_str), (''schema_fingerprint'', Ty_str),
      (''canonical_resource'', Ty_str), (''classification'', Ty_str), (''operation'', Ty_str),
      (''arg_hash'', Ty_str), (''raw_hash'', Ty_str),
      (''decision'', Ty_opt_literal [''allow'', ''deny'']), (''reason_code'', Ty_str),
      (''risk_tier'', Ty_opt_literal [''R0'', ''R1'', ''R2'', ''R4'']), (''policy_revision'', Ty_str),
      (''obligations'', Ty_ints), (''obligations_clamped'', Ty_bool),
      (''upstream_status'', Ty_str), (''upstream_latency_ms'', Ty_float), (''response_bytes'', Ty_int)]"

definition FINAL_FIELDS :: "string list" where
  "FINAL_FIELDS =
     [''request_id'', ''ts_start'', ''ts_end'', ''transport'', ''stage_latency_ms'', ''total_latency_ms'']"

definition model_fields :: "ustr list" where
  "model_fields = map u (FINAL_FIELDS @ [''outcome''] @ map fst STAGE_FIELDS)"

definition field_type_of :: "ustr \<Rightarrow> field_type option" where
  "field_type_of k = map_option snd (find (\<lambda>(n, ft). u n = k) STAGE_FIELDS)"

record request_event =
  rv_request_id :: ustr
  rv_ts_start :: int
  rv_ts_end :: int
  rv_fields :: "(ustr \<times> pyval) list"
  rv_stage_latency :: "(ustr \<times> pyfloat) list"
  rv_total_latency :: "pyfloat option"
  rv_outcome :: outcome

record attempt_event =
  at_ts :: int
  at_request_id :: ustr
  at_server_id :: ustr
  at_mcp_method :: ustr
  at_tool_name :: "ustr option"
  at_canonical_resource :: ustr
  at_operation :: ustr
  at_arg_hash :: ustr
  at_policy_revision :: ustr

record fault_event =
  fe_ts :: int
  fe_server_id :: ustr
  fe_reason_code :: ustr
  fe_mcp_method :: "ustr option"
  fe_fault :: "ustr option"

datatype lifecycle_kind = K_startup | K_shutdown | K_policy_load | K_rotation | K_ready | K_not_ready

record lifecycle_event =
  le_ts :: int
  le_kind :: lifecycle_kind
  le_detail :: "(ustr \<times> ustr) list"

datatype audit_record =
    Request_event request_event
  | Drift_event drift_event
  | Lifecycle_event lifecycle_event
  | Upstream_attempt attempt_event
  | Upstream_fault fault_event

section \<open>The accumulator\<close>

definition OUTCOME_BY_CODE :: "(reason_code \<times> outcome) list" where
  "OUTCOME_BY_CODE =
     [(ROUTE_CANCELLED, Out_cancelled), (ROUTE_TIMEOUT, Out_timeout), (POLICY_TIMEOUT, Out_timeout),
      (INTERNAL_ERROR, Out_error), (AUDIT_WRITE_FAILED, Out_error), (AUDIT_SCHEMA_INVALID, Out_error),
      (ROUTE_UPSTREAM_UNAVAILABLE, Out_error), (POLICY_UNAVAILABLE, Out_error),
      (RESP_ENVELOPE_INVALID, Out_error), (RESP_TOO_LARGE, Out_error), (RESP_LIMIT_EXCEEDED, Out_error),
      (RESP_SHAPE_INVALID, Out_error), (RESP_MRTR_UNSUPPORTED, Out_error), (RESP_UNSOLICITED, Out_error)]"

definition outcome_of :: "reason_code \<Rightarrow> outcome" where
  "outcome_of c = (case dict_get OUTCOME_BY_CODE c of None \<Rightarrow> Out_denied | Some out \<Rightarrow> out)"

record audit_builder =
  bld_request_id :: ustr
  bld_fields :: "(ustr \<times> pyval) list"
  bld_timer :: stage_timer
  bld_ts_start :: int
  bld_sealed :: bool

definition AuditBuilder :: "ustr \<Rightarrow> int \<Rightarrow> int \<Rightarrow> audit_builder" where
  "AuditBuilder rid now_ns now_utc =
     \<lparr> bld_request_id = rid, bld_fields = [], bld_timer = StageTimer now_ns, bld_ts_start = now_utc,
       bld_sealed = False \<rparr>"

definition dict_update :: "('k \<times> 'v) list \<Rightarrow> ('k \<times> 'v) list \<Rightarrow> ('k \<times> 'v) list" where
  "dict_update d kw = foldl (\<lambda>d (k, v). dict_set d k v) d kw"

definition set_fields :: "(ustr \<times> pyval) list \<Rightarrow> audit_builder \<Rightarrow> audit_builder result" where
  "set_fields kw b =
     (if list_all (\<lambda>(k, v). k \<in> set model_fields) kw
      then Inr (b \<lparr> bld_fields := dict_update (bld_fields b) kw \<rparr>)
      else Inl ProgrammingError)"

definition put_field :: "string \<Rightarrow> pyval \<Rightarrow> audit_builder \<Rightarrow> audit_builder" where
  "put_field k v b = b \<lparr> bld_fields := dict_set (bld_fields b) (u k) v \<rparr>"

definition setdefault :: "string \<Rightarrow> pyval \<Rightarrow> audit_builder \<Rightarrow> audit_builder" where
  "setdefault k v b = (if dict_has (bld_fields b) (u k) then b else put_field k v b)"

definition builder_stage :: "stage \<Rightarrow> int \<Rightarrow> int \<Rightarrow> audit_builder \<Rightarrow> audit_builder" where
  "builder_stage st t0 t1 b = b \<lparr> bld_timer := stage_exit (u (stage_value st)) t0 t1 (bld_timer b) \<rparr>"

definition set_outcome :: "outcome \<Rightarrow> audit_builder \<Rightarrow> audit_builder" where
  "set_outcome out = put_field ''outcome'' (PStr (u (outcome_value out)))"

definition record_denial :: "reason_code \<Rightarrow> audit_builder \<Rightarrow> audit_builder" where
  "record_denial c b =
     set_outcome (outcome_of c)
       (setdefault ''decision'' (PStr (u ''deny'')) (put_field ''reason_code'' (PStr (u (reason_value c))) b))"

definition record_internal_error :: "audit_builder \<Rightarrow> audit_builder" where
  "record_internal_error b =
     set_outcome Out_error
       (put_field ''decision'' (PStr (u ''deny''))
         (put_field ''reason_code'' (PStr (u (reason_value INTERNAL_ERROR))) b))"

definition record_cancellation :: "audit_builder \<Rightarrow> audit_builder" where
  "record_cancellation b =
     set_outcome Out_cancelled (setdefault ''reason_code'' (PStr (u (reason_value ROUTE_CANCELLED))) b)"

definition reattribute_upstream_cancellation :: "string \<Rightarrow> audit_builder \<Rightarrow> audit_builder" where
  "reattribute_upstream_cancellation status b =
     (if dict_get (bld_fields b) (u ''upstream_status'') = Some (PStr (u ''cancelled''))
      then put_field ''upstream_status'' (PStr (u status)) b else b)"

section \<open>Finalization\<close>

text \<open>
  Functions of the runtime: the clocks (the \<open>n\<close>-th reading of \<open>perf_counter_ns\<close> and of
  \<open>datetime.now\<close>, in microseconds), the true division of nanoseconds by a million, and what pydantic makes of a
  value that does not have the declared type (a coerced value, or none).
\<close>

record clock_env =
  perf_ns :: "nat \<Rightarrow> int"
  utc_us :: "nat \<Rightarrow> int"
  to_ms :: "int \<Rightarrow> pyfloat"
  coerce :: "field_type \<Rightarrow> pyval \<Rightarrow> pyval option"

definition as_ms :: "clock_env \<Rightarrow> stage_timer \<Rightarrow> (ustr \<times> pyfloat) list" where
  "as_ms env tm = map (\<lambda>(k, v). (k, to_ms env v)) (tm_ns tm)"

definition accept :: "clock_env \<Rightarrow> field_type \<Rightarrow> pyval \<Rightarrow> pyval option" where
  "accept env ft v = (if has_type ft v then Some v else coerce env ft v)"

text \<open>The keyword arguments, validated one by one; \<open>None\<close> is a \<open>ValidationError\<close>.\<close>

fun accept_fields :: "clock_env \<Rightarrow> (ustr \<times> pyval) list \<Rightarrow> (ustr \<times> pyval) list option" where
  "accept_fields env [] = Some []"
| "accept_fields env ((k, v) # kvs) =
     (case field_type_of k of
        None \<Rightarrow> None
      | Some ft \<Rightarrow>
          (case (accept env ft v, accept_fields env kvs) of
             (Some v', Some kvs') \<Rightarrow> Some ((k, v') # kvs')
           | _ \<Rightarrow> None))"

definition outcome_field :: "pyval \<Rightarrow> outcome option" where
  "outcome_field v = find (\<lambda>out. v = PStr (u (outcome_value out))) all_outcomes"

abbreviation audit_deny :: "reason_code \<Rightarrow> exc" where
  "audit_deny c \<equiv> Denial AUDIT c"

definition finalize :: "clock_env \<Rightarrow> int \<Rightarrow> int \<Rightarrow> audit_builder \<Rightarrow> request_event result" where
  "finalize env now_ns now_utc b =
     (let kw = filter (\<lambda>(k, v). k \<noteq> u ''outcome'') (bld_fields b);
          out = (case dict_get (bld_fields b) (u ''outcome'') of None \<Rightarrow> PStr (u ''error'') | Some v \<Rightarrow> v)
      in if list_ex (\<lambda>(k, v). k \<in> set (map u FINAL_FIELDS)) kw then Inl (PyError ''TypeError'')
         else case (accept_fields env kw, outcome_field out) of
           (Some kw', Some out') \<Rightarrow>
             Inr \<lparr> rv_request_id = bld_request_id b, rv_ts_start = bld_ts_start b, rv_ts_end = now_utc,
                   rv_fields = kw', rv_stage_latency = as_ms env (bld_timer b),
                   rv_total_latency = Some (to_ms env (elapsed_ns now_ns (bld_timer b))), rv_outcome = out' \<rparr>
         | _ \<Rightarrow> Inl (audit_deny AUDIT_SCHEMA_INVALID))"

definition tombstone :: "int \<Rightarrow> audit_builder \<Rightarrow> request_event" where
  "tombstone now_utc b =
     \<lparr> rv_request_id = bld_request_id b, rv_ts_start = bld_ts_start b, rv_ts_end = now_utc,
       rv_fields = [(u ''decision'', PStr (u ''deny'')),
                    (u ''reason_code'', PStr (u (reason_value AUDIT_SCHEMA_INVALID)))],
       rv_stage_latency = [], rv_total_latency = None, rv_outcome = Out_error \<rparr>"

section \<open>Well-typed contributions\<close>

text \<open>A field with a value its declared type admits; the outcome is kept among the fields.\<close>

definition typed :: "ustr \<times> pyval \<Rightarrow> bool" where
  "typed kv = (case field_type_of (fst kv) of Some ft \<Rightarrow> has_type ft (snd kv)
     | None \<Rightarrow> fst kv = u ''outcome'' \<and> outcome_field (snd kv) \<noteq> None)"

definition builder_ok :: "audit_builder \<Rightarrow> bool" where
  "builder_ok b \<longleftrightarrow> list_all typed (bld_fields b)"

lemma field_types [simp]:
  "field_type_of (u ''mcp_method'') = Some Ty_str" "field_type_of (u ''mcp_protocol_version'') = Some Ty_str"
  "field_type_of (u ''body_hash'') = Some Ty_str" "field_type_of (u ''principal'') = Some Ty_str"
  "field_type_of (u ''client_id'') = Some Ty_str" "field_type_of (u ''roles'') = Some Ty_strs"
  "field_type_of (u ''auth_method'') = Some (Ty_opt_literal [''local_config''])"
  "field_type_of (u ''assurance'') = Some (Ty_opt_literal [''unverified_local''])"
  "field_type_of (u ''environment'') = Some Ty_str" "field_type_of (u ''server_id'') = Some Ty_str"
  "field_type_of (u ''tool_name'') = Some Ty_str" "field_type_of (u ''schema_fingerprint'') = Some Ty_str"
  "field_type_of (u ''canonical_resource'') = Some Ty_str" "field_type_of (u ''classification'') = Some Ty_str"
  "field_type_of (u ''operation'') = Some Ty_str" "field_type_of (u ''arg_hash'') = Some Ty_str"
  "field_type_of (u ''raw_hash'') = Some Ty_str"
  "field_type_of (u ''decision'') = Some (Ty_opt_literal [''allow'', ''deny''])"
  "field_type_of (u ''reason_code'') = Some Ty_str"
  "field_type_of (u ''risk_tier'') = Some (Ty_opt_literal [''R0'', ''R1'', ''R2'', ''R4''])"
  "field_type_of (u ''policy_revision'') = Some Ty_str" "field_type_of (u ''obligations'') = Some Ty_ints"
  "field_type_of (u ''obligations_clamped'') = Some Ty_bool" "field_type_of (u ''upstream_status'') = Some Ty_str"
  "field_type_of (u ''upstream_latency_ms'') = Some Ty_float" "field_type_of (u ''response_bytes'') = Some Ty_int"
  "field_type_of (u ''outcome'') = None"
  by (simp_all add: field_type_of_def STAGE_FIELDS_def)

lemma final_fields_untyped: "k \<in> set (map u FINAL_FIELDS) \<Longrightarrow> field_type_of k = None \<and> k \<noteq> u ''outcome''"
proof -
  have "list_all (\<lambda>n. field_type_of (u n) = None \<and> n \<noteq> ''outcome'') FINAL_FIELDS" by code_simp
  then show "k \<in> set (map u FINAL_FIELDS) \<Longrightarrow> field_type_of k = None \<and> k \<noteq> u ''outcome''"
    by (auto simp: list_all_iff)
qed

lemma has_type_simps [simp]:
  "has_type Ty_str (PStr s)" "has_type Ty_str PNone" "has_type Ty_float (PFloat f)" "has_type Ty_int (PInt i)"
  "has_type Ty_bool (PBool b)" "has_type Ty_strs (PArr Frz xs) \<longleftrightarrow> list_all is_str xs"
  "has_type (Ty_opt_literal ls) v \<longleftrightarrow> opt_literal ls v"
  by (simp_all add: has_type_def is_str_def)

lemma typed_model_field:
  assumes "typed (k, v)"
  shows "k \<in> set model_fields"
proof (cases "field_type_of k")
  case None
  then show ?thesis using assms by (simp add: typed_def model_fields_def)
next
  case (Some ft)
  then obtain n where "(n, ft) \<in> set STAGE_FIELDS" "u n = k"
    by (auto simp: field_type_of_def find_Some_iff) (metis nth_mem)
  then show ?thesis by (force simp: model_fields_def)
qed

lemma set_dict_set: "set (dict_set d k v) \<subseteq> insert (k, v) (set d)"
  by (induction d k v rule: dict_set.induct) auto

lemma typed_dict_set: "list_all typed d \<Longrightarrow> typed (k, v) \<Longrightarrow> list_all typed (dict_set d k v)"
  using set_dict_set [of d k v] by (auto simp: list_all_iff)

lemma typed_dict_update: "list_all typed d \<Longrightarrow> list_all typed kw \<Longrightarrow> list_all typed (dict_update d kw)"
  unfolding dict_update_def by (induction kw arbitrary: d) (auto simp: typed_dict_set)

lemma set_fields_typed:
  assumes "list_all typed kw"
  shows "set_fields kw b = Inr (b \<lparr> bld_fields := dict_update (bld_fields b) kw \<rparr>)"
  using assms typed_model_field by (auto simp: set_fields_def list_all_iff)

lemma builder_ok_put: "builder_ok b \<Longrightarrow> typed (u k, v) \<Longrightarrow> builder_ok (put_field k v b)"
  by (simp add: builder_ok_def put_field_def typed_dict_set)

lemma outcome_field_value [simp]: "outcome_field (PStr (u (outcome_value out))) = Some out"
  by (cases out) (simp_all add: outcome_field_def all_outcomes_def outcome_value_def)

lemma typed_basic [simp]:
  "typed (u ''outcome'', PStr (u (outcome_value out)))"
  "typed (u ''reason_code'', PStr s)" "typed (u ''upstream_status'', PStr s)"
  "typed (u ''decision'', PStr (u ''deny''))"
  by (simp_all add: typed_def opt_literal_def)

lemma builder_ok_ops [simp]:
  "builder_ok b \<Longrightarrow> builder_ok (set_outcome out b)"
  "builder_ok b \<Longrightarrow> builder_ok (record_denial c b)"
  "builder_ok b \<Longrightarrow> builder_ok (record_internal_error b)"
  "builder_ok b \<Longrightarrow> builder_ok (record_cancellation b)"
  "builder_ok b \<Longrightarrow> builder_ok (reattribute_upstream_cancellation s b)"
  "builder_ok b \<Longrightarrow> builder_ok (builder_stage st t0 t1 b)"
  by (auto simp: set_outcome_def record_denial_def record_internal_error_def record_cancellation_def
      reattribute_upstream_cancellation_def setdefault_def builder_ok_put)
    (simp add: builder_ok_def builder_stage_def)

text \<open>What a builder says about the end of its request.\<close>

definition says_outcome :: "outcome \<Rightarrow> audit_builder \<Rightarrow> bool" where
  "says_outcome out b \<longleftrightarrow> dict_get (bld_fields b) (u ''outcome'') = Some (PStr (u (outcome_value out)))"

definition says_reason :: "reason_code \<Rightarrow> audit_builder \<Rightarrow> bool" where
  "says_reason c b \<longleftrightarrow> dict_get (bld_fields b) (u ''reason_code'') = Some (PStr (u (reason_value c)))"

lemma get_put [simp]:
  "dict_get (bld_fields (put_field k v b)) (u k') = (if k' = k then Some v else dict_get (bld_fields b) (u k'))"
  by (simp add: put_field_def)

lemma get_setdefault:
  "dict_get (bld_fields (setdefault k v b)) (u k') =
     (if k' = k \<and> dict_get (bld_fields b) (u k) = None then Some v else dict_get (bld_fields b) (u k'))"
  by (auto simp: setdefault_def dict_has_iff_get)

lemma says_ops [simp]:
  "says_outcome out (set_outcome out b)"
  "says_outcome (outcome_of c) (record_denial c b)" "says_reason c (record_denial c b)"
  "says_outcome Out_error (record_internal_error b)" "says_reason INTERNAL_ERROR (record_internal_error b)"
  "says_outcome Out_cancelled (record_cancellation b)"
  by (simp_all add: says_outcome_def says_reason_def set_outcome_def record_denial_def record_internal_error_def
      record_cancellation_def get_setdefault)

lemma accept_fields_typed:
  "\<forall>kv \<in> set kw. typed kv \<and> fst kv \<noteq> u ''outcome'' \<Longrightarrow> accept_fields env kw = Some kw"
  by (induction env kw rule: accept_fields.induct) (auto simp: typed_def accept_def split: option.splits)

text \<open>A builder with well-typed fields always finalizes, whatever pydantic would coerce.\<close>

lemma finalize_typed:
  assumes "builder_ok b" "says_outcome out b"
  shows "\<exists>ev. finalize env ns ts b = Inr ev \<and> rv_request_id ev = bld_request_id b \<and> rv_outcome ev = out
    \<and> rv_fields ev = filter (\<lambda>(k, v). k \<noteq> u ''outcome'') (bld_fields b)"
proof -
  let ?kw = "filter (\<lambda>(k, v). k \<noteq> u ''outcome'') (bld_fields b)"
  have t: "\<forall>kv \<in> set ?kw. typed kv \<and> fst kv \<noteq> u ''outcome''"
    using assms(1) by (auto simp: builder_ok_def list_all_iff)
  have "\<not> list_ex (\<lambda>(k, v). k \<in> set (map u FINAL_FIELDS)) ?kw"
  proof
    assume "list_ex (\<lambda>(k, v). k \<in> set (map u FINAL_FIELDS)) ?kw"
    then obtain k v where "(k, v) \<in> set ?kw" "k \<in> set (map u FINAL_FIELDS)" by (auto simp: list_ex_iff)
    with t final_fields_untyped [of k] show False by (force simp: typed_def)
  qed
  then show ?thesis
    using accept_fields_typed [OF t] assms(2) by (simp add: finalize_def says_outcome_def Let_def)
qed

lemma get_filter_other:
  "k' \<noteq> k \<Longrightarrow> dict_get (filter (\<lambda>(k, v). k \<noteq> k') d) k = dict_get d k"
  by (induction d) (auto simp: dict_get_def)

end
