(* ===== verification/Gateway_Effects.thy ===== *)
theory Gateway_Effects
  imports Gateway_Errors
begin

text \<open>
  Code that changes state and may raise: a function from a state to a result and the state at
  that point, so that what was done before an exception stays done. \<open>tryA\<close> is
  \<^verbatim>\<open>try ... except\<close>, \<open>finallyA\<close> is \<^verbatim>\<open>try ... finally\<close>, whose second part
  replaces the exception under way when it raises itself. Nothing here models code of the
  repository.
\<close>

type_synonym ('w, 'a) act = "'w \<Rightarrow> 'a result \<times> 'w"

definition retA :: "'a \<Rightarrow> ('w, 'a) act" where
  "retA x w = (Inr x, w)"

definition raiseA :: "exc \<Rightarrow> ('w, 'a) act" where
  "raiseA e w = (Inl e, w)"

definition liftA :: "'a result \<Rightarrow> ('w, 'a) act" where
  "liftA r w = (r, w)"

definition getA :: "('w \<Rightarrow> 'a) \<Rightarrow> ('w, 'a) act" where
  "getA f w = (Inr (f w), w)"

definition modA :: "('w \<Rightarrow> 'w) \<Rightarrow> ('w, unit) act" where
  "modA f w = (Inr (), f w)"

definition bindA :: "('w, 'a) act \<Rightarrow> ('a \<Rightarrow> ('w, 'b) act) \<Rightarrow> ('w, 'b) act" where
  "bindA m f w = (case m w of (Inl e, w') \<Rightarrow> (Inl e, w') | (Inr x, w') \<Rightarrow> f x w')"

definition tryA :: "('w, 'a) act \<Rightarrow> (exc \<Rightarrow> ('w, 'a) act) \<Rightarrow> ('w, 'a) act" where
  "tryA m h w = (case m w of (Inl e, w') \<Rightarrow> h e w' | r \<Rightarrow> r)"

definition finallyA :: "('w, 'a) act \<Rightarrow> ('w, unit) act \<Rightarrow> ('w, 'a) act" where
  "finallyA m c w = (case m w of (r, w') \<Rightarrow> (case c w' of (Inl e, w'') \<Rightarrow> (Inl e, w'') | (Inr _, w'') \<Rightarrow> (r, w'')))"

fun forA :: "('a \<Rightarrow> ('w, unit) act) \<Rightarrow> 'a list \<Rightarrow> ('w, unit) act" where
  "forA f [] = retA ()"
| "forA f (x # xs) = bindA (f x) (\<lambda>_. forA f xs)"

definition whenA :: "bool \<Rightarrow> ('w, unit) act \<Rightarrow> ('w, unit) act" where
  "whenA c m = (if c then m else retA ())"

text \<open>Running an action on a part of the state.\<close>

definition zoomA :: "('w \<Rightarrow> 's) \<Rightarrow> ('s \<Rightarrow> 'w \<Rightarrow> 'w) \<Rightarrow> ('s, 'a) act \<Rightarrow> ('w, 'a) act" where
  "zoomA rd wr m w = (case m (rd w) of (r, s) \<Rightarrow> (r, wr s w))"

lemma act_simps [simp]:
  "retA x w = (Inr x, w)" "raiseA e w = (Inl e, w)" "liftA r w = (r, w)" "getA f w = (Inr (f w), w)"
  "modA g w = (Inr (), g w)"
  by (simp_all add: retA_def raiseA_def liftA_def getA_def modA_def)

lemma bindA_cases:
  "bindA m f w = (case m w of (Inl e, w') \<Rightarrow> (Inl e, w') | (Inr x, w') \<Rightarrow> f x w')"
  by (rule bindA_def)

lemma bindA_Inr [simp]: "m w = (Inr x, w') \<Longrightarrow> bindA m f w = f x w'"
  by (simp add: bindA_def)

lemma bindA_Inl [simp]: "m w = (Inl e, w') \<Longrightarrow> bindA m f w = (Inl e, w')"
  by (simp add: bindA_def)

lemma bindA_Inr_iff:
  "bindA m f w = (Inr y, w'') \<longleftrightarrow> (\<exists>x w'. m w = (Inr x, w') \<and> f x w' = (Inr y, w''))"
  by (auto simp: bindA_def split: prod.splits sum.splits)

lemma bindA_Inl_iff:
  "bindA m f w = (Inl e, w'') \<longleftrightarrow>
     m w = (Inl e, w'') \<or> (\<exists>x w'. m w = (Inr x, w') \<and> f x w' = (Inl e, w''))"
  by (auto simp: bindA_def split: prod.splits sum.splits)

lemma tryA_Inr_iff:
  "tryA m h w = (Inr y, w'') \<longleftrightarrow>
     m w = (Inr y, w'') \<or> (\<exists>e w'. m w = (Inl e, w') \<and> h e w' = (Inr y, w''))"
  by (auto simp: tryA_def split: prod.splits sum.splits)

section \<open>Verification conditions\<close>

text \<open>
  \<open>wpA m Q w\<close>: running \<open>m\<close> in \<open>w\<close> ends in a result and a state that satisfy \<open>Q\<close>; the rules
  compute it over the program. \<open>keeps I m\<close>: every outcome of \<open>m\<close>, exceptions included, keeps
  the invariant.
\<close>

named_theorems wp_rules "weakest preconditions of the combinators"
named_theorems keeps_intros "invariants of the combinators"

definition wpA :: "('w, 'a) act \<Rightarrow> ('a result \<Rightarrow> 'w \<Rightarrow> bool) \<Rightarrow> 'w \<Rightarrow> bool" where
  "wpA m Q w = (case m w of (r, w') \<Rightarrow> Q r w')"

lemma wpA_simps [wp_rules]:
  "wpA (retA x) Q w = Q (Inr x) w"
  "wpA (raiseA e) Q w = Q (Inl e) w"
  "wpA (liftA r) Q w = Q r w"
  "wpA (getA f) Q w = Q (Inr (f w)) w"
  "wpA (modA g) Q w = Q (Inr ()) (g w)"
  by (simp_all add: wpA_def)

lemma wpA_bind [wp_rules]:
  "wpA (bindA m f) Q w = wpA m (\<lambda>r w'. case r of Inl e \<Rightarrow> Q (Inl e) w' | Inr x \<Rightarrow> wpA (f x) Q w') w"
  by (simp add: wpA_def bindA_def split: prod.splits sum.splits)

lemma wpA_try [wp_rules]:
  "wpA (tryA m h) Q w = wpA m (\<lambda>r w'. case r of Inl e \<Rightarrow> wpA (h e) Q w' | Inr x \<Rightarrow> Q (Inr x) w') w"
  by (simp add: wpA_def tryA_def split: prod.splits sum.splits)

lemma wpA_finally [wp_rules]:
  "wpA (finallyA m c) Q w =
     wpA m (\<lambda>r w'. wpA c (\<lambda>r' w''. case r' of Inl e \<Rightarrow> Q (Inl e) w'' | Inr _ \<Rightarrow> Q r w'') w') w"
  by (simp add: wpA_def finallyA_def split: prod.splits sum.splits)

lemma wpA_when [wp_rules]: "wpA (whenA c m) Q w = (if c then wpA m Q w else Q (Inr ()) w)"
  by (simp add: whenA_def wpA_simps)

lemma wpA_zoom [wp_rules]: "wpA (zoomA rd wr m) Q w = wpA m (\<lambda>r s. Q r (wr s w)) (rd w)"
  by (simp add: wpA_def zoomA_def split: prod.splits)

lemma wpA_D: "wpA m Q w \<Longrightarrow> m w = (r, w') \<Longrightarrow> Q r w'"
  by (simp add: wpA_def)

lemma wpA_mono: "wpA m Q w \<Longrightarrow> (\<And>r w'. m w = (r, w') \<Longrightarrow> Q r w' \<Longrightarrow> Q' r w') \<Longrightarrow> wpA m Q' w"
  by (simp add: wpA_def split: prod.splits)

definition keeps :: "('w \<Rightarrow> bool) \<Rightarrow> ('w, 'a) act \<Rightarrow> bool" where
  "keeps I m \<longleftrightarrow> (\<forall>w. I w \<longrightarrow> I (snd (m w)))"

lemma keepsD: "keeps I m \<Longrightarrow> I w \<Longrightarrow> m w = (r, w') \<Longrightarrow> I w'"
  by (auto simp: keeps_def dest!: spec [of _ w])

lemma keeps_simple [keeps_intros]:
  "keeps I (retA x)" "keeps I (raiseA e)" "keeps I (liftA r)" "keeps I (getA f)"
  by (simp_all add: keeps_def)

lemma keeps_mod [keeps_intros]: "(\<And>w. I w \<Longrightarrow> I (f w)) \<Longrightarrow> keeps I (modA f)"
  by (simp add: keeps_def)

lemma keeps_bind [keeps_intros]: "keeps I m \<Longrightarrow> (\<And>x. keeps I (f x)) \<Longrightarrow> keeps I (bindA m f)"
  by (simp add: keeps_def bindA_def split: prod.splits sum.splits) (metis snd_conv)

lemma keeps_try [keeps_intros]: "keeps I m \<Longrightarrow> (\<And>e. keeps I (h e)) \<Longrightarrow> keeps I (tryA m h)"
  by (simp add: keeps_def tryA_def split: prod.splits sum.splits) (metis snd_conv)

lemma keeps_finally [keeps_intros]: "keeps I m \<Longrightarrow> keeps I c \<Longrightarrow> keeps I (finallyA m c)"
  by (simp add: keeps_def finallyA_def split: prod.splits sum.splits) (metis snd_conv)

lemma keeps_for [keeps_intros]: "(\<And>x. x \<in> set xs \<Longrightarrow> keeps I (f x)) \<Longrightarrow> keeps I (forA f xs)"
  by (induction xs) (auto intro!: keeps_intros)

lemma keeps_when [keeps_intros]: "(c \<Longrightarrow> keeps I m) \<Longrightarrow> keeps I (whenA c m)"
  by (simp add: whenA_def keeps_simple)

section \<open>Effects\<close>

text \<open>
  \<open>emits tr S m\<close>: running \<open>m\<close> appends to the trace \<open>tr\<close> of the state a list \<open>es\<close> with
  \<open>S result es\<close>, whether it returns or raises.
\<close>

definition emits :: "('w \<Rightarrow> 'x list) \<Rightarrow> ('a result \<Rightarrow> 'x list \<Rightarrow> bool) \<Rightarrow> ('w, 'a) act \<Rightarrow> bool" where
  "emits tr S m \<longleftrightarrow> (\<forall>w r w'. m w = (r, w') \<longrightarrow> (\<exists>es. tr w' = tr w @ es \<and> S r es))"

lemma emitsD: "emits tr S m \<Longrightarrow> m w = (r, w') \<Longrightarrow> \<exists>es. tr w' = tr w @ es \<and> S r es"
  by (auto simp: emits_def)

lemma emits_mono: "emits tr S m \<Longrightarrow> (\<And>r es. S r es \<Longrightarrow> S' r es) \<Longrightarrow> emits tr S' m"
  unfolding emits_def by blast

lemma emits_bind:
  assumes "emits tr S m" "\<And>e es. S (Inl e) es \<Longrightarrow> U (Inl e) es"
    and "\<And>x es. S (Inr x) es \<Longrightarrow> emits tr (\<lambda>r es'. U r (es @ es')) (f x)"
  shows "emits tr U (bindA m f)"
  unfolding emits_def
proof (intro allI impI)
  fix w r w' assume h: "bindA m f w = (r, w')"
  obtain r1 w1 where m: "m w = (r1, w1)" by (cases "m w")
  with emitsD [OF assms(1)] obtain es where es: "tr w1 = tr w @ es" "S r1 es" by blast
  show "\<exists>es. tr w' = tr w @ es \<and> U r es"
  proof (cases r1)
    case (Inl e)
    then show ?thesis using h m es assms(2) by auto
  next
    case (Inr x)
    then have "f x w1 = (r, w')" using h m by simp
    with emitsD [OF assms(3) [of x es]] es Inr
    obtain es' where "tr w' = tr w1 @ es'" "U r (es @ es')" by blast
    then show ?thesis using es by simp
  qed
qed

lemma emits_raise: "U (Inl e) [] \<Longrightarrow> emits tr U (raiseA e)"
  by (simp add: emits_def)

lemma emits_ret: "U (Inr x) [] \<Longrightarrow> emits tr U (retA x)"
  by (simp add: emits_def)

lemma emits_lift: "U v [] \<Longrightarrow> emits tr U (liftA v)"
  by (simp add: emits_def)

lemma emits_lift_bind:
  "(\<And>e. v = Inl e \<Longrightarrow> U (Inl e) []) \<Longrightarrow> (\<And>x. v = Inr x \<Longrightarrow> emits tr U (f x)) \<Longrightarrow> emits tr U (bindA (liftA v) f)"
  by (rule emits_bind [OF emits_lift [where U = "\<lambda>r es. r = v \<and> es = []"]]) auto

lemma emits_try:
  assumes "emits tr S m" "\<And>x es. S (Inr x) es \<Longrightarrow> U (Inr x) es"
    and "\<And>e es. S (Inl e) es \<Longrightarrow> emits tr (\<lambda>r es'. U r (es @ es')) (h e)"
  shows "emits tr U (tryA m h)"
  unfolding emits_def
proof (intro allI impI)
  fix w r w' assume t: "tryA m h w = (r, w')"
  obtain r1 w1 where m: "m w = (r1, w1)" by (cases "m w")
  with emitsD [OF assms(1)] obtain es where es: "tr w1 = tr w @ es" "S r1 es" by blast
  show "\<exists>es. tr w' = tr w @ es \<and> U r es"
  proof (cases r1)
    case (Inr x)
    then show ?thesis using t m es assms(2) by (auto simp: tryA_def)
  next
    case (Inl e)
    then have "h e w1 = (r, w')" using t m by (simp add: tryA_def)
    with emitsD [OF assms(3) [of e es]] es Inl
    obtain es' where "tr w' = tr w1 @ es'" "U r (es @ es')" by blast
    then show ?thesis using es by simp
  qed
qed

lemma emits_finally:
  assumes "emits tr S m" "\<And>r es. S r es \<Longrightarrow> emits tr (\<lambda>r' es'. U (case r' of Inl e \<Rightarrow> Inl e | Inr _ \<Rightarrow> r) (es @ es')) c"
  shows "emits tr U (finallyA m c)"
  unfolding emits_def
proof (intro allI impI)
  fix w r w' assume t: "finallyA m c w = (r, w')"
  obtain r1 w1 where m: "m w = (r1, w1)" by (cases "m w")
  with emitsD [OF assms(1)] obtain es where es: "tr w1 = tr w @ es" "S r1 es" by blast
  obtain r2 w2 where c: "c w1 = (r2, w2)" by (cases "c w1")
  with emitsD [OF assms(2) [OF es(2)]] obtain es' where "tr w2 = tr w1 @ es'"
    "U (case r2 of Inl e \<Rightarrow> Inl e | Inr _ \<Rightarrow> r1) (es @ es')" by blast
  moreover have "w' = w2" "r = (case r2 of Inl e \<Rightarrow> Inl e | Inr _ \<Rightarrow> r1)"
    using t m c by (auto simp: finallyA_def split: sum.splits)
  ultimately show "\<exists>es. tr w' = tr w @ es \<and> U r es" using es by simp
qed

section \<open>Code that may wait for ever\<close>

text \<open>
  A wait that is never over has no result, \<open>None\<close>, and nothing after it runs, no handler and no
  \<^verbatim>\<open>finally\<close>. \<open>within\<close> is \<open>anyio.fail_after\<close>: the wait is abandoned with a
  \<open>TimeoutError\<close>; the length of the budget is not part of the model.
\<close>

type_synonym ('w, 'a) wait = "'w \<Rightarrow> 'a result option \<times> 'w"

definition giveW :: "'a result \<Rightarrow> ('w, 'a) wait" where
  "giveW r w = (Some r, w)"

definition bindW :: "('w, 'a) wait \<Rightarrow> ('a \<Rightarrow> ('w, 'b) wait) \<Rightarrow> ('w, 'b) wait" where
  "bindW m f w = (case m w of (Some (Inr x), w') \<Rightarrow> f x w' | (Some (Inl e), w') \<Rightarrow> (Some (Inl e), w') | (None, w') \<Rightarrow> (None, w'))"

definition tryW :: "('w, 'a) wait \<Rightarrow> (exc \<Rightarrow> ('w, 'a) wait) \<Rightarrow> ('w, 'a) wait" where
  "tryW m h w = (case m w of (Some (Inl e), w') \<Rightarrow> h e w' | r \<Rightarrow> r)"

definition finallyW :: "('w, 'a) wait \<Rightarrow> ('w \<Rightarrow> 'w) \<Rightarrow> ('w, 'a) wait" where
  "finallyW m c w = (case m w of (None, w') \<Rightarrow> (None, w') | (r, w') \<Rightarrow> (r, c w'))"

definition within :: "('w, 'a) wait \<Rightarrow> ('w, 'a) wait" where
  "within m w = (case m w of (None, w') \<Rightarrow> (Some (Inl TimeoutError), w') | r \<Rightarrow> r)"

end
