(* ===== verification/Upstream_Bridge.thy ===== *)
theory Upstream_Bridge
  imports Registry
begin

text \<open>
  \<open>gateway/bridge.py\<close>: the bounded drain of the child's stderr, the mapping of transport
  failures to reason-coded denials, the handle whose \<open>alive\<close> flag a dead transport clears, and
  the child's environment. The SDK session (what a call ends in) is an argument.
\<close>

section \<open>The stderr ring\<close>

definition MAX_STDERR_LINE :: nat where
  "MAX_STDERR_LINE = 2048"

definition STDERR_CHUNK :: nat where
  "STDERR_CHUNK = 4096"

definition TRUNCATED :: ustr where
  "TRUNCATED = u '' ...[truncated]''"

text \<open>A \<open>deque(maxlen=n)\<close>: appending drops the oldest entries.\<close>

definition ring_append :: "nat \<Rightarrow> ustr list \<Rightarrow> ustr \<Rightarrow> ustr list" where
  "ring_append n ring x = drop (Suc (length ring) - n) (ring @ [x])"

definition rstrip_newlines :: "ustr \<Rightarrow> ustr" where
  "rstrip_newlines s = rev (dropWhile (\<lambda>c. c = 13 \<or> c = 10) (rev s))"

definition append_line :: "nat \<Rightarrow> ustr list \<Rightarrow> ustr \<Rightarrow> ustr list" where
  "append_line n ring line = ring_append n ring (take MAX_STDERR_LINE (rstrip_newlines line))"

text \<open>The local variables of \<open>_drain_stderr\<close> and the ring.\<close>

record drain_state =
  dr_buf :: ustr
  dr_overlong :: bool
  dr_ring :: "ustr list"

text \<open>\<open>while (nl := buf.find("\n")) >= 0\<close>\<close>

function drain_lines :: "nat \<Rightarrow> drain_state \<Rightarrow> drain_state" where
  "drain_lines n st =
     (if 10 \<in> set (dr_buf st)
      then let line = takeWhile (\<lambda>c. c \<noteq> 10) (dr_buf st) in
           drain_lines n \<lparr> dr_buf = drop (Suc (length line)) (dr_buf st), dr_overlong = False,
             dr_ring = (if dr_overlong st then dr_ring st else append_line n (dr_ring st) line) \<rparr>
      else st)"
  by pat_completeness auto
termination
proof (relation "measure (\<lambda>(n, st). length (dr_buf st))", goal_cases)
  case (2 n st line)
  then show ?case by (cases "dr_buf st") auto
qed simp

definition drain_chunk :: "nat \<Rightarrow> ustr \<Rightarrow> drain_state \<Rightarrow> drain_state" where
  "drain_chunk n data st =
     (let st = drain_lines n (st \<lparr> dr_buf := dr_buf st @ data \<rparr>) in
      if MAX_STDERR_LINE < length (dr_buf st)
      then st \<lparr> dr_buf := [], dr_overlong := True,
                dr_ring := (if dr_overlong st then dr_ring st
                            else append_line n (dr_ring st)
                                   (take (MAX_STDERR_LINE - length TRUNCATED) (dr_buf st) @ TRUNCATED)) \<rparr>
      else st)"

text \<open>
  The chunks are the decoded reads up to end of file or an error of the pipe, which ends the
  loop in the same way except for the last, unfinished line.
\<close>

definition drain_start :: drain_state where
  "drain_start = \<lparr> dr_buf = [], dr_overlong = False, dr_ring = [] \<rparr>"

definition drain_loop :: "nat \<Rightarrow> ustr list \<Rightarrow> drain_state" where
  "drain_loop n chunks = foldl (\<lambda>st data. drain_chunk n data st) drain_start chunks"

definition drain_stderr :: "nat \<Rightarrow> ustr list \<Rightarrow> bool \<Rightarrow> ustr list" where
  "drain_stderr n chunks eof =
     (let st = drain_loop n chunks in
      if eof \<and> dr_buf st \<noteq> [] \<and> \<not> dr_overlong st then append_line n (dr_ring st) (dr_buf st) else dr_ring st)"

section \<open>Failures of the upstream\<close>

abbreviation route_deny :: "reason_code \<Rightarrow> exc" where
  "route_deny c \<equiv> Denial ROUTE c"

text \<open>The \<open>code\<close> of an \<open>MCPError\<close>: the two the code tests for, and the rest.\<close>

datatype mcp_code = Request_timeout | Connection_closed | Other_code int

definition upstream_error :: "mcp_code \<Rightarrow> exc" where
  "upstream_error c = (if c = Request_timeout then route_deny ROUTE_TIMEOUT else route_deny ROUTE_UPSTREAM_UNAVAILABLE)"

datatype py_exc = Single exc | Group "py_exc list"

text \<open>The first denial of ours, in the order of the group, at any depth.\<close>

fun as_denial :: "py_exc \<Rightarrow> exc option" and first_denial :: "py_exc list \<Rightarrow> exc option" where
  "as_denial (Single e) = (if is_denial e then Some e else None)"
| "as_denial (Group es) = first_denial es"
| "first_denial [] = None"
| "first_denial (e # es) = (case as_denial e of Some d \<Rightarrow> Some d | None \<Rightarrow> first_denial es)"

text \<open>
  The value of a finished call (the dumped content and \<open>is_error\<close>), an \<open>MCPError\<close>, a broken or
  closed stream or an \<open>OSError\<close>, the expiry of the caller's own deadline scope, a cancellation
  from outside it, or another exception.
\<close>

datatype upstream_reply =
    Answer pyval bool
  | Mcp_error mcp_code
  | Stream_error
  | Deadline_expired
  | Interrupted
  | Raised exc

text \<open>\<open>_guarded\<close>: the outcome and the new value of \<open>alive\<close>. \<open>TimeoutError\<close> stands for the expiry
  the caller's scope will catch.\<close>

definition guarded :: "upstream_reply \<Rightarrow> bool \<Rightarrow> (pyval \<times> bool) result \<times> bool" where
  "guarded r alive =
     (case r of
        Answer v e \<Rightarrow> (Inr (v, e), alive)
      | Mcp_error c \<Rightarrow> (Inl (upstream_error c), alive \<and> c \<noteq> Connection_closed)
      | Stream_error \<Rightarrow> (Inl (route_deny ROUTE_UPSTREAM_UNAVAILABLE), False)
      | Deadline_expired \<Rightarrow> (Inl TimeoutError, alive)
      | Interrupted \<Rightarrow> (Inl Cancelled, alive)
      | Raised e \<Rightarrow> (Inl e, alive))"

text \<open>How leaving the \<open>upstream\<close> context by an exception looks to its caller.\<close>

definition upstream_exit :: "py_exc \<Rightarrow> exc" where
  "upstream_exit e = (case as_denial e of Some d \<Rightarrow> d | None \<Rightarrow> route_deny ROUTE_UPSTREAM_UNAVAILABLE)"

text \<open>\<open>_handshake\<close> and the start-up deadline around it: any failure denies.\<close>

definition handshake :: "(unit result) \<Rightarrow> (unit result) \<Rightarrow> unit result" where
  "handshake discover initialize = (case discover of Inr _ \<Rightarrow> Inr () | Inl _ \<Rightarrow> initialize)"

definition connect :: "unit result \<Rightarrow> unit result \<Rightarrow> bool \<Rightarrow> unit result" where
  "connect discover initialize in_time =
     (if \<not> in_time then Inl (route_deny ROUTE_UPSTREAM_UNAVAILABLE)
      else case handshake discover initialize of
             Inl _ \<Rightarrow> Inl (route_deny ROUTE_UPSTREAM_UNAVAILABLE) | Inr _ \<Rightarrow> Inr ())"

section \<open>The child's environment\<close>

definition child_env :: "child_config \<Rightarrow> (ustr \<times> ustr) list \<Rightarrow> (ustr \<times> ustr) list" where
  "child_env cfg environ =
     dict_of (concat (map (\<lambda>k. case dict_get environ k of None \<Rightarrow> [] | Some v \<Rightarrow> [(k, v)]) (ch_env_allowlist cfg)))"

section \<open>Lemmas on the drain\<close>

declare drain_lines.simps [simp del]

text \<open>The unfinished line of a text.\<close>

definition tail_of :: "ustr \<Rightarrow> ustr" where
  "tail_of t = rev (takeWhile (\<lambda>c. c \<noteq> 10) (rev t))"

lemma tail_of_no_newline: "10 \<notin> set t \<Longrightarrow> tail_of t = t"
proof -
  assume "10 \<notin> set t"
  then have "\<forall>c \<in> set (rev t). c \<noteq> 10" by auto
  then have "takeWhile (\<lambda>c. c \<noteq> 10) (rev t) = rev t" by (simp only: takeWhile_eq_all_conv)
  then show ?thesis by (simp only: tail_of_def rev_rev_ident)
qed

lemma tail_of_append_newline: "tail_of (s @ 10 # t) = tail_of t"
proof -
  have "takeWhile P (xs @ 10 # ys) = takeWhile P (xs @ 10 # zs)" if "\<not> P (10::nat)" for P xs ys zs
    using that by (induction xs) auto
  then show ?thesis unfolding tail_of_def rev_append rev.simps append_assoc
    by (metis (mono_tags, lifting) append_Cons append_Nil append_Nil2 takeWhile_tail)
qed

lemma tail_of_append: "10 \<notin> set t \<Longrightarrow> tail_of (s @ t) = tail_of s @ t"
proof -
  assume "10 \<notin> set t"
  then have "takeWhile (\<lambda>c. c \<noteq> 10) (rev t @ rev s) = rev t @ takeWhile (\<lambda>c. c \<noteq> 10) (rev s)"
    by (intro takeWhile_append2) auto
  then show ?thesis by (simp only: tail_of_def rev_append rev_rev_ident)
qed

lemma split_newline:
  assumes "10 \<in> set t"
  shows "\<exists>l r. t = l @ 10 # r \<and> 10 \<notin> set l \<and> takeWhile (\<lambda>c. c \<noteq> 10) t = l \<and> drop (Suc (length l)) t = r"
proof -
  obtain l r where s: "t = l @ 10 # r" "10 \<notin> set l" using assms by (meson split_list_first)
  then have "takeWhile (\<lambda>c. c \<noteq> 10) t = l" by (induction l arbitrary: t) auto
  then show ?thesis using s by auto
qed

lemma drain_lines_step:
  assumes "dr_buf st = l @ 10 # r" "10 \<notin> set l"
  shows "drain_lines n st = drain_lines n \<lparr> dr_buf = r, dr_overlong = False,
      dr_ring = (if dr_overlong st then dr_ring st else append_line n (dr_ring st) l) \<rparr>"
proof -
  have "takeWhile (\<lambda>c. c \<noteq> 10) (dr_buf st) = l" using assms by (simp add: takeWhile_append)
  then show ?thesis using assms by (subst drain_lines.simps) (simp add: Let_def)
qed

lemma drain_lines_stop: "10 \<notin> set (dr_buf st) \<Longrightarrow> drain_lines n st = st"
  by (subst drain_lines.simps) simp

text \<open>Entries stay short and few.\<close>

definition ring_ok :: "nat \<Rightarrow> ustr list \<Rightarrow> bool" where
  "ring_ok n ring \<longleftrightarrow> length ring \<le> n \<and> list_all (\<lambda>l. length l \<le> MAX_STDERR_LINE) ring"

lemma ring_ok_append: "ring_ok n ring \<Longrightarrow> ring_ok n (append_line n ring line)"
  unfolding ring_ok_def append_line_def ring_append_def
  by (auto simp: list_all_iff dest: in_set_dropD)

lemma drain_lines_bounds:
  "ring_ok n (dr_ring st) \<Longrightarrow>
     ring_ok n (dr_ring (drain_lines n st)) \<and> length (dr_buf (drain_lines n st)) \<le> length (dr_buf st)"
proof (induction n st rule: drain_lines.induct)
  case (1 n st)
  show ?case
  proof (cases "10 \<in> set (dr_buf st)")
    case True
    from split_newline [OF True] obtain l r where s: "dr_buf st = l @ 10 # r" "10 \<notin> set l"
      "takeWhile (\<lambda>c. c \<noteq> 10) (dr_buf st) = l" "drop (Suc (length l)) (dr_buf st) = r" by blast
    show ?thesis
      using 1(1) [OF True refl] 1(2) unfolding drain_lines_step [OF s(1,2)] s(3,4)
      by (auto simp: s(1) ring_ok_append)
  qed (use 1(2) in \<open>simp add: drain_lines_stop\<close>)
qed

lemma drain_chunk_bounds:
  assumes "ring_ok n (dr_ring st)"
  shows "ring_ok n (dr_ring (drain_chunk n data st)) \<and> length (dr_buf (drain_chunk n data st)) \<le> MAX_STDERR_LINE
    \<and> length (dr_buf (st \<lparr> dr_buf := dr_buf st @ data \<rparr>)) = length (dr_buf st) + length data"
  using drain_lines_bounds [of n "st \<lparr> dr_buf := dr_buf st @ data \<rparr>"] assms
  by (auto simp: drain_chunk_def Let_def ring_ok_append)

lemma drain_loop_snoc: "drain_loop n (cs @ [c]) = drain_chunk n c (drain_loop n cs)"
  by (simp add: drain_loop_def)

lemma drain_loop_bounds:
  "ring_ok n (dr_ring (drain_loop n cs)) \<and> length (dr_buf (drain_loop n cs)) \<le> MAX_STDERR_LINE"
proof (induction cs rule: rev_induct)
  case Nil
  then show ?case by (simp add: drain_loop_def drain_start_def ring_ok_def)
next
  case (snoc c cs)
  then show ?case using drain_chunk_bounds [of n "drain_loop n cs" c] by (simp add: drain_loop_snoc)
qed

text \<open>One entry per line: \<open>e\<close> entries were due for the text before the buffer.\<close>

lemma length_append_line: "length ring < n \<Longrightarrow> length (append_line n ring l) = Suc (length ring)"
  by (simp add: append_line_def ring_append_def)

lemma drain_lines_count:
  assumes "length (dr_ring st) + count_list (dr_buf st) 10 \<le> n"
  shows "dr_buf (drain_lines n st) = tail_of (dr_buf st)
    \<and> (dr_overlong (drain_lines n st) \<longleftrightarrow> dr_overlong st \<and> 10 \<notin> set (dr_buf st))
    \<and> length (dr_ring (drain_lines n st)) + (if dr_overlong st \<and> 10 \<in> set (dr_buf st) then 1 else 0)
        = length (dr_ring st) + count_list (dr_buf st) 10"
  using assms
proof (induction n st rule: drain_lines.induct)
  case (1 n st)
  show ?case
  proof (cases "10 \<in> set (dr_buf st)")
    case True
    from split_newline [OF True] obtain l r where s: "dr_buf st = l @ 10 # r" "10 \<notin> set l"
      "takeWhile (\<lambda>c. c \<noteq> 10) (dr_buf st) = l" "drop (Suc (length l)) (dr_buf st) = r" by blast
    have c: "count_list (dr_buf st) 10 = Suc (count_list r 10)" using s(1,2) by (simp add: count_notin)
    let ?st = "\<lparr> dr_buf = r, dr_overlong = False,
      dr_ring = (if dr_overlong st then dr_ring st else append_line n (dr_ring st) l) \<rparr>"
    have len: "length (dr_ring ?st) = length (dr_ring st) + (if dr_overlong st then 0 else 1)"
      using 1(2) c by (simp add: length_append_line)
    have "length (dr_ring ?st) + count_list (dr_buf ?st) 10 \<le> n" using 1(2) c len by auto
    note IH = 1(1) [OF True refl, unfolded s(3,4), OF this]
    show ?thesis
      unfolding drain_lines_step [OF s(1,2)] using IH len c by (auto simp: s(1) tail_of_append_newline)
  next
    case False
    then show ?thesis by (simp add: drain_lines_stop tail_of_no_newline count_notin)
  qed
qed

lemma tail_of_append_if: "tail_of (s @ t) = (if 10 \<in> set t then tail_of t else tail_of s @ t)"
proof (cases "10 \<in> set t")
  case True
  then obtain l r where "t = l @ 10 # r" by (meson split_list_first)
  then show ?thesis using tail_of_append_newline [of "s @ l" r] tail_of_append_newline [of l r] by simp
qed (simp add: tail_of_append)

lemma tail_of_newline_free: "10 \<notin> set (tail_of t)"
  unfolding tail_of_def using set_takeWhileD by fastforce

lemma tail_of_idem [simp]: "tail_of (tail_of t) = tail_of t"
  by (rule tail_of_no_newline [OF tail_of_newline_free])

text \<open>The entries due for the text so far, and what the buffer holds.\<close>

definition drained :: "ustr \<Rightarrow> drain_state \<Rightarrow> bool" where
  "drained t st \<longleftrightarrow>
     length (dr_ring st) = count_list t 10 + (if dr_overlong st then 1 else 0)
     \<and> (if dr_overlong st then tail_of t \<noteq> [] else dr_buf st = tail_of t) \<and> 10 \<notin> set (dr_buf st)"

lemma drained_chunk:
  assumes d: "drained t st" and n: "count_list (t @ c) 10 < n"
  shows "drained (t @ c) (drain_chunk n c st)"
proof -
  let ?st = "st \<lparr> dr_buf := dr_buf st @ c \<rparr>"
  define st1 where "st1 = drain_lines n ?st"
  have cnt: "count_list (dr_buf st @ c) 10 = count_list c 10" using d by (simp add: drained_def count_notin)
  have "length (dr_ring ?st) + count_list (dr_buf ?st) 10 \<le> n"
    using d n cnt by (auto simp: drained_def split: if_splits)
  note L = drain_lines_count [OF this, folded st1_def]
  have nl: "10 \<in> set (dr_buf st @ c) \<longleftrightarrow> 10 \<in> set c" using d by (auto simp: drained_def)
  have one: "10 \<in> set c \<Longrightarrow> 0 < count_list c 10" by (metis count_list_0_iff gr0I)
  have d1: "drained (t @ c) st1"
    using L d nl cnt one tail_of_newline_free [of "dr_buf st @ c"]
    by (auto simp: drained_def tail_of_append_if split: if_splits)
  show ?thesis
  proof (cases "MAX_STDERR_LINE < length (dr_buf st1)")
    case True
    then have "dr_buf st1 \<noteq> []" by auto
    moreover have "\<not> dr_overlong st1 \<Longrightarrow> length (dr_ring st1) < n" using d1 n by (simp add: drained_def)
    ultimately show ?thesis using d1 True
      by (auto simp: drain_chunk_def Let_def st1_def [symmetric] drained_def length_append_line split: if_splits)
  next
    case False
    then show ?thesis using d1 by (simp add: drain_chunk_def Let_def st1_def [symmetric])
  qed
qed

lemma drained_loop: "count_list (concat cs) 10 < n \<Longrightarrow> drained (concat cs) (drain_loop n cs)"
proof (induction cs rule: rev_induct)
  case Nil
  then show ?case by (simp add: drained_def drain_loop_def drain_start_def tail_of_def)
next
  case (snoc c cs)
  then show ?case by (simp add: drain_loop_snoc drained_chunk)
qed

section \<open>Lemmas on failures\<close>

fun leaves :: "py_exc \<Rightarrow> exc list" where
  "leaves (Single e) = [e]"
| "leaves (Group es) = concat (map leaves es)"

lemma first_denial_leaves:
  "as_denial e = find is_denial (leaves e)" "first_denial es = find is_denial (concat (map leaves es))"
proof (induction e and es rule: as_denial_first_denial.induct)
  case (4 e es)
  have "find P (xs @ ys) = (case find P xs of Some x \<Rightarrow> Some x | None \<Rightarrow> find P ys)" for P :: "exc \<Rightarrow> bool" and xs ys
    by (induction xs) auto
  then show ?case using 4 by (auto split: option.splits)
qed auto

lemma upstream_exit_denial: "is_denial (upstream_exit e)"
proof (cases "as_denial e")
  case None
  then show ?thesis by (simp add: upstream_exit_def is_denial_def)
next
  case (Some d)
  then have "is_denial d" unfolding first_denial_leaves by (simp add: find_Some_iff) blast
  then show ?thesis using Some by (simp add: upstream_exit_def)
qed

section \<open>Properties\<close>

text \<open>
  the child's stderr cannot exhaust memory (BRIDGE-010). Whatever is read, the ring never
  holds more than its configured number of entries of at most 2048 characters, and the buffer,
  with the chunk just read, never more than 2048 plus the chunk.
\<close>

lemma stderr_memory_bounded:
  "length (dr_ring (drain_loop n cs)) \<le> n
   \<and> list_all (\<lambda>l. length l \<le> MAX_STDERR_LINE) (dr_ring (drain_loop n cs))
   \<and> length (dr_buf (drain_loop n cs) @ c) \<le> MAX_STDERR_LINE + length c"
  using drain_loop_bounds [of n cs] by (simp add: ring_ok_def)

text \<open>
  each line of the child costs exactly one entry, however it is cut into reads and however
  long it is: with room in the ring the number of entries is the number of newlines, plus one
  for an unfinished last line.
\<close>

lemma stderr_one_entry_per_line:
  assumes "count_list (concat cs) 10 < n"
  shows "length (drain_stderr n cs True)
    = count_list (concat cs) 10 + (if tail_of (concat cs) = [] then 0 else 1)"
  using drained_loop [OF assms] assms
  by (auto simp: drained_def drain_stderr_def Let_def length_append_line)

lemma stderr_one_entry_per_line_witness:
  "length (drain_stderr 5 [u ''ab'', [10, 99]] True) = 2"
proof -
  have "count_list (concat [u ''ab'', [10, 99]]) 10 < 5" "tail_of (concat [u ''ab'', [10, 99]]) = [99]" by code_simp+
  from stderr_one_entry_per_line [OF this(1)] this(2) show ?thesis by (simp add: u_def)
qed

text \<open>
  An exception group is read at any depth: the first denial it carries wins, and a group without one
  is an unavailable upstream. A handshake that does not complete denies.
\<close>

lemma upstream_exit_first:
  "upstream_exit e = (case find is_denial (leaves e) of Some d \<Rightarrow> d | None \<Rightarrow> route_deny ROUTE_UPSTREAM_UNAVAILABLE)"
  by (simp add: upstream_exit_def first_denial_leaves)

lemma connect_denies:
  "connect discover initialize in_time \<in> {Inr (), Inl (route_deny ROUTE_UPSTREAM_UNAVAILABLE)}"
  by (auto simp: connect_def split: sum.splits)

text \<open>The child sees no variable that is not on the allowlist (BRIDGE-006).\<close>

lemma child_env_allowlisted:
  assumes "(k, v) \<in> set (child_env cfg environ)"
  shows "k \<in> set (ch_env_allowlist cfg) \<and> dict_get environ k = Some v"
proof -
  have "(k, v) \<in> set (concat (map (\<lambda>k. case dict_get environ k of None \<Rightarrow> [] | Some v \<Rightarrow> [(k, v)]) (ch_env_allowlist cfg)))"
    using assms dict_of_subset unfolding child_env_def by blast
  then show ?thesis by (auto split: option.splits)
qed

end
