(* ===== verification/Upstream_Router.thy ===== *)
theory Upstream_Router
  imports Policy_Broker Canonicalize Audit_Event Gateway_Effects Upstream_Bridge
begin

text \<open>
  \<open>gateway/router.py\<close> on a state that holds the audit sink, the request's audit builder, the
  \<open>alive\<close> flag of the upstream handle and a trace of what reached the log and the child, in order.
  The answers of OPA and of the child, the clocks and the points at which the request is
  cancelled are arguments.
\<close>

section \<open>The state of a request\<close>

datatype effect =
    Recorded audit_record
  | Called ustr pyval
  | Listed

record 's world =
  w_sink :: 's
  w_builder :: audit_builder
  w_tick :: nat
  w_alive :: bool
  w_trace :: "effect list"

text \<open>The points inside stages 06 and 07 where a cancellation can arrive before an answer does.\<close>

datatype await_point = At_decision | At_write_ahead | At_discovery ustr

text \<open>
  What a request depends on beside its envelope: the dependencies assembled at start-up, the
  runtime, the sink's \<open>write\<close>, what the child answers to each call, and where the request is
  interrupted.
\<close>

record 's gateway_env =
  g_py :: pyenv
  g_clock :: clock_env
  g_config :: config
  g_registry :: registry
  g_opa :: "policy_engine option"
  g_write :: "audit_record \<Rightarrow> ('s, unit) act"
  g_call :: "ustr \<Rightarrow> pyval \<Rightarrow> upstream_reply"
  g_list :: upstream_reply
  g_interrupt :: "await_point \<Rightarrow> bool"

type_synonym ('s, 'a) step = "('s world, 'a) act"

definition perf_counter :: "'s gateway_env \<Rightarrow> ('s, int) step" where
  "perf_counter g w = (Inr (perf_ns (g_clock g) (w_tick w)), w \<lparr> w_tick := Suc (w_tick w) \<rparr>)"

definition utc_now :: "'s gateway_env \<Rightarrow> ('s, int) step" where
  "utc_now g w = (Inr (utc_us (g_clock g) (w_tick w)), w \<lparr> w_tick := Suc (w_tick w) \<rparr>)"

definition emit :: "effect \<Rightarrow> ('s, unit) step" where
  "emit x = modA (\<lambda>w. w \<lparr> w_trace := w_trace w @ [x] \<rparr>)"

text \<open>\<open>await\<close> at a point: a cancellation arrives there, or the code goes on.\<close>

definition await :: "'s gateway_env \<Rightarrow> await_point \<Rightarrow> ('s, unit) step" where
  "await g p = (if g_interrupt g p then raiseA Cancelled else retA ())"

text \<open>\<open>deps.audit.write(record)\<close>; the trace keeps the records the sink accepted.\<close>

definition audit_write :: "'s gateway_env \<Rightarrow> audit_record \<Rightarrow> ('s, unit) step" where
  "audit_write g r =
     bindA (zoomA w_sink (\<lambda>s w. w \<lparr> w_sink := s \<rparr>) (g_write g r)) (\<lambda>_. emit (Recorded r))"

text \<open>\<open>audit().set(...)\<close>\<close>

definition audit_set :: "(ustr \<times> pyval) list \<Rightarrow> ('s, unit) step" where
  "audit_set kw w =
     (case set_fields kw (w_builder w) of Inl e \<Rightarrow> (Inl e, w) | Inr b \<Rightarrow> (Inr (), w \<lparr> w_builder := b \<rparr>))"

section \<open>The gate\<close>

text \<open>\<open>None\<close> is anything that is not a \<open>Decision\<close>.\<close>

definition gate :: "pyenv \<Rightarrow> canonical_request \<Rightarrow> derived_attributes \<Rightarrow> decision option \<Rightarrow> unit result" where
  "gate env req drv decn =
     (case decn of
        None \<Rightarrow> Inl (route_deny ROUTE_NO_DECISION)
      | Some dec \<Rightarrow>
          bindR (raise_if (dec_request_id dec \<noteq> req_id req) (route_deny ROUTE_NO_DECISION)) (\<lambda>_.
          bindR (raise_if ((dec_method dec, dec_tool_name dec) \<noteq> (req_method req, req_tool_name req))
                   (route_deny ROUTE_NO_DECISION)) (\<lambda>_.
          bindR (raise_if (dec_decision dec \<noteq> Allow) (route_deny ROUTE_NO_DECISION)) (\<lambda>_.
          bindR (argument_hash env (req_arguments req) (drv_canonical_path drv)) (\<lambda>h.
          raise_if (h \<noteq> dec_arg_hash dec) (route_deny ROUTE_AUTHORIZATION_DIVERGENCE))))))"

definition effective :: "decision \<Rightarrow> router_config \<Rightarrow> obligations" where
  "effective dec cfg =
     \<lparr> ob_timeout_ms = min (ob_timeout_ms (dec_obligations dec)) (rt_max_timeout_ms cfg),
       ob_max_response_bytes = min (ob_max_response_bytes (dec_obligations dec)) (rt_max_response_bytes cfg) \<rparr>"

definition obligations_dump :: "obligations \<Rightarrow> pyval" where
  "obligations_dump ob =
     PObj Mut [(u ''timeout_ms'', PInt (ob_timeout_ms ob)), (u ''max_response_bytes'', PInt (ob_max_response_bytes ob))]"

definition enforce :: "decision \<Rightarrow> router_config \<Rightarrow> ('s, obligations) step" where
  "enforce dec cfg =
     bindA (audit_set [(u ''obligations'', obligations_dump (effective dec cfg))]) (\<lambda>_. retA (effective dec cfg))"

definition attempt_record :: "'s gateway_env \<Rightarrow> canonical_request \<Rightarrow> derived_attributes \<Rightarrow> decision \<Rightarrow> int \<Rightarrow> audit_record" where
  "attempt_record g req drv dec ts =
     Upstream_attempt
       \<lparr> at_ts = ts, at_request_id = req_id req, at_server_id = se_id (reg_server (g_registry g)),
         at_mcp_method = req_method req, at_tool_name = req_tool_name req,
         at_canonical_resource = drv_canonical_path drv, at_operation = operation_value (drv_operation drv),
         at_arg_hash = dec_arg_hash dec, at_policy_revision = dec_policy_revision dec \<rparr>"

definition write_ahead :: "'s gateway_env \<Rightarrow> canonical_request \<Rightarrow> derived_attributes \<Rightarrow> decision \<Rightarrow> ('s, unit) step" where
  "write_ahead g req drv dec =
     bindA (utc_now g) (\<lambda>ts.
     bindA (await g At_write_ahead) (\<lambda>_.
     audit_write g (attempt_record g req drv dec ts)))"

section \<open>One upstream call\<close>

definition STATUS_BY_CODE :: "(reason_code \<times> string) list" where
  "STATUS_BY_CODE =
     [(ROUTE_TIMEOUT, ''timeout''), (ROUTE_UPSTREAM_UNAVAILABLE, ''unavailable''), (ROUTE_CANCELLED, ''cancelled''),
      (ROUTE_NO_DECISION, ''not_attempted''), (ROUTE_AUTHORIZATION_DIVERGENCE, ''not_attempted'')]"

definition status_of :: "reason_code \<Rightarrow> string" where
  "status_of c = (case dict_get STATUS_BY_CODE c of None \<Rightarrow> ''error'' | Some s \<Rightarrow> s)"

definition record_status :: "'s gateway_env \<Rightarrow> string \<Rightarrow> int \<Rightarrow> ('s, unit) step" where
  "record_status g status latency_ns =
     audit_set [(u ''upstream_status'', PStr (u status)),
                (u ''upstream_latency_ms'', PFloat (to_ms (g_clock g) latency_ns))]"

text \<open>\<open>UpstreamHandle\<close>: a dead handle refuses; otherwise the call is sent and guarded.\<close>

definition send_guarded :: "effect \<Rightarrow> upstream_reply \<Rightarrow> ('s, pyval \<times> bool) step" where
  "send_guarded x r =
     bindA (emit x) (\<lambda>_ w. case guarded r (w_alive w) of (res, alive) \<Rightarrow> (res, w \<lparr> w_alive := alive \<rparr>))"

definition call_tool :: "'s gateway_env \<Rightarrow> ustr \<Rightarrow> pyval \<Rightarrow> ('s, pyval \<times> bool) step" where
  "call_tool g name arguments =
     bindA (getA w_alive) (\<lambda>alive.
     if \<not> alive then raiseA (route_deny ROUTE_UPSTREAM_UNAVAILABLE)
     else send_guarded (Called name arguments) (g_call g name arguments))"

definition list_tools :: "'s gateway_env \<Rightarrow> ('s, pyval \<times> bool) step" where
  "list_tools g = send_guarded Listed (g_list g)"

text \<open>\<open>_bounded\<close>: \<open>TimeoutError\<close> is its own scope's expiry, \<open>Cancelled\<close> a cancellation from outside.\<close>

definition report_failure :: "'s gateway_env \<Rightarrow> int \<Rightarrow> exc \<Rightarrow> ('s, 'a) step" where
  "report_failure g started e =
     (case e of
        Cancelled \<Rightarrow> bindA (perf_counter g) (\<lambda>now. bindA (record_status g ''cancelled'' (now - started)) (\<lambda>_. raiseA e))
      | Denial ROUTE c \<Rightarrow> bindA (perf_counter g) (\<lambda>now. bindA (record_status g (status_of c) (now - started)) (\<lambda>_. raiseA e))
      | _ \<Rightarrow> raiseA e)"

definition bounded_call :: "'s gateway_env \<Rightarrow> ('s, pyval \<times> bool) step \<Rightarrow> ('s, (pyval \<times> bool) \<times> int) step" where
  "bounded_call g call =
     bindA (perf_counter g) (\<lambda>started.
     bindA (tryA (tryA call (\<lambda>e. raiseA (if e = TimeoutError then route_deny ROUTE_TIMEOUT else e)))
        (report_failure g started)) (\<lambda>result.
     bindA (perf_counter g) (\<lambda>now. retA (result, now - started))))"

definition measure_result :: "'s gateway_env \<Rightarrow> pyval \<Rightarrow> bool \<Rightarrow> int \<Rightarrow> obligations \<Rightarrow> ('s, raw_result) step" where
  "measure_result g content is_error elapsed ob =
     bindA (liftA (canonical_json (g_py g) content)) (\<lambda>bytes.
     bindA (audit_set [(u ''response_bytes'', PInt (int (length bytes)))]) (\<lambda>_.
     bindA (record_status g (if is_error then ''tool_error'' else ''ok'') elapsed) (\<lambda>_.
     retA \<lparr> res_content = content, res_is_error = is_error, res_byte_count = int (length bytes),
            res_upstream_latency_ns = elapsed, res_obligations = ob \<rparr>)))"

section \<open>tools/call\<close>

definition outbound :: "canonical_request \<Rightarrow> derived_attributes \<Rightarrow> pyval" where
  "outbound req drv =
     (let arguments = items (thaw (req_arguments req)) in
      PObj Mut (if drv_path_argument drv \<noteq> []
                then dict_set arguments (drv_path_argument drv) (PStr (drv_relative_path drv)) else arguments))"

definition forward ::
    "'s gateway_env \<Rightarrow> canonical_request \<Rightarrow> derived_attributes \<Rightarrow> decision \<Rightarrow> ('s, raw_result) step" where
  "forward g req drv dec =
     bindA (liftA (gate (g_py g) req drv (Some dec))) (\<lambda>_.
     case req_tool_name req of
       None \<Rightarrow> raiseA (route_deny ROUTE_NO_DECISION)
     | Some name \<Rightarrow>
         bindA (enforce dec (cfg_router (g_config g))) (\<lambda>ob.
         bindA (bounded_call g (call_tool g name (outbound req drv))) (\<lambda>((content, is_error), elapsed).
         measure_result g content is_error elapsed ob)))"

section \<open>tools/list\<close>

text \<open>The tools OPA could ever allow, asked one by one in registry order.\<close>

fun ask_discoverable :: "'s gateway_env \<Rightarrow> authz_context \<Rightarrow> tool_entry list \<Rightarrow> ('s, ustr list) step" where
  "ask_discoverable g ctx [] = retA []"
| "ask_discoverable g ctx (t # ts) =
     bindA (await g (At_discovery (te_name t))) (\<lambda>_.
     bindA (liftA (discoverable (g_opa g) (cfg_policy (g_config g)) ctx (te_operation t))) (\<lambda>yes.
     bindA (ask_discoverable g ctx ts) (\<lambda>names. retA (if yes then te_name t # names else names))))"

definition visible :: "'s gateway_env \<Rightarrow> authz_context \<Rightarrow> ('s, tool_entry list) step" where
  "visible g ctx =
     bindA (ask_discoverable g ctx (map snd (reg_tools (g_registry g)))) (\<lambda>allowed.
     retA (visible_tools (g_registry g) ctx (\<lambda>_ tool. te_name tool \<in> set allowed)))"

text \<open>\<open>entry.get("name") in visible\<close>: a name that is a list or a dict has no hash.\<close>

fun keep_visible :: "ustr list \<Rightarrow> pyval list \<Rightarrow> pyval list result" where
  "keep_visible names [] = Inr []"
| "keep_visible names (entry # es) =
     bindR (case entry of
        PObj Mut kvs \<Rightarrow>
          (case field kvs ''name'' of
             PStr s \<Rightarrow> Inr (s \<in> set names)
           | PArr Mut _ \<Rightarrow> Inl (PyError ''TypeError'')
           | PObj Mut _ \<Rightarrow> Inl (PyError ''TypeError'')
           | _ \<Rightarrow> Inr False)
      | _ \<Rightarrow> Inr False) (\<lambda>keep.
     mapR (\<lambda>rest. if keep then entry # rest else rest) (keep_visible names es))"

definition discover :: "'s gateway_env \<Rightarrow> authz_context \<Rightarrow> obligations \<Rightarrow> ('s, raw_result) step" where
  "discover g ctx ob =
     bindA (bounded_call g (list_tools g)) (\<lambda>((content, is_error), elapsed).
     case content of
       PObj Mut doc \<Rightarrow>
         (case field doc ''tools'' of
            PArr Mut advertised \<Rightarrow>
              bindA (visible g ctx) (\<lambda>tools.
              bindA (liftA (keep_visible (map te_name tools) advertised)) (\<lambda>kept.
              measure_result g (PObj Mut (dict_set doc (u ''tools'') (PArr Mut kept))) is_error elapsed ob))
          | _ \<Rightarrow> raiseA (route_deny ROUTE_UPSTREAM_UNAVAILABLE))
     | _ \<Rightarrow> raiseA (route_deny ROUTE_UPSTREAM_UNAVAILABLE))"

section \<open>Stage 07\<close>

definition route ::
    "'s gateway_env \<Rightarrow> canonical_request \<Rightarrow> authz_context \<Rightarrow> derived_attributes \<Rightarrow> decision \<Rightarrow> ('s, raw_result) step" where
  "route g req ctx drv dec =
     bindA (liftA (gate (g_py g) req drv (Some dec))) (\<lambda>_.
     bindA (enforce dec (cfg_router (g_config g))) (\<lambda>ob.
     bindA (write_ahead g req drv dec) (\<lambda>_.
     if req_method req = LIST_METHOD then discover g ctx ob else forward g req drv dec)))"

end
