(* ===== verification/Router_Effects.thy ===== *)
theory Router_Effects
  imports Upstream_Router
begin

text \<open>
  What the operations of \<open>Upstream_Router\<close> leave behind: the invariants of a request's state they
  keep, the effects they add to the trace, in order, and how a call to the child ends. The pipeline
  instantiates the invariants on its own state and composes the effects of stage 07 with those of
  the other stages.
\<close>

section \<open>Contributions are well typed\<close>

lemma opt_literal_tier [simp]: "opt_literal [''R0'', ''R1'', ''R2'', ''R4''] (PStr (tier_value t))"
  by (cases t) (simp_all add: opt_literal_def tier_value_def)

lemma opt_literal_verdict [simp]: "opt_literal [''allow'', ''deny''] (PStr (u (verdict_value v)))"
  by (cases v) (simp_all add: opt_literal_def verdict_value_def)

lemma typed_option [simp]: "has_type Ty_str (case x of None \<Rightarrow> PNone | Some s \<Rightarrow> PStr s)"
  by (simp split: option.splits)

lemma has_type_ints: "has_type Ty_ints (PObj Mut [(a, PInt x), (b, PInt y)])"
  by (simp add: has_type_def)

lemma typed_contributions:
  "list_all typed (audit_fields req)"
  "list_all typed (identity_audit_fields (resolve_identity req' idc))"
  "list_all typed (registry_audit_fields tgt)"
  "list_all typed (canonical_audit_fields drv)"
  "list_all typed (policy_audit_fields dec)"
  "list_all typed [(u ''obligations'', obligations_dump ob)]"
  "list_all typed [(u ''response_bytes'', PInt n)]"
  "list_all typed [(u ''upstream_status'', PStr s), (u ''upstream_latency_ms'', PFloat f)]"
proof -
  show "list_all typed (audit_fields req)" by (simp add: typed_def audit_fields_def)
  show "list_all typed (identity_audit_fields (resolve_identity req' idc))"
    by (simp add: typed_def identity_audit_fields_def resolve_identity_def opt_literal_def list_all_iff is_str_def)
  show "list_all typed (registry_audit_fields tgt)" by (simp add: typed_def registry_audit_fields_def)
  show "list_all typed (canonical_audit_fields drv)" by (simp add: typed_def canonical_audit_fields_def)
  show "list_all typed (policy_audit_fields dec)" by (simp add: typed_def policy_audit_fields_def has_type_ints)
  show "list_all typed [(u ''obligations'', obligations_dump ob)]"
    by (simp add: typed_def obligations_dump_def has_type_ints)
  show "list_all typed [(u ''response_bytes'', PInt n)]"
    "list_all typed [(u ''upstream_status'', PStr s), (u ''upstream_latency_ms'', PFloat f)]"
    by (simp_all add: typed_def)
qed

section \<open>Preconditions of the primitives\<close>

lemma wpA_perf [wp_rules]:
  "wpA (perf_counter g) Q w = Q (Inr (perf_ns (g_clock g) (w_tick w))) (w \<lparr> w_tick := Suc (w_tick w) \<rparr>)"
  "wpA (utc_now g) Q w = Q (Inr (utc_us (g_clock g) (w_tick w))) (w \<lparr> w_tick := Suc (w_tick w) \<rparr>)"
  by (simp_all add: wpA_def perf_counter_def utc_now_def)

lemma wpA_audit_set [wp_rules]:
  "list_all typed kw \<Longrightarrow> wpA (audit_set kw) Q w =
     Q (Inr ()) (w \<lparr> w_builder := w_builder w \<lparr> bld_fields := dict_update (bld_fields (w_builder w)) kw \<rparr> \<rparr>)"
  by (simp add: wpA_def audit_set_def set_fields_typed)

section \<open>Invariants of the state\<close>

lemma keeps_if [keeps_intros]: "keeps I m \<Longrightarrow> keeps I m' \<Longrightarrow> keeps I (if c then m else m')"
  by simp

text \<open>
  The code of a request reads clocks and contributes well-typed fields to the record; an invariant
  those keep is kept by every operation that neither writes a record nor talks to the child. One
  that attempt records and calls keep too is kept by all of stage 07, however it ends.
\<close>

definition stage_effect :: "effect \<Rightarrow> bool" where
  "stage_effect x = (case x of Recorded r \<Rightarrow> (case r of Upstream_attempt _ \<Rightarrow> True | _ \<Rightarrow> False) | _ \<Rightarrow> True)"

locale quiet_invariant =
  fixes I :: "'s world \<Rightarrow> bool"
  assumes tick: "I w \<Longrightarrow> I (w \<lparr> w_tick := n \<rparr>)"
    and contribute: "I w \<Longrightarrow> list_all typed kw \<Longrightarrow>
      I (w \<lparr> w_builder := w_builder w \<lparr> bld_fields := dict_update (bld_fields (w_builder w)) kw \<rparr> \<rparr>)"
    and timed: "I w \<Longrightarrow> I (w \<lparr> w_builder := builder_stage st t0 t1 (w_builder w) \<rparr>)"
    and outcome: "I w \<Longrightarrow> I (w \<lparr> w_builder := set_outcome out (w_builder w) \<rparr>)"
begin

lemma keeps_clock_readings [keeps_intros]:
  "keeps I (perf_counter g)" "keeps I (utc_now g)" "keeps I (await g pt)"
  by (auto simp: keeps_def perf_counter_def utc_now_def await_def tick)

lemma keeps_audit_set [keeps_intros]: "list_all typed kw \<Longrightarrow> keeps I (audit_set kw)"
  by (auto simp: keeps_def audit_set_def set_fields_typed contribute)

lemma keeps_record_status [keeps_intros]: "keeps I (record_status g s n)"
  unfolding record_status_def by (intro keeps_intros typed_contributions)

lemma keeps_enforce [keeps_intros]: "keeps I (enforce dec cfg)"
  unfolding enforce_def by (intro keeps_intros typed_contributions)

lemma keeps_measure [keeps_intros]: "keeps I (measure_result g c e n ob)"
  unfolding measure_result_def by (intro keeps_intros typed_contributions)

lemma keeps_report [keeps_intros]: "keeps I (report_failure g t e)"
  unfolding report_failure_def by (auto split: exc.splits stage.splits intro!: keeps_intros)

lemma keeps_bounded [keeps_intros]: "keeps I m \<Longrightarrow> keeps I (bounded_call g m)"
  unfolding bounded_call_def by (intro keeps_intros)

lemma keeps_ask [keeps_intros]: "keeps I (ask_discoverable g ctx ts)"
proof (induction ts)
  case Nil
  then show ?case by (simp only: ask_discoverable.simps keeps_simple)
next
  case (Cons t ts)
  then show ?case unfolding ask_discoverable.simps by (intro keeps_intros)
qed

lemma keeps_visible [keeps_intros]: "keeps I (visible g ctx)"
  unfolding visible_def by (intro keeps_intros)

end

locale step_invariant = quiet_invariant I for I :: "'s world \<Rightarrow> bool" +
  assumes alive: "I w \<Longrightarrow> I (w \<lparr> w_alive := a \<rparr>)"
    and sink: "I w \<Longrightarrow> I (w \<lparr> w_sink := s \<rparr>)"
    and effect: "I w \<Longrightarrow> stage_effect x \<Longrightarrow> I (w \<lparr> w_trace := w_trace w @ [x] \<rparr>)"
begin

lemma keeps_emit [keeps_intros]: "stage_effect x \<Longrightarrow> keeps I (emit x)"
  by (simp add: keeps_def emit_def effect)

lemma keeps_zoom_sink [keeps_intros]: "keeps I (zoomA w_sink (\<lambda>s w. w \<lparr> w_sink := s \<rparr>) m)"
  by (auto simp: keeps_def zoomA_def sink split: prod.splits)

lemma keeps_audit_write [keeps_intros]: "stage_effect (Recorded r) \<Longrightarrow> keeps I (audit_write g r)"
  unfolding audit_write_def by (intro keeps_intros)

lemma keeps_send [keeps_intros]: "stage_effect x \<Longrightarrow> keeps I (send_guarded x r)"
  unfolding send_guarded_def
  by (intro keeps_bind keeps_emit) (auto simp: keeps_def alive split: prod.splits)

lemma keeps_calls [keeps_intros]: "keeps I (call_tool g n args)" "keeps I (list_tools g)"
  unfolding call_tool_def list_tools_def by (intro keeps_intros; simp add: stage_effect_def)+

lemma keeps_discover [keeps_intros]: "keeps I (discover g ctx ob)"
  unfolding discover_def
  by (intro keeps_bind keeps_bounded keeps_calls)
    (auto split: prod.splits pyval.splits mutability.splits intro!: keeps_intros)

lemma keeps_forward [keeps_intros]: "keeps I (forward g req drv dec)"
  unfolding forward_def
  by (intro keeps_bind keeps_simple) (auto split: option.splits prod.splits intro!: keeps_intros)

lemma keeps_route [keeps_intros]: "keeps I (route g req ctx drv dec)"
  unfolding route_def write_ahead_def by (intro keeps_intros) (simp add: stage_effect_def attempt_record_def)

end

section \<open>Effects\<close>

text \<open>The effects a step adds to the trace of its request; a quiet action adds none.\<close>

abbreviation grows :: "('a result \<Rightarrow> effect list \<Rightarrow> bool) \<Rightarrow> ('s, 'a) step \<Rightarrow> bool" where
  "grows \<equiv> emits w_trace"

definition quiet :: "('s, 'a) step \<Rightarrow> bool" where
  "quiet m \<longleftrightarrow> (\<forall>t. keeps (\<lambda>w. w_trace w = t) m)"

interpretation silence: quiet_invariant "\<lambda>w. w_trace w = t" for t
  by unfold_locales simp_all

lemma quiet_facts [simp]:
  "quiet (perf_counter g)" "quiet (utc_now g)" "quiet (await g pt)" "quiet (enforce dec cfg)"
  "quiet (measure_result g c e n ob)" "quiet (visible g ctx)" "quiet (ask_discoverable g ctx ts)"
  "quiet (retA x)" "quiet (raiseA ex)" "quiet (liftA v)" "quiet (getA h)"
  by (simp_all add: quiet_def keeps_intros silence.keeps_clock_readings silence.keeps_enforce
      silence.keeps_measure silence.keeps_visible silence.keeps_ask)

lemma quiet_audit_set [simp]: "list_all typed kw \<Longrightarrow> quiet (audit_set kw)"
  by (simp add: quiet_def silence.keeps_audit_set)

lemma quietD: "quiet m \<Longrightarrow> m w = (r, w') \<Longrightarrow> w_trace w' = w_trace w"
  unfolding quiet_def by (drule spec [of _ "w_trace w"]) (erule keepsD, simp_all)

lemma grows_quiet: "quiet m \<Longrightarrow> (\<And>w r w'. m w = (r, w') \<Longrightarrow> S r []) \<Longrightarrow> grows S m"
  by (auto simp: emits_def dest: quietD)

lemma grows_bind_quiet:
  assumes "quiet m" "\<And>e w w'. m w = (Inl e, w') \<Longrightarrow> U (Inl e) []"
    and "\<And>x w w'. m w = (Inr x, w') \<Longrightarrow> grows U (f x)"
  shows "grows U (bindA m f)"
proof (rule emits_bind)
  show "grows (\<lambda>r es. es = [] \<and> (\<exists>w w'. m w = (r, w'))) m" by (rule grows_quiet [OF assms(1)]) auto
qed (use assms in auto)

lemma grows_bind_lift:
  "(\<And>e. v = Inl e \<Longrightarrow> U (Inl e) []) \<Longrightarrow> (\<And>x. v = Inr x \<Longrightarrow> grows U (f x)) \<Longrightarrow> grows U (bindA (liftA v) f)"
  by (rule grows_bind_quiet) simp_all

text \<open>A record is in the trace only when the sink took it.\<close>

definition accepted :: "'s gateway_env \<Rightarrow> audit_record \<Rightarrow> bool" where
  "accepted g rec \<longleftrightarrow> (\<exists>s s'. g_write g rec s = (Inr (), s'))"

lemma grows_audit_write:
  "grows (\<lambda>r es. case r of Inl _ \<Rightarrow> es = [] | Inr _ \<Rightarrow> es = [Recorded rec] \<and> accepted g rec) (audit_write g rec)"
  by (auto simp: emits_def audit_write_def bindA_def zoomA_def emit_def accepted_def split: prod.splits sum.splits)

lemma grows_send:
  "grows (\<lambda>r es. es = [x] \<and> (\<forall>v e. r = Inr (v, e) \<longrightarrow> reply = Answer v e)) (send_guarded x reply)"
  by (auto simp: emits_def send_guarded_def bindA_def emit_def guarded_def split: prod.splits upstream_reply.splits)

lemma quiet_report: "quiet (report_failure g t e)"
  by (simp add: quiet_def silence.keeps_report)

lemma report_raises: "report_failure g t e w = (r, w') \<Longrightarrow> \<exists>e'. r = Inl e'"
  by (auto simp: report_failure_def bindA_def split: exc.splits stage.splits prod.splits sum.splits)

text \<open>A call that was bounded keeps its effects, and an answer its value.\<close>

lemma grows_tried:
  assumes "grows S m"
  shows "grows (\<lambda>r es. case r of Inl _ \<Rightarrow> \<exists>e. S (Inl e) es | Inr x \<Rightarrow> S (Inr x) es)
    (tryA (tryA m (\<lambda>e. raiseA (h e))) (report_failure g t))"
  unfolding emits_def
proof (intro allI impI)
  fix w r w'
  assume run: "tryA (tryA m (\<lambda>e. raiseA (h e))) (report_failure g t) w = (r, w')"
  obtain r1 w1 where m: "m w = (r1, w1)" by (cases "m w")
  from emitsD [OF assms m] obtain es where es: "w_trace w1 = w_trace w @ es" "S r1 es" by blast
  show "\<exists>es. w_trace w' = w_trace w @ es \<and> (case r of Inl _ \<Rightarrow> \<exists>e. S (Inl e) es | Inr x \<Rightarrow> S (Inr x) es)"
  proof (cases r1)
    case (Inr x)
    then show ?thesis using run m es by (auto simp: tryA_def)
  next
    case (Inl e)
    then have 1: "report_failure g t (h e) w1 = (r, w')" using run m by (simp add: tryA_def)
    from report_raises [OF 1] quietD [OF quiet_report 1] show ?thesis using es Inl by auto
  qed
qed

lemma grows_bounded:
  assumes "grows S m"
  shows "grows (\<lambda>r es. case r of Inl _ \<Rightarrow> \<exists>e. S (Inl e) es | Inr (x, n) \<Rightarrow> S (Inr x) es) (bounded_call g m)"
  unfolding bounded_call_def
  by (intro grows_bind_quiet emits_bind [OF grows_tried [OF assms]] emits_ret quiet_facts)
    (auto simp: perf_counter_def)

section \<open>What stage 07 sends\<close>

text \<open>The tools OPA answers \<open>true\<close> for, and the answers shown to the client.\<close>

definition allowed_names :: "'s gateway_env \<Rightarrow> authz_context \<Rightarrow> tool_entry list \<Rightarrow> ustr list" where
  "allowed_names g ctx ts =
     map te_name (filter (\<lambda>t. discoverable (g_opa g) (cfg_policy (g_config g)) ctx (te_operation t) = Inr True) ts)"

definition shown_names :: "'s gateway_env \<Rightarrow> authz_context \<Rightarrow> ustr list" where
  "shown_names g ctx =
     (let ts = map snd (reg_tools (g_registry g)) in
      map te_name (filter (\<lambda>t. callable_reason (g_registry g) t = None \<and> te_name t \<in> set (allowed_names g ctx ts)) ts))"

definition listed :: "'s gateway_env \<Rightarrow> authz_context \<Rightarrow> raw_result \<Rightarrow> bool" where
  "listed g ctx res \<longleftrightarrow>
     (\<exists>doc advertised. g_list g = Answer (PObj Mut doc) (res_is_error res) \<and> field doc ''tools'' = PArr Mut advertised
       \<and> res_content res = PObj Mut (dict_set doc (u ''tools'')
           (PArr Mut (filter (\<lambda>entry. \<exists>kvs s. entry = PObj Mut kvs \<and> dict_get kvs (u ''name'') = Some (PStr s)
              \<and> s \<in> set (shown_names g ctx)) advertised))))"

definition route_effects ::
    "'s gateway_env \<Rightarrow> canonical_request \<Rightarrow> authz_context \<Rightarrow> derived_attributes \<Rightarrow> decision
      \<Rightarrow> raw_result result \<Rightarrow> effect list \<Rightarrow> bool" where
  "route_effects g req ctx drv dec r es \<longleftrightarrow>
     es = [] \<and> isl r
   \<or> gate (g_py g) req drv (Some dec) = Inr () \<and>
     (\<exists>ts. accepted g (attempt_record g req drv dec ts) \<and> (let attempt = Recorded (attempt_record g req drv dec ts) in
        es = [attempt] \<and> isl r
      \<or> req_method req = LIST_METHOD \<and> es = [attempt, Listed] \<and> (\<forall>res. r = Inr res \<longrightarrow> listed g ctx res)
      \<or> req_method req \<noteq> LIST_METHOD \<and> (\<exists>name. req_tool_name req = Some name
          \<and> es = [attempt, Called name (outbound req drv)]
          \<and> (\<forall>res. r = Inr res \<longrightarrow> g_call g name (outbound req drv) = Answer (res_content res) (res_is_error res)))))"

lemma ask_answers: "ask_discoverable g ctx ts w = (Inr names, w') \<Longrightarrow> names = allowed_names g ctx ts"
proof (induction ts arbitrary: names w w')
  case Nil
  then show ?case by (simp add: allowed_names_def)
next
  case (Cons t ts)
  then show ?case
    by (fastforce simp: bindA_Inr_iff allowed_names_def await_def split: if_splits)
qed

lemma visible_shows: "visible g ctx w = (Inr tools, w') \<Longrightarrow> map te_name tools = shown_names g ctx"
  by (auto simp: visible_def bindA_Inr_iff visible_tools_def shown_names_def Let_def dest!: ask_answers)

lemma keep_visible_filters:
  "keep_visible names es = Inr kept \<Longrightarrow>
   kept = filter (\<lambda>entry. \<exists>kvs s. entry = PObj Mut kvs \<and> dict_get kvs (u ''name'') = Some (PStr s) \<and> s \<in> set names) es"
proof (induction es arbitrary: kept)
  case Nil
  then show ?case by simp
next
  case (Cons entry es)
  then show ?case
    by (auto simp: bindR_Inr_iff mapR_Inr_iff field_def split: pyval.splits mutability.splits option.splits if_splits)
qed

lemma measured: "measure_result g c e n ob w = (Inr res, w') \<Longrightarrow> res_content res = c \<and> res_is_error res = e"
  by (auto simp: measure_result_def bindA_Inr_iff)

lemma grows_call:
  "grows (\<lambda>r es. es = [] \<and> isl r \<or> es = [Called name arguments]
     \<and> (\<forall>v e. r = Inr (v, e) \<longrightarrow> g_call g name arguments = Answer v e)) (call_tool g name arguments)"
  unfolding call_tool_def
  by (rule grows_bind_quiet) (auto intro: emits_raise emits_mono [OF grows_send])

lemma grows_list:
  "grows (\<lambda>r es. es = [Listed] \<and> (\<forall>v e. r = Inr (v, e) \<longrightarrow> g_list g = Answer v e)) (list_tools g)"
  unfolding list_tools_def by (rule grows_send)

lemma grows_discover:
  "grows (\<lambda>r es. es = [Listed] \<and> (\<forall>res. r = Inr res \<longrightarrow> listed g ctx res)) (discover g ctx ob)"
  (is "grows ?U _")
proof -
  have kept: "?U (Inr res) [Listed]"
    if "g_list g = Answer (PObj Mut doc) e" "field doc ''tools'' = PArr Mut advertised" "visible g ctx w = (Inr tools, w1)"
      "keep_visible (map te_name tools) advertised = Inr kept"
      "measure_result g (PObj Mut (dict_set doc (u ''tools'') (PArr Mut kept))) e n ob w2 = (Inr res, w3)"
    for doc e advertised w tools w1 kept n w2 res w3
    unfolding listed_def using that visible_shows [OF that(3)] keep_visible_filters [OF that(4)] measured [OF that(5)]
    by auto
  have shown: "grows (\<lambda>r es. ?U r (Listed # es))
      (bindA (visible g ctx) (\<lambda>tools.
       bindA (liftA (keep_visible (map te_name tools) advertised)) (\<lambda>kept.
       measure_result g (PObj Mut (dict_set doc (u ''tools'') (PArr Mut kept))) e n ob)))"
    if "g_list g = Answer (PObj Mut doc) e" "field doc ''tools'' = PArr Mut advertised" for doc e advertised n
    by (intro grows_bind_quiet grows_bind_lift grows_quiet quiet_facts) (use that kept in \<open>auto split: sum.splits\<close>)
  show ?thesis
    unfolding discover_def
  proof (rule emits_bind [OF grows_bounded [OF grows_list]], goal_cases)
    case (1 e es)
    then show ?case by auto
  next
    case (2 x es)
    then show ?case
      using shown by (auto split: prod.splits pyval.splits mutability.splits intro!: emits_raise)
  qed
qed

lemma grows_forward:
  assumes "req_method req \<noteq> LIST_METHOD" "gate (g_py g) req drv (Some dec) = Inr ()"
  shows "grows (\<lambda>r es. es = [] \<and> isl r \<or> (\<exists>name. req_tool_name req = Some name \<and> es = [Called name (outbound req drv)]
      \<and> (\<forall>res. r = Inr res \<longrightarrow> g_call g name (outbound req drv) = Answer (res_content res) (res_is_error res))))
    (forward g req drv dec)"
proof (cases "req_tool_name req")
  case None
  then show ?thesis unfolding forward_def by (intro grows_bind_lift) (auto intro: emits_raise)
next
  case (Some name)
  have sent: "grows (\<lambda>r es. es = [] \<and> isl r \<or> es = [Called name (outbound req drv)]
      \<and> (\<forall>res. r = Inr res \<longrightarrow> g_call g name (outbound req drv) = Answer (res_content res) (res_is_error res)))
    (bindA (bounded_call g (call_tool g name (outbound req drv))) (\<lambda>((content, is_error), elapsed).
       measure_result g content is_error elapsed ob))" (is "grows ?U _") for ob
  proof (rule emits_bind [OF grows_bounded [OF grows_call]], goal_cases)
    case (1 e es)
    then show ?case by auto
  next
    case (2 x es)
    then show ?case
      by (auto split: prod.splits intro!: grows_quiet dest!: measured)
  qed
  show ?thesis
    unfolding forward_def Some option.case
    by (intro grows_bind_lift grows_bind_quiet quiet_facts emits_mono [OF sent]) auto
qed

lemma grows_route: "grows (route_effects g req ctx drv dec) (route g req ctx drv dec)"
proof -
  have written: "grows (route_effects g req ctx drv dec)
      (bindA (write_ahead g req drv dec) (\<lambda>_.
       if req_method req = LIST_METHOD then discover g ctx ob else forward g req drv dec))"
    if gate: "gate (g_py g) req drv (Some dec) = Inr ()" for ob
  proof -
    have ahead: "grows (\<lambda>r es. case r of Inl _ \<Rightarrow> es = [] | Inr _ \<Rightarrow> \<exists>ts. es = [Recorded (attempt_record g req drv dec ts)] \<and> accepted g (attempt_record g req drv dec ts))
        (write_ahead g req drv dec)"
      unfolding write_ahead_def
      by (intro grows_bind_quiet quiet_facts emits_mono [OF grows_audit_write]) (auto split: sum.splits)
    show ?thesis
      by (rule emits_bind [OF ahead])
        (auto simp: route_effects_def gate Let_def intro!: emits_mono [OF grows_discover] emits_mono [OF grows_forward [OF _ gate]])
  qed
  show ?thesis
    unfolding route_def
    by (intro grows_bind_lift grows_bind_quiet quiet_facts written) (auto simp: route_effects_def)
qed

section \<open>How a call to the child ends\<close>

text \<open>What the call leaves in the record of its request: a status and the time between the two clock readings.\<close>

definition call_time :: "'s gateway_env \<Rightarrow> 's world \<Rightarrow> int" where
  "call_time g w = perf_ns (g_clock g) (Suc (w_tick w)) - perf_ns (g_clock g) (w_tick w)"

definition status_recorded :: "'s gateway_env \<Rightarrow> 's world \<Rightarrow> string \<Rightarrow> audit_builder" where
  "status_recorded g w status = w_builder w \<lparr> bld_fields := dict_update (bld_fields (w_builder w))
     [(u ''upstream_status'', PStr (u status)), (u ''upstream_latency_ms'', PFloat (to_ms (g_clock g) (call_time g w)))] \<rparr>"

lemma record_status_run:
  "record_status g status n w = (Inr (), w \<lparr> w_builder := w_builder w \<lparr> bld_fields := dict_update (bld_fields (w_builder w))
     [(u ''upstream_status'', PStr (u status)), (u ''upstream_latency_ms'', PFloat (to_ms (g_clock g) n))] \<rparr> \<rparr>)"
  unfolding record_status_def audit_set_def by (subst set_fields_typed, rule typed_contributions, simp)

lemma status_of_values:
  "status_of ROUTE_TIMEOUT = ''timeout''" "status_of ROUTE_UPSTREAM_UNAVAILABLE = ''unavailable''"
  by code_simp+

lemma report_failure_run:
  "report_failure g started e w =
     (Inl e, case e of
        Cancelled \<Rightarrow> snd (record_status g ''cancelled'' (perf_ns (g_clock g) (w_tick w) - started) (w \<lparr> w_tick := Suc (w_tick w) \<rparr>))
      | Denial ROUTE c \<Rightarrow> snd (record_status g (status_of c) (perf_ns (g_clock g) (w_tick w) - started) (w \<lparr> w_tick := Suc (w_tick w) \<rparr>))
      | _ \<Rightarrow> w)"
  by (auto simp: report_failure_def bindA_def perf_counter_def record_status_run split: exc.splits stage.splits)

text \<open>
  C27: how every call to the child ends (BRIDGE-008, BRIDGE-011, ROUTE-006, ROUTE-012). On a dead
  handle nothing is sent and the call is denied as unavailable. On a live one exactly one call is
  sent. An answer, a tool error included, comes back untouched with the time it took. A timeout of
  the protocol or of the caller's own deadline is a ROUTE_TIMEOUT denial; any other protocol error
  and a broken stream are ROUTE_UPSTREAM_UNAVAILABLE; a cancellation goes on as one; any other
  exception passes through as it is. The status that names the failure and the time it took are
  what the record of the request gains. And the handle is marked dead by a broken stream or a
  closed connection, and by nothing else.
\<close>

theorem upstream_failures_deny:
  "case bounded_call g (call_tool g name arguments) w of (r, w') \<Rightarrow>
     w_sink w' = w_sink w
   \<and> (if \<not> w_alive w
      then r = Inl (route_deny ROUTE_UPSTREAM_UNAVAILABLE) \<and> w_trace w' = w_trace w \<and> \<not> w_alive w'
        \<and> w_builder w' = status_recorded g w ''unavailable''
      else w_trace w' = w_trace w @ [Called name arguments]
        \<and> w_alive w' = (g_call g name arguments \<notin> {Stream_error, Mcp_error Connection_closed})
        \<and> (case g_call g name arguments of
             Answer content is_error \<Rightarrow> r = Inr ((content, is_error), call_time g w) \<and> w_builder w' = w_builder w
           | Mcp_error c \<Rightarrow>
               if c = Request_timeout
               then r = Inl (route_deny ROUTE_TIMEOUT) \<and> w_builder w' = status_recorded g w ''timeout''
               else r = Inl (route_deny ROUTE_UPSTREAM_UNAVAILABLE) \<and> w_builder w' = status_recorded g w ''unavailable''
           | Stream_error \<Rightarrow> r = Inl (route_deny ROUTE_UPSTREAM_UNAVAILABLE) \<and> w_builder w' = status_recorded g w ''unavailable''
           | Deadline_expired \<Rightarrow> r = Inl (route_deny ROUTE_TIMEOUT) \<and> w_builder w' = status_recorded g w ''timeout''
           | Interrupted \<Rightarrow> r = Inl Cancelled \<and> w_builder w' = status_recorded g w ''cancelled''
           | Raised e \<Rightarrow> r = Inl (if e = TimeoutError then route_deny ROUTE_TIMEOUT else e)
               \<and> w_builder w' = (case e of
                   TimeoutError \<Rightarrow> status_recorded g w ''timeout''
                 | Cancelled \<Rightarrow> status_recorded g w ''cancelled''
                 | Denial ROUTE c \<Rightarrow> status_recorded g w (status_of c)
                 | _ \<Rightarrow> w_builder w)))"
proof (cases "w_alive w")
  case False
  then show ?thesis
    by (simp add: bounded_call_def call_tool_def bindA_def perf_counter_def tryA_def report_failure_run record_status_run
        status_recorded_def call_time_def status_of_values)
next
  case True
  have sent: "call_tool g name arguments v = (case guarded (g_call g name arguments) True of
      (res, alive) \<Rightarrow> (res, v \<lparr> w_trace := w_trace v @ [Called name arguments], w_alive := alive \<rparr>))" if "w_alive v" for v
    using that by (simp add: call_tool_def send_guarded_def bindA_def emit_def split: prod.split)
  show ?thesis
  proof (cases "g_call g name arguments")
    case (Raised e)
    then show ?thesis using True
      by (cases e) (auto simp: bounded_call_def bindA_def perf_counter_def tryA_def sent guarded_def report_failure_run
          record_status_run status_recorded_def call_time_def status_of_values split: stage.splits)
  qed (use True in \<open>auto simp: bounded_call_def bindA_def perf_counter_def tryA_def sent guarded_def upstream_error_def
        report_failure_run record_status_run status_recorded_def call_time_def status_of_values\<close>)
qed

end
