(* ===== verification/Response_Guard.thy ===== *)
theory Response_Guard
  imports Protocol_Guard Audit_Event Gateway_Effects
begin

text \<open>
  \<open>gateway/response.py\<close>: the envelope, size, shape and structural checks of an upstream result,
  the JSON-RPC response built around it unchanged, and the watcher that refuses and records what
  the upstream sends unasked.
\<close>

abbreviation resp_deny :: "reason_code \<Rightarrow> exc" where
  "resp_deny c \<equiv> Denial RESPONSE c"

section \<open>Validation\<close>

definition REQUIRED_LIST_KEY :: "(ustr \<times> ustr) list" where
  "REQUIRED_LIST_KEY = [(u ''tools/call'', u ''content''), (u ''tools/list'', u ''tools'')]"

definition response_envelope :: "raw_result \<Rightarrow> (ustr \<times> pyval) list result" where
  "response_envelope raw =
     (case res_content raw of PObj m kvs \<Rightarrow> Inr kvs | _ \<Rightarrow> Inl (resp_deny RESP_ENVELOPE_INVALID))"

definition response_bound :: "raw_result \<Rightarrow> response_config \<Rightarrow> unit result" where
  "response_bound raw cfg =
     (let ceiling = min (ob_max_response_bytes (res_obligations raw)) (rsp_max_bytes cfg) in
      raise_if (ceiling < res_byte_count raw) (resp_deny RESP_TOO_LARGE))"

definition response_shape :: "(ustr \<times> pyval) list \<Rightarrow> canonical_request \<Rightarrow> unit result" where
  "response_shape doc req =
     bindR (raise_if (dict_has doc (u ''inputRequests'')) (resp_deny RESP_MRTR_UNSUPPORTED)) (\<lambda>_.
     case dict_get REQUIRED_LIST_KEY (req_method req) of
       None \<Rightarrow> Inl (resp_deny RESP_SHAPE_INVALID)
     | Some required \<Rightarrow>
         raise_if (\<not> (case dict_get doc required of Some v \<Rightarrow> is_list v | None \<Rightarrow> False))
           (resp_deny RESP_SHAPE_INVALID))"

text \<open>The walk of stage 02, with its denial translated to this stage.\<close>

definition response_limits :: "(ustr \<times> pyval) list \<Rightarrow> response_config \<Rightarrow> unit result" where
  "response_limits doc cfg =
     (case check_limits (PObj Mut doc) cfg RESP_LIMIT_EXCEEDED of
        Inl (Denial PROTOCOL c) \<Rightarrow> Inl (resp_deny RESP_LIMIT_EXCEEDED)
      | r \<Rightarrow> r)"

definition rpc_id_doc :: "rpc_id \<Rightarrow> pyval" where
  "rpc_id_doc i = (case i of Id_null \<Rightarrow> PNone | Id_str s \<Rightarrow> PStr s | Id_int n \<Rightarrow> PInt n)"

definition response_doc :: "canonical_request \<Rightarrow> (ustr \<times> pyval) list \<Rightarrow> pyval" where
  "response_doc req doc =
     PObj Mut [(u ''jsonrpc'', PStr (u ''2.0'')), (u ''id'', rpc_id_doc (req_jsonrpc_id req)),
       (u ''result'', PObj Mut doc)]"

definition response_validate ::
    "raw_result \<Rightarrow> canonical_request \<Rightarrow> response_config \<Rightarrow> pyval untrusted result" where
  "response_validate raw req cfg =
     bindR (response_envelope raw) (\<lambda>doc.
     bindR (response_bound raw cfg) (\<lambda>_.
     bindR (response_shape doc req) (\<lambda>_.
     bindR (response_limits doc cfg) (\<lambda>_.
     Inr (Untrusted (response_doc req doc))))))"

section \<open>Out-of-band messages\<close>

text \<open>
  What the SDK hands to \<open>message_handler\<close>: a transport fault by its class name, or a message and
  the method it names. \<open>record_fault\<close> suppresses every \<open>Exception\<close> of the sink; a cancellation
  is none.
\<close>

datatype upstream_message = Fault ustr | Message "ustr option"

definition suppress :: "('s, unit) act \<Rightarrow> ('s, unit) act" where
  "suppress m = tryA m (\<lambda>e. if e = Cancelled then raiseA e else retA ())"

definition record_fault ::
    "(audit_record \<Rightarrow> ('s, unit) act) \<Rightarrow> int \<Rightarrow> ustr \<Rightarrow> reason_code \<Rightarrow> ustr option \<Rightarrow> ustr option
      \<Rightarrow> ('s, unit) act" where
  "record_fault write now server code method fault =
     suppress (write (Upstream_fault
       \<lparr> fe_ts = now, fe_server_id = server, fe_reason_code = u (reason_value code),
         fe_mcp_method = method, fe_fault = fault \<rparr>))"

definition on_message ::
    "(audit_record \<Rightarrow> ('s, unit) act) \<Rightarrow> int \<Rightarrow> ustr \<Rightarrow> upstream_message \<Rightarrow> ('s, unit) act" where
  "on_message write now server m =
     (case m of
        Fault cls \<Rightarrow> record_fault write now server RESP_ENVELOPE_INVALID None (Some cls)
      | Message method \<Rightarrow> record_fault write now server RESP_UNSOLICITED method (Some (u ''notification'')))"

datatype server_request = Roots_list | Sampling_create | Elicitation_create

definition refused_method :: "server_request \<Rightarrow> ustr" where
  "refused_method r = (case r of Roots_list \<Rightarrow> u ''roots/list'' | Sampling_create \<Rightarrow> u ''sampling/createMessage''
     | Elicitation_create \<Rightarrow> u ''elicitation/create'')"

text \<open>The answer is an error object, \<open>INVALID_REQUEST\<close>, whatever the request.\<close>

definition refuse :: "(audit_record \<Rightarrow> ('s, unit) act) \<Rightarrow> int \<Rightarrow> ustr \<Rightarrow> server_request \<Rightarrow> ('s, int \<times> string) act" where
  "refuse write now server r =
     bindA (record_fault write now server RESP_UNSOLICITED (Some (refused_method r)) None) (\<lambda>_.
     retA (JSONRPC_INVALID_REQUEST, ''Server-initiated requests are not accepted by this gateway.''))"

section \<open>Lemmas\<close>

lemma response_limits_Inr: "response_limits doc cfg = Inr () \<longleftrightarrow> check_limits (PObj Mut doc) cfg RESP_LIMIT_EXCEEDED = Inr ()"
  by (auto simp: response_limits_def split: sum.splits exc.splits stage.splits)

lemma response_limits_Inl: "response_limits doc cfg = Inl e \<Longrightarrow> e = resp_deny RESP_LIMIT_EXCEEDED"
  by (auto simp: response_limits_def split: sum.splits exc.splits stage.splits dest!: check_limits_error)

lemma response_validate_Inr_iff:
  "response_validate raw req cfg = Inr out \<longleftrightarrow>
     (\<exists>m doc key. res_content raw = PObj m doc \<and> out = Untrusted (response_doc req doc)
       \<and> res_byte_count raw \<le> min (ob_max_response_bytes (res_obligations raw)) (rsp_max_bytes cfg)
       \<and> \<not> dict_has doc (u ''inputRequests'')
       \<and> dict_get REQUIRED_LIST_KEY (req_method req) = Some key
       \<and> (\<exists>xs. dict_get doc key = Some (PArr Mut xs))
       \<and> check_limits (PObj Mut doc) cfg RESP_LIMIT_EXCEEDED = Inr ())"
  unfolding response_validate_def response_envelope_def response_bound_def response_shape_def Let_def
  by (auto simp: bindR_Inr_iff raise_if_Inr_iff response_limits_Inr is_list_def
      split: pyval.splits option.splits mutability.splits)

lemma response_validate_Inl:
  assumes "response_validate raw req cfg = Inl e"
  shows "e \<in> resp_deny ` {RESP_ENVELOPE_INVALID, RESP_TOO_LARGE, RESP_MRTR_UNSUPPORTED, RESP_SHAPE_INVALID,
    RESP_LIMIT_EXCEEDED}"
  using assms
  unfolding response_validate_def response_envelope_def response_bound_def response_shape_def Let_def
  by (auto simp: bindR_Inl_iff raise_if_Inl_iff split: pyval.splits option.splits dest: response_limits_Inl)

section \<open>Properties\<close>

text \<open>
  C28: what reaches the client is exactly what the upstream said, framed, or nothing (RESP-003,
  RESP-004, RESP-005, RESP-008). A result is accepted exactly when it is an object, at most as
  large as both ceilings, no request for more input, carrying the list its method promises, and
  within the structural limits; the response then holds it unchanged under the request's id, and
  everything else is a denial of this stage.
\<close>

theorem response_guard_correct:
  assumes "res_content raw = PObj Mut doc" "all_mut Mut (PObj Mut doc)" "0 \<le> lim_max_total_fields cfg"
  shows "(response_validate raw req cfg = Inr out \<longleftrightarrow>
      out = Untrusted (response_doc req doc)
      \<and> res_byte_count raw \<le> min (ob_max_response_bytes (res_obligations raw)) (rsp_max_bytes cfg)
      \<and> dict_get doc (u ''inputRequests'') = None
      \<and> (\<exists>key xs. dict_get REQUIRED_LIST_KEY (req_method req) = Some key \<and> dict_get doc key = Some (PArr Mut xs))
      \<and> within_limits cfg (PObj Mut doc))
   \<and> (\<forall>e. response_validate raw req cfg = Inl e \<longrightarrow>
        e \<in> resp_deny ` {RESP_ENVELOPE_INVALID, RESP_TOO_LARGE, RESP_MRTR_UNSUPPORTED, RESP_SHAPE_INVALID, RESP_LIMIT_EXCEEDED})"
proof -
  have lim: "check_limits (PObj Mut doc) cfg RESP_LIMIT_EXCEEDED = Inr () \<longleftrightarrow> within_limits cfg (PObj Mut doc)"
    using check_limits_Inr_iff [OF assms(2) _ assms(3), of RESP_LIMIT_EXCEEDED] by (simp add: is_mapping_def)
  have acc: "response_validate raw req cfg = Inr out \<longleftrightarrow> out = Untrusted (response_doc req doc)
      \<and> res_byte_count raw \<le> min (ob_max_response_bytes (res_obligations raw)) (rsp_max_bytes cfg)
      \<and> dict_get doc (u ''inputRequests'') = None
      \<and> (\<exists>key xs. dict_get REQUIRED_LIST_KEY (req_method req) = Some key \<and> dict_get doc key = Some (PArr Mut xs))
      \<and> within_limits cfg (PObj Mut doc)" for out
    unfolding response_validate_Inr_iff lim [symmetric] using assms(1)
    by (auto simp: dict_has_iff_get)
  show ?thesis
    using acc response_validate_Inl [of raw req cfg] by auto
qed

definition demo_result :: raw_result where
  "demo_result = \<lparr> res_content = PObj Mut [(u ''content'', PArr Mut [PStr (u ''hi'')])], res_is_error = False,
     res_byte_count = 18, res_upstream_latency_ns = 0,
     res_obligations = \<lparr> ob_timeout_ms = 1, ob_max_response_bytes = 20 \<rparr> \<rparr>"

definition demo_response_config :: response_config where
  "demo_response_config = \<lparr> lim_max_depth = 4, lim_max_object_keys = 8, lim_max_array_length = 8,
     lim_max_string_length = 64, lim_max_total_fields = 16, rsp_max_bytes = 4000 \<rparr>"

theorem response_guard_correct_witness:
  "\<exists>out. response_validate demo_result (demo_req \<lparr> req_method := u ''tools/call'' \<rparr>) demo_response_config = Inr out
     \<and> within_limits demo_response_config (PObj Mut [(u ''content'', PArr Mut [PStr (u ''hi'')])])"
proof -
  let ?doc = "[(u ''content'', PArr Mut [PStr (u ''hi'')])]"
  have c: "res_content demo_result = PObj Mut ?doc" by (simp add: demo_result_def)
  have m: "all_mut Mut (PObj Mut ?doc)" "0 \<le> lim_max_total_fields demo_response_config" by code_simp+
  have "response_validate demo_result (demo_req \<lparr> req_method := u ''tools/call'' \<rparr>) demo_response_config
      = Inr (Untrusted (response_doc (demo_req \<lparr> req_method := u ''tools/call'' \<rparr>) ?doc))" by code_simp
  then show ?thesis using response_guard_correct [OF c m, of "demo_req \<lparr> req_method := u ''tools/call'' \<rparr>"] by blast
qed

text \<open>
  a server-initiated request is refused whatever the audit sink does (RESP-002): unless the
  task is cancelled the answer is the same error object, and exactly one record was offered to
  the sink, so a failing sink cannot take the session down with it.
\<close>

lemma unsolicited_refused:
  assumes "\<And>ev s. fst (sink_put ev s) \<noteq> Inl Cancelled"
  shows "refuse sink_put now server r s =
     (Inr (JSONRPC_INVALID_REQUEST, ''Server-initiated requests are not accepted by this gateway.''),
      snd (sink_put (Upstream_fault \<lparr> fe_ts = now, fe_server_id = server, fe_reason_code = u ''RESP_UNSOLICITED'',
        fe_mcp_method = Some (refused_method r), fe_fault = None \<rparr>) s))"
  using assms [of "Upstream_fault \<lparr> fe_ts = now, fe_server_id = server, fe_reason_code = u ''RESP_UNSOLICITED'',
        fe_mcp_method = Some (refused_method r), fe_fault = None \<rparr>" s]
  by (auto simp: refuse_def record_fault_def suppress_def bindA_def tryA_def split: prod.splits sum.splits)

lemma unsolicited_refused_witness:
  "fst (refuse (\<lambda>ev. raiseA (Denial AUDIT AUDIT_WRITE_FAILED)) 0 [] Sampling_create ())
     = Inr (JSONRPC_INVALID_REQUEST, ''Server-initiated requests are not accepted by this gateway.'')"
  by (subst unsolicited_refused) simp_all

end
