(* ===== verification/Pipeline.thy ===== *)
theory Pipeline
  imports Router_Effects Response_Guard
begin

text \<open>
  \<open>gateway/pipeline.py\<close>: the eight stages in their one order, the audit builder around them, the
  request deadline, and the single record written at the end whatever happened.
\<close>

section \<open>The stages\<close>

record 's pipeline_env = "'s gateway_env" +
  g_ver :: pyver
  g_fs0 :: fsys
  g_fs :: fsys
  g_cwd :: path
  g_sdk :: sdk
  g_lib :: schema_lib
  g_prescan_ns :: int
  g_deadline :: bool

text \<open>\<open>with builder.stage(...)\<close>: the time is recorded however the stage ends.\<close>

definition with_stage :: "'s gateway_env \<Rightarrow> stage \<Rightarrow> ('s, 'a) step \<Rightarrow> ('s, 'a) step" where
  "with_stage g st m =
     bindA (perf_counter g) (\<lambda>t0.
     finallyA m (bindA (perf_counter g) (\<lambda>t1.
       modA (\<lambda>w. w \<lparr> w_builder := builder_stage st t0 t1 (w_builder w) \<rparr>))))"

definition stages :: "'s pipeline_env \<Rightarrow> raw_envelope \<Rightarrow> ('s, pyval untrusted) step" where
  "stages p raw =
     (let g = gateway_env.truncate p; cfg = g_config p in
      bindA (with_stage g PROTOCOL (liftA (validate (g_py p) (g_sdk p) (g_prescan_ns p) raw (cfg_protocol cfg)))) (\<lambda>req.
      bindA (audit_set (audit_fields req)) (\<lambda>_.
      bindA (with_stage g IDENTITY (retA (resolve_identity req (cfg_identity cfg)))) (\<lambda>ctx.
      bindA (audit_set (identity_audit_fields ctx)) (\<lambda>_.
      bindA (with_stage g REGISTRY (liftA (resolve (g_py p) (g_sdk p) (g_lib p) req ctx (g_registry p)))) (\<lambda>tgt.
      bindA (audit_set (registry_audit_fields tgt)) (\<lambda>_.
      bindA (with_stage g CANONICAL
              (liftA (derive (g_py p) (g_ver p) (g_fs0 p) (g_fs p) (g_cwd p) req tgt (cfg_canonicalize cfg)))) (\<lambda>drv.
      bindA (audit_set (canonical_audit_fields drv)) (\<lambda>_.
      bindA (with_stage g POLICY
              (bindA (await g At_decision) (\<lambda>_.
               bindA (liftA (evaluate req ctx tgt drv (g_opa p) (cfg_policy cfg))) (\<lambda>dec.
               bindA (audit_set (policy_audit_fields dec)) (\<lambda>_. retA dec))))) (\<lambda>dec.
      if dec_decision dec \<noteq> Allow
      then raiseA (case reason_of (PStr (dec_reason_code dec)) of
                     None \<Rightarrow> PyError ''ValueError'' | Some c \<Rightarrow> policy_deny c)
      else if dec_risk_tier dec \<noteq> tgt_risk_tier tgt then raiseA (policy_deny POLICY_RESULT_INVALID)
      else
      bindA (with_stage g ROUTE (route g req ctx drv dec)) (\<lambda>res.
      bindA (with_stage g RESPONSE (liftA (response_validate res req (cfg_response cfg)))) (\<lambda>out.
      bindA (modA (\<lambda>w. w \<lparr> w_builder := set_outcome Out_allowed (w_builder w) \<rparr>)) (\<lambda>_.
      retA out)))))))))))))"

section \<open>The one record\<close>

definition finalize_and_write :: "'s gateway_env \<Rightarrow> ('s, unit) step" where
  "finalize_and_write g =
     bindA (getA w_builder) (\<lambda>b.
     if bld_sealed b then raiseA ProgrammingError
     else
       bindA (modA (\<lambda>w. w \<lparr> w_builder := b \<lparr> bld_sealed := True \<rparr> \<rparr>)) (\<lambda>_.
       bindA (utc_now g) (\<lambda>ts.
       bindA (perf_counter g) (\<lambda>ns.
       case finalize (g_clock g) ns ts b of
         Inr ev \<Rightarrow> audit_write g (Request_event ev)
       | Inl e \<Rightarrow>
           (case e of
              Denial AUDIT c \<Rightarrow>
                bindA (utc_now g) (\<lambda>ts.
                bindA (audit_write g (Request_event (tombstone ts b))) (\<lambda>_. raiseA e))
            | _ \<Rightarrow> raiseA e)))))"

definition update_builder :: "(audit_builder \<Rightarrow> audit_builder) \<Rightarrow> ('s, unit) step" where
  "update_builder f = modA (\<lambda>w. w \<lparr> w_builder := f (w_builder w) \<rparr>)"

text \<open>
  The deadline scope swallows the cancellation it caused and the code behind it names the reason;
  a cancellation it did not cause passes.
\<close>

definition within_deadline :: "bool \<Rightarrow> ('s, 'a) step \<Rightarrow> ('s, 'a) step" where
  "within_deadline deadline m =
     tryA m (\<lambda>e. if e = Cancelled \<and> deadline
       then bindA (update_builder (reattribute_upstream_cancellation ''timeout'')) (\<lambda>_.
            raiseA (Denial PROTOCOL ROUTE_TIMEOUT))
       else raiseA e)"

definition record_outcome :: "('s, 'a) step \<Rightarrow> ('s, 'a) step" where
  "record_outcome m =
     tryA m (\<lambda>e. case e of
         Denial st c \<Rightarrow> bindA (update_builder (record_denial c)) (\<lambda>_. raiseA e)
       | Cancelled \<Rightarrow> bindA (update_builder record_cancellation) (\<lambda>_. raiseA e)
       | _ \<Rightarrow> bindA (update_builder record_internal_error) (\<lambda>_. raiseA (Denial PROTOCOL INTERNAL_ERROR)))"

definition handle :: "'s pipeline_env \<Rightarrow> raw_envelope \<Rightarrow> ('s, pyval untrusted) step" where
  "handle p raw =
     (let g = gateway_env.truncate p in
      bindA (perf_counter g) (\<lambda>ns.
      bindA (utc_now g) (\<lambda>ts.
      bindA (modA (\<lambda>w. w \<lparr> w_builder := AuditBuilder (raw_request_id raw) ns ts \<rparr>)) (\<lambda>_.
      finallyA (record_outcome (within_deadline (g_deadline p) (stages p raw))) (finalize_and_write g)))))"

section \<open>The builder stays well typed and the record is never lost\<close>

definition ok_world :: "ustr \<Rightarrow> 's world \<Rightarrow> bool" where
  "ok_world rid w \<longleftrightarrow> builder_ok (w_builder w) \<and> \<not> bld_sealed (w_builder w) \<and> bld_request_id (w_builder w) = rid"

lemma ok_world_simps [simp]:
  "ok_world rid (w \<lparr> w_tick := n \<rparr>) = ok_world rid w" "ok_world rid (w \<lparr> w_trace := t \<rparr>) = ok_world rid w"
  "ok_world rid (w \<lparr> w_alive := a \<rparr>) = ok_world rid w" "ok_world rid (w \<lparr> w_sink := s \<rparr>) = ok_world rid w"
  by (simp_all add: ok_world_def)

lemma builder_kept [simp]:
  "bld_sealed (put_field k v b) = bld_sealed b" "bld_request_id (put_field k v b) = bld_request_id b"
  "bld_sealed (builder_stage st t0 t1 b) = bld_sealed b" "bld_request_id (builder_stage st t0 t1 b) = bld_request_id b"
  by (simp_all add: put_field_def builder_stage_def)

lemma builder_ops_kept [simp]:
  "bld_sealed (set_outcome out b) = bld_sealed b" "bld_request_id (set_outcome out b) = bld_request_id b"
  "bld_sealed (record_denial c b) = bld_sealed b" "bld_request_id (record_denial c b) = bld_request_id b"
  "bld_sealed (record_internal_error b) = bld_sealed b" "bld_request_id (record_internal_error b) = bld_request_id b"
  "bld_sealed (record_cancellation b) = bld_sealed b" "bld_request_id (record_cancellation b) = bld_request_id b"
  "bld_sealed (reattribute_upstream_cancellation s b) = bld_sealed b"
  "bld_request_id (reattribute_upstream_cancellation s b) = bld_request_id b"
  by (simp_all add: set_outcome_def record_denial_def record_internal_error_def record_cancellation_def
      reattribute_upstream_cancellation_def setdefault_def)

lemma with_stage_ret:
  "with_stage g st (retA x) w =
     (Inr x, w \<lparr> w_tick := Suc (Suc (w_tick w)),
       w_builder := builder_stage st (perf_ns (g_clock g) (w_tick w)) (perf_ns (g_clock g) (Suc (w_tick w))) (w_builder w) \<rparr>)"
  by (simp add: with_stage_def bindA_def finallyA_def perf_counter_def)

text \<open>What every stage keeps, however it ends.\<close>

context quiet_invariant
begin

lemma keeps_stage [keeps_intros]: "keeps I m \<Longrightarrow> keeps I (with_stage g st m)"
  unfolding with_stage_def by (intro keeps_intros) (simp_all add: tick timed)

lemma tick_timed: "I w \<Longrightarrow> I (w \<lparr> w_tick := n, w_builder := builder_stage st t0 t1 (w_builder w) \<rparr>)"
  using timed [OF tick [of w n], of st t0 t1] by simp

lemma keeps_stage_ret: "keeps I (f x) \<Longrightarrow> keeps I (bindA (with_stage g st (retA x)) f)"
  unfolding keeps_def bindA_def with_stage_ret by (simp add: tick_timed)

end

context step_invariant
begin

lemma keeps_stages: "keeps I (stages p raw)"
  unfolding stages_def Let_def
  by (intro keeps_stage_ret keeps_intros typed_contributions) (simp_all add: outcome)

end

lemma builder_ok_contribute:
  "builder_ok b \<Longrightarrow> list_all typed kw \<Longrightarrow> builder_ok (b \<lparr> bld_fields := dict_update (bld_fields b) kw \<rparr>)"
  by (simp add: builder_ok_def typed_dict_update)

interpretation stage_builder: step_invariant "ok_world rid" for rid
  by unfold_locales (auto simp: ok_world_def builder_ok_contribute)

section \<open>What the stages send\<close>

text \<open>The answers of the first five stages that let a request through to stage 07.\<close>

definition admitted ::
    "'s pipeline_env \<Rightarrow> raw_envelope \<Rightarrow> canonical_request \<Rightarrow> authz_context \<Rightarrow> resolved_target \<Rightarrow> derived_attributes
      \<Rightarrow> decision \<Rightarrow> bool" where
  "admitted p raw req ctx tgt drv dec \<longleftrightarrow>
     validate (g_py p) (g_sdk p) (g_prescan_ns p) raw (cfg_protocol (g_config p)) = Inr req
   \<and> ctx = resolve_identity req (cfg_identity (g_config p))
   \<and> resolve (g_py p) (g_sdk p) (g_lib p) req ctx (g_registry p) = Inr tgt
   \<and> derive (g_py p) (g_ver p) (g_fs0 p) (g_fs p) (g_cwd p) req tgt (cfg_canonicalize (g_config p)) = Inr drv
   \<and> evaluate req ctx tgt drv (g_opa p) (cfg_policy (g_config p)) = Inr dec
   \<and> dec_decision dec = Allow \<and> dec_risk_tier dec = tgt_risk_tier tgt"

definition stage_effects ::
    "'s pipeline_env \<Rightarrow> raw_envelope \<Rightarrow> pyval untrusted result \<Rightarrow> effect list \<Rightarrow> bool" where
  "stage_effects p raw r es \<longleftrightarrow>
     es = [] \<and> isl r
   \<or> (\<exists>req ctx tgt drv dec r'. admitted p raw req ctx tgt drv dec
       \<and> route_effects (gateway_env.truncate p) req ctx drv dec r' es
       \<and> (\<forall>out. r = Inr out \<longrightarrow>
            (\<exists>res. r' = Inr res \<and> response_validate res req (cfg_response (g_config p)) = Inr out)))"

lemma stage_effectsI:
  "admitted p raw req ctx tgt drv dec \<Longrightarrow> route_effects (gateway_env.truncate p) req ctx drv dec r' es \<Longrightarrow>
   (\<And>out. r = Inr out \<Longrightarrow> \<exists>res. r' = Inr res \<and> response_validate res req (cfg_response (g_config p)) = Inr out) \<Longrightarrow>
   stage_effects p raw r es"
  unfolding stage_effects_def by blast

lemma grows_stage:
  assumes "grows S m"
  shows "grows S (with_stage g st m)"
proof -
  have "grows S (finallyA m (bindA (perf_counter g) (\<lambda>t1. modA (\<lambda>w. w \<lparr> w_builder := builder_stage st t0 t1 (w_builder w) \<rparr>))))" for t0
    unfolding emits_def
    by (auto simp: finallyA_def bindA_def perf_counter_def dest!: emitsD [OF assms] split: prod.splits)
  then show ?thesis
    unfolding with_stage_def by (intro grows_bind_quiet quiet_facts) (auto simp: perf_counter_def)
qed

lemma grows_stage_lift: "grows (\<lambda>r es. es = [] \<and> v = r) (with_stage g st (liftA v))"
  by (intro grows_stage grows_quiet) simp_all

lemma grows_stage_ret: "grows (\<lambda>r es. es = [] \<and> r = Inr x) (with_stage g st (retA x))"
  by (intro grows_stage grows_quiet) simp_all

lemma grows_stage_then:
  assumes "grows (\<lambda>r es. es = [] \<and> P r) (with_stage g st m)" "\<And>e. U (Inl e) []"
    and "\<And>x. P (Inr x) \<Longrightarrow> grows U (f x)"
  shows "grows U (bindA (with_stage g st m) f)"
  by (rule emits_bind [OF assms(1)]) (use assms(2,3) in auto)

lemma grows_contribute:
  "list_all typed kw \<Longrightarrow> grows U m \<Longrightarrow> grows U (bindA (audit_set kw) (\<lambda>_. m))"
  by (rule grows_bind_quiet) (auto simp: audit_set_def set_fields_typed)

lemma grows_decision:
  "grows (\<lambda>r es. es = [] \<and> (\<forall>dec. r = Inr dec \<longrightarrow> v = Inr dec))
     (with_stage g st (bindA (await g pt) (\<lambda>_. bindA (liftA v) (\<lambda>dec.
        bindA (audit_set (policy_audit_fields dec)) (\<lambda>_. retA dec)))))"
  by (intro grows_stage grows_bind_quiet grows_bind_lift grows_contribute emits_ret quiet_facts typed_contributions)
    auto

lemma grows_then:
  assumes "\<And>e. U (Inl e) []"
  shows "(\<And>x. v = Inr x \<Longrightarrow> grows U (f x)) \<Longrightarrow> grows U (bindA (with_stage g st (liftA v)) f)"
    and "grows U (f x) \<Longrightarrow> grows U (bindA (with_stage g st (retA x)) f)"
    and "(\<And>dec. vd = Inr dec \<Longrightarrow> grows U (h dec)) \<Longrightarrow>
      grows U (bindA (with_stage g st (bindA (await g pt) (\<lambda>_. bindA (liftA vd) (\<lambda>dec.
        bindA (audit_set (policy_audit_fields dec)) (\<lambda>_. retA dec))))) h)"
  by (rule grows_stage_then [where P = "\<lambda>r. v = r"] grows_stage_then [where P = "\<lambda>r. r = Inr x"]
      grows_stage_then [where P = "\<lambda>r. \<forall>dec. r = Inr dec \<longrightarrow> vd = Inr dec"],
      rule grows_stage_lift grows_stage_ret grows_decision, simp_all add: assms)+

lemma grows_answer:
  "grows (\<lambda>r es. es = [] \<and> (\<forall>out. r = Inr out \<longrightarrow> v = Inr out))
     (bindA (with_stage g st (liftA v)) (\<lambda>out.
      bindA (modA (\<lambda>w. w \<lparr> w_builder := set_outcome ou (w_builder w) \<rparr>)) (\<lambda>_. retA out)))"
proof (rule grows_then(1), goal_cases)
  case (2 x)
  then show ?case by (auto simp: emits_def bindA_def)
qed auto

lemma grows_stages: "grows (stage_effects p raw) (stages p raw)"
proof -
  let ?g = "gateway_env.truncate p" and ?cfg = "g_config p"
  have routed: "grows (stage_effects p raw)
      (bindA (with_stage ?g ROUTE (route ?g req ctx drv dec)) (\<lambda>res.
       bindA (with_stage ?g RESPONSE (liftA (response_validate res req (cfg_response ?cfg)))) (\<lambda>out.
       bindA (modA (\<lambda>w. w \<lparr> w_builder := set_outcome Out_allowed (w_builder w) \<rparr>)) (\<lambda>_. retA out))))"
    if adm: "admitted p raw req ctx tgt drv dec" for req ctx tgt drv dec
  proof (rule emits_bind [OF grows_stage [OF grows_route]], goal_cases)
    case (1 e es)
    then show ?case by (auto intro: stage_effectsI [OF adm])
  next
    case (2 res es)
    then show ?case
      by (intro emits_mono [OF grows_answer]) (auto intro!: stage_effectsI [OF adm])
  qed
  have stop: "stage_effects p raw (Inl e) []" for e by (simp add: stage_effects_def)
  show ?thesis
    unfolding stages_def Let_def
  proof (intro grows_then stop grows_contribute typed_contributions, goal_cases)
    case (1 req tgt drv dec)
    then have "dec_decision dec = Allow \<Longrightarrow> dec_risk_tier dec = tgt_risk_tier tgt \<Longrightarrow>
      admitted p raw req (resolve_identity req (cfg_identity ?cfg)) tgt drv dec"
      by (simp add: admitted_def)
    then show ?case by (auto intro: routed emits_raise stop)
  qed
qed

text \<open>No request record is written before the end.\<close>

definition no_request :: "effect list \<Rightarrow> bool" where
  "no_request es \<longleftrightarrow> list_all stage_effect es"

definition extends :: "effect list \<Rightarrow> 's world \<Rightarrow> bool" where
  "extends t w \<longleftrightarrow> (\<exists>es. w_trace w = t @ es \<and> no_request es)"

interpretation stage_trace: step_invariant "extends t" for t
  by unfold_locales (auto simp: extends_def no_request_def)

section \<open>How a request ends\<close>

definition ends :: "('w \<Rightarrow> bool) \<Rightarrow> ('w, 'a) act \<Rightarrow> bool" where
  "ends P m \<longleftrightarrow> (\<forall>w x w'. m w = (Inr x, w') \<longrightarrow> P w')"

lemma ends_intros:
  "(\<And>x. ends P (f x)) \<Longrightarrow> ends P (bindA m f)"
  "ends P (raiseA e)"
  "ends P m' \<Longrightarrow> ends P m'' \<Longrightarrow> ends P (if c then m' else m'')"
  by (auto simp: ends_def bindA_Inr_iff)

lemma ends_mod: "(\<And>w. P (h w)) \<Longrightarrow> ends P (bindA (modA h) (\<lambda>_. retA x))"
  by (simp add: ends_def bindA_def)

lemma stages_allowed: "stages p raw w = (Inr out, w') \<Longrightarrow> says_outcome Out_allowed (w_builder w')"
proof -
  have "ends (\<lambda>w. says_outcome Out_allowed (w_builder w)) (stages p raw)"
    unfolding stages_def Let_def by (intro ends_mod ends_intros) simp
  then show "stages p raw w = (Inr out, w') \<Longrightarrow> says_outcome Out_allowed (w_builder w')" by (auto simp: ends_def)
qed

text \<open>What the outcome of the stages obliges the record to say.\<close>

definition closed :: "'a result \<Rightarrow> audit_builder \<Rightarrow> bool" where
  "closed r b =
     (case r of
        Inr _ \<Rightarrow> says_outcome Out_allowed b
      | Inl e \<Rightarrow> (case e of
          Denial st c \<Rightarrow> says_reason c b \<and> says_outcome (outcome_of c) b
        | Cancelled \<Rightarrow> says_outcome Out_cancelled b
        | _ \<Rightarrow> False))"

lemma run_stages:
  assumes "record_outcome (within_deadline d (stages p raw)) w = (r, w')" "ok_world rid w" "extends t w"
  shows "ok_world rid w' \<and> extends t w' \<and> closed r (w_builder w')"
proof -
  obtain r1 w1 where s: "stages p raw w = (r1, w1)" by (cases "stages p raw w")
  have 1: "ok_world rid w1" "extends t w1"
    using keepsD [OF stage_builder.keeps_stages assms(2) s] keepsD [OF stage_trace.keeps_stages assms(3) s] by auto
  have o: "outcome_of INTERNAL_ERROR = Out_error" by code_simp
  show ?thesis
  proof (cases r1)
    case (Inr out)
    then show ?thesis
      using assms(1) s 1 stages_allowed [of p raw w out w1]
      by (auto simp: record_outcome_def within_deadline_def tryA_def closed_def)
  next
    case (Inl e)
    then show ?thesis
      using assms(1) s 1 o
      by (cases e; cases d)
        (auto simp: record_outcome_def within_deadline_def tryA_def closed_def update_builder_def bindA_def
          ok_world_def extends_def)
  qed
qed

definition event_closes :: "'a result \<Rightarrow> request_event \<Rightarrow> bool" where
  "event_closes r ev =
     (case r of
        Inr _ \<Rightarrow> rv_outcome ev = Out_allowed
      | Inl e \<Rightarrow> (case e of
          Denial st c \<Rightarrow> rv_outcome ev = outcome_of c
            \<and> dict_get (rv_fields ev) (u ''reason_code'') = Some (PStr (u (reason_value c)))
        | Cancelled \<Rightarrow> rv_outcome ev = Out_cancelled
        | _ \<Rightarrow> False))"

lemma finalize_closes:
  assumes "builder_ok b" "closed r b"
  shows "\<exists>ev. finalize env ns ts b = Inr ev \<and> rv_request_id ev = bld_request_id b \<and> event_closes r ev
    \<and> rv_fields ev = filter (\<lambda>(k, v). k \<noteq> u ''outcome'') (bld_fields b)"
proof -
  obtain out where out: "says_outcome out b"
    using assms(2) by (auto simp: closed_def split: sum.splits exc.splits)
  from finalize_typed [OF assms(1) out] obtain ev where ev: "finalize env ns ts b = Inr ev"
    "rv_request_id ev = bld_request_id b" "rv_outcome ev = out"
    "rv_fields ev = filter (\<lambda>(k, v). k \<noteq> u ''outcome'') (bld_fields b)" by blast
  have inj: "says_outcome out' b \<Longrightarrow> out' = out" for out'
    using out by (cases out; cases out') (simp_all add: says_outcome_def outcome_value_def)
  show ?thesis
    using ev assms(2) inj
    by (auto simp: event_closes_def closed_def says_reason_def get_filter_other split: sum.splits exc.splits)
qed

lemma finalize_and_write_run:
  assumes "ok_world rid w" "closed r (w_builder w)" "finalize_and_write g w = (c, w')"
  shows "\<exists>ev. rv_request_id ev = rid \<and> event_closes r ev
    \<and> rv_fields ev = filter (\<lambda>(k, v). k \<noteq> u ''outcome'') (bld_fields (w_builder w))
    \<and> (c = Inr () \<and> w_trace w' = w_trace w @ [Recorded (Request_event ev)]
       \<or> (\<exists>e s s'. g_write g (Request_event ev) s = (Inl e, s') \<and> c = Inl e \<and> w_trace w' = w_trace w))"
proof -
  let ?b = "w_builder w"
  let ?ts = "utc_us (g_clock g) (w_tick w)" and ?ns = "perf_ns (g_clock g) (Suc (w_tick w))"
  obtain ev where ev: "finalize (g_clock g) ?ns ?ts ?b = Inr ev" "rv_request_id ev = rid" "event_closes r ev"
    "rv_fields ev = filter (\<lambda>(k, v). k \<noteq> u ''outcome'') (bld_fields ?b)"
    using finalize_closes [OF _ assms(2), of "g_clock g" ?ns ?ts] assms(1) by (auto simp: ok_world_def)
  obtain q s' where q: "g_write g (Request_event ev) (w_sink w) = (q, s')" by (cases "g_write g (Request_event ev) (w_sink w)")
  show ?thesis
    using assms(1,3) ev q
    by (intro exI [of _ ev])
      (auto simp: finalize_and_write_def bindA_def utc_now_def perf_counter_def audit_write_def zoomA_def emit_def
        ok_world_def split: sum.splits)
qed

lemma handle_run:
  assumes "handle p raw w = (r, w')"
  shows "\<exists>r1 w1 w2 c. record_outcome (within_deadline (g_deadline p) (stages p raw)) w1 = (r1, w2)
    \<and> w_trace w1 = w_trace w \<and> w_sink w1 = w_sink w \<and> w_alive w1 = w_alive w
    \<and> ok_world (raw_request_id raw) w1
    \<and> finalize_and_write (gateway_env.truncate p) w2 = (c, w')
    \<and> r = (case c of Inl e \<Rightarrow> Inl e | Inr _ \<Rightarrow> r1)"
proof -
  let ?g = "gateway_env.truncate p"
  define w1 where "w1 = w \<lparr> w_tick := Suc (Suc (w_tick w)),
    w_builder := AuditBuilder (raw_request_id raw) (perf_ns (g_clock ?g) (w_tick w)) (utc_us (g_clock ?g) (Suc (w_tick w))) \<rparr>"
  obtain r1 w2 where 1: "record_outcome (within_deadline (g_deadline p) (stages p raw)) w1 = (r1, w2)"
    by (cases "record_outcome (within_deadline (g_deadline p) (stages p raw)) w1")
  obtain c w3 where 2: "finalize_and_write ?g w2 = (c, w3)" by (cases "finalize_and_write ?g w2")
  have "handle p raw w = finallyA (record_outcome (within_deadline (g_deadline p) (stages p raw))) (finalize_and_write ?g) w1"
    by (simp add: handle_def Let_def bindA_def perf_counter_def utc_now_def w1_def)
  then have "r = (case c of Inl e \<Rightarrow> Inl e | Inr _ \<Rightarrow> r1)" "w' = w3"
    using assms 1 2 by (auto simp: finallyA_def split: sum.splits)
  moreover have "ok_world (raw_request_id raw) w1"
    by (simp add: w1_def ok_world_def AuditBuilder_def builder_ok_def)
  ultimately show ?thesis using 1 2
    by (intro exI [of _ r1] exI [of _ w1] exI [of _ w2] exI [of _ c]) (simp add: w1_def)
qed

section \<open>One request, from its first effect to its record\<close>

text \<open>What \<open>handle\<close> makes of the way the stages ended, before it writes the record.\<close>

definition settled :: "bool \<Rightarrow> 'a result \<Rightarrow> 'a result" where
  "settled deadline r =
     (case r of
        Inr x \<Rightarrow> Inr x
      | Inl Cancelled \<Rightarrow> Inl (if deadline then Denial PROTOCOL ROUTE_TIMEOUT else Cancelled)
      | Inl (Denial st c) \<Rightarrow> Inl (Denial st c)
      | Inl _ \<Rightarrow> Inl (Denial PROTOCOL INTERNAL_ERROR))"

lemma settled_stages:
  assumes "record_outcome (within_deadline d m) w = (r, w')"
  shows "\<exists>r0 w0. m w = (r0, w0) \<and> r = settled d r0 \<and> w_trace w' = w_trace w0"
proof -
  obtain r0 w0 where s: "m w = (r0, w0)" by (cases "m w")
  show ?thesis
  proof (cases r0)
    case (Inr out)
    then show ?thesis using assms s by (auto simp: record_outcome_def within_deadline_def tryA_def settled_def)
  next
    case (Inl e)
    then show ?thesis using assms s
      by (cases e; cases d)
        (auto simp: record_outcome_def within_deadline_def tryA_def settled_def update_builder_def bindA_def)
  qed
qed

lemma handle_life:
  assumes "handle p raw w = (r, w')"
  shows "\<exists>es ev r0. stage_effects p raw r0 es
    \<and> rv_request_id ev = raw_request_id raw \<and> event_closes (settled (g_deadline p) r0) ev
    \<and> list_all typed (rv_fields ev)
    \<and> (r = settled (g_deadline p) r0 \<and> w_trace w' = w_trace w @ es @ [Recorded (Request_event ev)]
       \<or> (\<exists>e s s'. g_write p (Request_event ev) s = (Inl e, s') \<and> r = Inl e \<and> w_trace w' = w_trace w @ es))"
proof -
  obtain r1 w1 w2 c where run: "record_outcome (within_deadline (g_deadline p) (stages p raw)) w1 = (r1, w2)"
    and t: "w_trace w1 = w_trace w" and ok: "ok_world (raw_request_id raw) w1"
    and fin: "finalize_and_write (gateway_env.truncate p) w2 = (c, w')"
    and r: "r = (case c of Inl e \<Rightarrow> Inl e | Inr _ \<Rightarrow> r1)" using handle_run [OF assms] by blast
  obtain r0 w0 where 0: "stages p raw w1 = (r0, w0)" "r1 = settled (g_deadline p) r0" "w_trace w2 = w_trace w0"
    using settled_stages [OF run] by blast
  obtain es where es: "w_trace w0 = w_trace w1 @ es" "stage_effects p raw r0 es"
    using emitsD [OF grows_stages 0(1)] by blast
  have "extends (w_trace w) w1" using t by (auto simp: extends_def no_request_def)
  from run_stages [OF run ok this] have c: "ok_world (raw_request_id raw) w2" "closed r1 (w_builder w2)" by auto
  from finalize_and_write_run [OF c fin] obtain ev where ev: "rv_request_id ev = raw_request_id raw" "event_closes r1 ev"
    "list_all typed (rv_fields ev)"
    "c = Inr () \<and> w_trace w' = w_trace w2 @ [Recorded (Request_event ev)]
       \<or> (\<exists>e s s'. g_write (gateway_env.truncate p) (Request_event ev) s = (Inl e, s') \<and> c = Inl e \<and> w_trace w' = w_trace w2)"
    using c(1) by (fastforce simp: ok_world_def builder_ok_def list_all_iff)
  show ?thesis
    using ev es r 0 t
    by (intro exI [of _ es] exI [of _ ev] exI [of _ r0]) (auto simp: gateway_env.defs)
qed

end
