(* ===== verification/Pipeline_Progress.thy ===== *)
theory Pipeline_Progress
  imports Pipeline
begin

text \<open>
  Total correctness of a request: a calculus for actions that return a value whatever the state,
  and the request that nothing disturbs, from its admission to its answer.
\<close>

section \<open>Running to the end\<close>

text \<open>
  \<open>succeeds m P\<close>: from a state whose child is alive, \<open>m\<close> returns a value and appends effects that
  satisfy \<open>P\<close>, and the child is still alive.
\<close>

definition succeeds :: "('s, 'a) step \<Rightarrow> ('a \<Rightarrow> effect list \<Rightarrow> bool) \<Rightarrow> bool" where
  "succeeds m P \<longleftrightarrow> (\<forall>w. w_alive w \<longrightarrow>
     (\<exists>x w' es. m w = (Inr x, w') \<and> w_trace w' = w_trace w @ es \<and> w_alive w' \<and> P x es))"

lemma succeedsD: "succeeds m P \<Longrightarrow> w_alive w \<Longrightarrow>
    \<exists>x w' es. m w = (Inr x, w') \<and> w_trace w' = w_trace w @ es \<and> w_alive w' \<and> P x es"
  unfolding succeeds_def by (drule spec [of _ w], drule mp)

lemma succeeds_bind:
  assumes "succeeds m P" "\<And>x es. P x es \<Longrightarrow> succeeds (f x) (\<lambda>y es'. Q y (es @ es'))"
  shows "succeeds (bindA m f) Q"
  unfolding succeeds_def
proof (intro allI impI)
  fix w :: "'a world" assume "w_alive w"
  from succeedsD [OF assms(1) this] obtain x w1 es where 1: "m w = (Inr x, w1)" "w_trace w1 = w_trace w @ es" "w_alive w1" "P x es"
    by blast
  from succeedsD [OF assms(2) [OF 1(4)] 1(3)] obtain y w2 es' where
    "f x w1 = (Inr y, w2)" "w_trace w2 = w_trace w1 @ es'" "w_alive w2" "Q y (es @ es')" by blast
  then show "\<exists>x w' es. bindA m f w = (Inr x, w') \<and> w_trace w' = w_trace w @ es \<and> w_alive w' \<and> Q x es"
    using 1 by simp
qed

lemma succeeds_ret: "P x [] \<Longrightarrow> succeeds (retA x) P"
  by (simp add: succeeds_def)

lemma succeeds_primitives:
  "succeeds (perf_counter g) (\<lambda>_ es. es = [])" "succeeds (utc_now g) (\<lambda>_ es. es = [])"
  "\<not> g_interrupt g pt \<Longrightarrow> succeeds (await g pt) (\<lambda>_ es. es = [])"
  "list_all typed kw \<Longrightarrow> succeeds (audit_set kw) (\<lambda>_ es. es = [])"
  "succeeds (record_status g st n) (\<lambda>_ es. es = [])"
  by (simp_all only: record_status_def succeeds_def perf_counter_def utc_now_def await_def audit_set_def
        set_fields_typed typed_contributions) simp_all

lemma succeeds_silent:
  "(\<And>x. succeeds (f1 x) Q) \<Longrightarrow> succeeds (bindA (perf_counter g) f1) Q"
  "(\<And>x. succeeds (f2 x) Q) \<Longrightarrow> succeeds (bindA (utc_now g) f2) Q"
  "\<not> g_interrupt g pt \<Longrightarrow> succeeds m Q \<Longrightarrow> succeeds (bindA (await g pt) (\<lambda>_. m)) Q"
  "list_all typed kw \<Longrightarrow> succeeds m Q \<Longrightarrow> succeeds (bindA (audit_set kw) (\<lambda>_. m)) Q"
  "succeeds m Q \<Longrightarrow> succeeds (bindA (record_status g st n) (\<lambda>_. m)) Q"
  by (rule succeeds_bind, rule succeeds_primitives, simp_all)+

lemma succeeds_value:
  "succeeds (f x) Q \<Longrightarrow> succeeds (bindA (retA x) f) Q"
  "v = Inr x \<Longrightarrow> succeeds (f x) Q \<Longrightarrow> succeeds (bindA (liftA v) f) Q"
  by (simp_all add: succeeds_def)

lemma succeeds_mono: "succeeds m P \<Longrightarrow> (\<And>x es. P x es \<Longrightarrow> Q x es) \<Longrightarrow> succeeds m Q"
  unfolding succeeds_def by blast

lemma succeeds_stage: "succeeds m P \<Longrightarrow> succeeds (with_stage g st m) P"
  unfolding with_stage_def
  by (rule succeeds_silent) (fastforce simp: succeeds_def finallyA_def perf_counter_def bindA_def dest: succeedsD)

lemma liftA_ret: "liftA (Inr x) = retA x"
  by (simp add: fun_eq_iff)

lemma succeeds_stage_then:
  "v = Inr x \<Longrightarrow> succeeds (f x) Q \<Longrightarrow> succeeds (bindA (with_stage g st (liftA v)) f) Q"
  "succeeds (f x) Q \<Longrightarrow> succeeds (bindA (with_stage g st (retA x)) f) Q"
proof -
  have "succeeds (retA x) (\<lambda>y es. y = x \<and> es = [])" by (simp add: succeeds_ret)
  note st = succeeds_bind [OF succeeds_stage [OF this]]
  show "succeeds (f x) Q \<Longrightarrow> succeeds (bindA (with_stage g st (retA x)) f) Q" by (rule st) auto
  then show "v = Inr x \<Longrightarrow> succeeds (f x) Q \<Longrightarrow> succeeds (bindA (with_stage g st (liftA v)) f) Q"
    by (simp add: liftA_ret)
qed

lemma succeeds_bounded:
  assumes "succeeds m P"
  shows "succeeds (bounded_call g m) (\<lambda>(y, n) es. P y es)"
proof -
  have "succeeds (tryA (tryA m h) h') P" for h h'
    unfolding succeeds_def using succeedsD [OF assms] by (fastforce simp: tryA_def)
  note tried = succeeds_bind [OF this]
  show ?thesis
    unfolding bounded_call_def by (rule succeeds_silent, rule tried, rule succeeds_silent) (simp add: succeeds_ret)
qed

section \<open>The request that is answered\<close>

text \<open>A sink that takes every record, and a request nobody interrupts.\<close>

definition undisturbed :: "'s gateway_env \<Rightarrow> bool" where
  "undisturbed g \<longleftrightarrow> (\<forall>pt. \<not> g_interrupt g pt) \<and> (\<forall>r s. fst (g_write g r s) = Inr ())"

lemma succeeds_audit_write:
  assumes "undisturbed g"
  shows "succeeds (audit_write g r) (\<lambda>_ es. es = [Recorded r])"
  unfolding succeeds_def
proof (intro allI impI)
  fix w :: "'a world" assume "w_alive w"
  moreover have "g_write g r (w_sink w) = (Inr (), snd (g_write g r (w_sink w)))"
    using assms by (simp add: undisturbed_def prod_eq_iff)
  ultimately show "\<exists>x w' es. audit_write g r w = (Inr x, w') \<and> w_trace w' = w_trace w @ es \<and> w_alive w' \<and> es = [Recorded r]"
    by (auto simp: audit_write_def bindA_def zoomA_def emit_def split: prod.splits sum.splits)
qed

lemma succeeds_write_ahead:
  "undisturbed g \<Longrightarrow> succeeds (write_ahead g req drv dec) (\<lambda>_ es. \<exists>ts. es = [Recorded (attempt_record g req drv dec ts)])"
  unfolding write_ahead_def
  by (intro succeeds_silent succeeds_mono [OF succeeds_audit_write]) (auto simp: undisturbed_def)

lemma succeeds_call:
  assumes "g_call g name arguments = Answer v e"
  shows "succeeds (call_tool g name arguments) (\<lambda>y es. y = (v, e) \<and> es = [Called name arguments])"
  unfolding succeeds_def call_tool_def send_guarded_def using assms by (simp add: bindA_def emit_def guarded_def)

lemma succeeds_measure:
  assumes "canonical_json (g_py g) v = Inr bytes"
  shows "succeeds (measure_result g v e n ob) (\<lambda>res es. es = [] \<and> res = \<lparr> res_content = v, res_is_error = e,
     res_byte_count = int (length bytes), res_upstream_latency_ns = n, res_obligations = ob \<rparr>)"
  unfolding measure_result_def
  by (rule succeeds_value(2) [OF assms], rule succeeds_silent, rule typed_contributions, rule succeeds_silent,
      simp add: succeeds_ret)

lemma derived_path_hash:
  "derive_path env v fs res req tgt raw real lexical = Inr drv \<Longrightarrow>
   argument_hash env (req_arguments req) (drv_canonical_path drv) = Inr (drv_arg_hash drv)"
  by (auto simp: derive_path_def bindR_Inr_iff split: option.splits)

lemma derived_hash:
  assumes "derive env v fs0 fs cwd req tgt cfg = Inr drv"
  shows "argument_hash env (req_arguments req) (drv_canonical_path drv) = Inr (drv_arg_hash drv)"
proof (cases "tgt_tool_name tgt")
  case None
  then show ?thesis using assms by (auto simp: derive_def no_resource_def mapR_Inr_iff)
next
  case (Some t)
  then obtain s where "(case resolve_path v fs s (resolved v fs0 cwd cfg) of ((real, ok), lexical) \<Rightarrow>
      derive_path env v fs (resolved v fs0 cwd cfg) req tgt (raw_path env req) real lexical) = Inr drv"
    using assms by (auto simp: derive_def Let_def bindR_Inr_iff)
  then show ?thesis
    by (cases "resolve_path v fs s (resolved v fs0 cwd cfg)") (auto simp: derived_path_hash split: prod.splits)
qed

lemma evaluated:
  "evaluate req ctx tgt drv opa cfg = Inr dec \<Longrightarrow>
   dec_request_id dec = req_id req \<and> dec_method dec = req_method req \<and> dec_tool_name dec = req_tool_name req
   \<and> dec_arg_hash dec = drv_arg_hash drv"
  by (auto simp: evaluate_Inr_iff validate_doc_Inr_iff)

lemma admitted_passes_gate:
  assumes "admitted p raw req ctx tgt drv dec"
  shows "gate (g_py p) req drv (Some dec) = Inr ()"
  using assms evaluated [of req ctx tgt drv "g_opa p" "cfg_policy (g_config p)" dec] derived_hash
  by (auto simp: admitted_def gate_def raise_if_def)

definition the_answer :: "decision \<Rightarrow> router_config \<Rightarrow> pyval \<Rightarrow> bool \<Rightarrow> nat \<Rightarrow> int \<Rightarrow> raw_result" where
  "the_answer dec cfg content is_error len latency =
     \<lparr> res_content = content, res_is_error = is_error, res_byte_count = int len,
       res_upstream_latency_ns = latency, res_obligations = effective dec cfg \<rparr>"

lemma succeeds_forward:
  assumes gate: "gate (g_py g) req drv (Some dec) = Inr ()" and tool: "req_tool_name req = Some name"
    and reply: "g_call g name (outbound req drv) = Answer content is_error"
    and json: "canonical_json (g_py g) content = Inr bytes"
  shows "succeeds (forward g req drv dec) (\<lambda>res es. es = [Called name (outbound req drv)]
      \<and> (\<exists>n. res = the_answer dec (cfg_router (g_config g)) content is_error (length bytes) n))"
proof -
  have enf: "succeeds (enforce dec cfg) (\<lambda>ob es. ob = effective dec cfg \<and> es = [])" for cfg
    unfolding enforce_def by (rule succeeds_silent, rule typed_contributions) (simp add: succeeds_ret)
  show ?thesis
    unfolding forward_def tool option.case
    by (rule succeeds_value(2) [OF gate], rule succeeds_bind [OF enf],
        rule succeeds_bind [OF succeeds_bounded [OF succeeds_call [OF reply]]])
      (auto simp: the_answer_def intro!: succeeds_mono [OF succeeds_measure [OF json]])
qed

lemma succeeds_route:
  assumes "undisturbed g" "gate (g_py g) req drv (Some dec) = Inr ()" "req_tool_name req = Some name"
    and "req_method req \<noteq> LIST_METHOD" "g_call g name (outbound req drv) = Answer content is_error"
    and "canonical_json (g_py g) content = Inr bytes"
  shows "succeeds (route g req ctx drv dec) (\<lambda>res es.
      (\<exists>ts. es = [Recorded (attempt_record g req drv dec ts), Called name (outbound req drv)])
      \<and> (\<exists>n. res = the_answer dec (cfg_router (g_config g)) content is_error (length bytes) n))"
proof -
  have enf: "succeeds (enforce dec cfg) (\<lambda>ob es. es = [])" for cfg
    unfolding enforce_def by (rule succeeds_silent, rule typed_contributions) (simp add: succeeds_ret)
  show ?thesis
    unfolding route_def
    by (rule succeeds_value(2) [OF assms(2)], rule succeeds_bind [OF enf],
        rule succeeds_bind [OF succeeds_write_ahead [OF assms(1)]])
      (use assms(4) in \<open>auto intro!: succeeds_mono [OF succeeds_forward [OF assms(2,3,5,6)]]\<close>)
qed

lemma succeeds_stages:
  assumes adm: "admitted p raw req ctx tgt drv dec"
    and free: "\<forall>pt. \<not> g_interrupt p pt" "\<forall>r s. fst (g_write p r s) = Inr ()"
    and call: "req_method req \<noteq> LIST_METHOD" "req_tool_name req = Some name"
      "g_call p name (outbound req drv) = Answer content is_error"
      "canonical_json (g_py p) content = Inr bytes"
    and fits: "\<And>n. response_validate (the_answer dec (cfg_router (g_config p)) content is_error (length bytes) n)
      req (cfg_response (g_config p)) = Inr out"
  shows "succeeds (stages p raw) (\<lambda>x es. x = out \<and>
    (\<exists>ts. es = [Recorded (attempt_record (gateway_env.truncate p) req drv dec ts), Called name (outbound req drv)]))"
proof -
  let ?g = "gateway_env.truncate p"
  have route: "succeeds (route ?g req ctx drv dec) (\<lambda>res es.
      (\<exists>ts. es = [Recorded (attempt_record ?g req drv dec ts), Called name (outbound req drv)])
      \<and> (\<exists>n. res = the_answer dec (cfg_router (g_config p)) content is_error (length bytes) n))"
    using succeeds_route [of ?g req drv dec name content is_error bytes ctx] admitted_passes_gate [OF adm] free call
    by (simp add: undisturbed_def gateway_env.defs)
  note a = adm [unfolded admitted_def]
  have decide: "succeeds (with_stage ?g POLICY (bindA (await ?g At_decision) (\<lambda>_.
      bindA (liftA (evaluate req ctx tgt drv (g_opa p) (cfg_policy (g_config p)))) (\<lambda>dec.
      bindA (audit_set (policy_audit_fields dec)) (\<lambda>_. retA dec))))) (\<lambda>d es. d = dec \<and> es = [])"
    using a free
    by (intro succeeds_stage succeeds_silent(3) succeeds_value(2) [where x = dec] succeeds_silent(4)
        typed_contributions succeeds_ret) (auto simp: gateway_env.defs)
  have last: "succeeds (bindA (with_stage ?g ROUTE (route ?g req ctx drv dec)) (\<lambda>res.
       bindA (with_stage ?g RESPONSE (liftA (response_validate res req (cfg_response (g_config p))))) (\<lambda>out.
       bindA (modA (\<lambda>w. w \<lparr> w_builder := set_outcome Out_allowed (w_builder w) \<rparr>)) (\<lambda>_. retA out))))
     (\<lambda>x es. x = out \<and> (\<exists>ts. es = [Recorded (attempt_record ?g req drv dec ts), Called name (outbound req drv)]))"
  proof (rule succeeds_bind [OF succeeds_stage [OF route]], clarify)
    fix ts n
    show "succeeds (bindA (with_stage ?g RESPONSE (liftA (response_validate
          (the_answer dec (cfg_router (g_config p)) content is_error (length bytes) n) req (cfg_response (g_config p))))) (\<lambda>out.
        bindA (modA (\<lambda>w. w \<lparr> w_builder := set_outcome Out_allowed (w_builder w) \<rparr>)) (\<lambda>_. retA out)))
      (\<lambda>x es'. x = out \<and> (\<exists>ts'. [Recorded (attempt_record ?g req drv dec ts), Called name (outbound req drv)] @ es'
          = [Recorded (attempt_record ?g req drv dec ts'), Called name (outbound req drv)]))"
      by (rule succeeds_stage_then(1) [OF fits]) (auto simp: succeeds_def bindA_def)
  qed
  show ?thesis
    unfolding stages_def Let_def
  proof (rule succeeds_stage_then(1), use a in blast, rule succeeds_silent, rule typed_contributions,
      rule succeeds_stage_then(2), rule succeeds_silent, rule typed_contributions,
      rule succeeds_stage_then(1), use a in blast, rule succeeds_silent, rule typed_contributions,
      rule succeeds_stage_then(1), use a in blast, rule succeeds_silent, rule typed_contributions, goal_cases)
    case 1
    have ctx: "resolve_identity req (cfg_identity (g_config p)) = ctx" using a by simp
    show ?case unfolding ctx by (rule succeeds_bind [OF decide]) (use a last in auto)
  qed
qed

lemma handle_succeeds:
  assumes "succeeds (stages p raw) P" "\<forall>r s. fst (g_write p r s) = Inr ()" "w_alive w"
  shows "\<exists>out w' es ev. handle p raw w = (Inr out, w') \<and> P out es
    \<and> w_trace w' = w_trace w @ es @ [Recorded (Request_event ev)]
    \<and> rv_request_id ev = raw_request_id raw \<and> rv_outcome ev = Out_allowed"
proof -
  obtain r w' where h: "handle p raw w = (r, w')" by (cases "handle p raw w")
  from handle_run [OF h] obtain r1 w1 w2 c where
    run: "record_outcome (within_deadline (g_deadline p) (stages p raw)) w1 = (r1, w2)"
    and t: "w_trace w1 = w_trace w" "w_alive w1 = w_alive w" and ok: "ok_world (raw_request_id raw) w1"
    and fin: "finalize_and_write (gateway_env.truncate p) w2 = (c, w')"
    and r: "r = (case c of Inl e \<Rightarrow> Inl e | Inr _ \<Rightarrow> r1)" by blast
  from succeedsD [OF assms(1), of w1] t assms(3) obtain out w0 es where
    s: "stages p raw w1 = (Inr out, w0)" "w_trace w0 = w_trace w1 @ es" "P out es" by auto
  then have r1: "r1 = Inr out" "w2 = w0" using run by (auto simp: record_outcome_def within_deadline_def tryA_def)
  have "extends (w_trace w1) w1" by (simp add: extends_def no_request_def)
  from run_stages [OF run ok this] have c: "ok_world (raw_request_id raw) w2" "closed r1 (w_builder w2)" by auto
  from finalize_and_write_run [OF c fin] assms(2) obtain ev where
    "rv_request_id ev = raw_request_id raw" "event_closes r1 ev" "c = Inr ()"
    "w_trace w' = w_trace w2 @ [Recorded (Request_event ev)]"
    by (auto simp: gateway_env.defs) (metis fst_conv sum.distinct(1))
  then show ?thesis using h r r1 s t by (auto simp: event_closes_def)
qed

end
