(* ===== verification/Request_Lifecycle.thy ===== *)
theory Request_Lifecycle
  imports Pipeline_Progress
begin

text \<open>
  The properties of a whole request, from its envelope to the last effect: what was authorised,
  what reached the child, what the client is told and what the log says about it. The examples
  run \<open>handle\<close> on a small configuration.
\<close>

section \<open>A gateway to run\<close>

definition answer_doc :: pyval where
  "answer_doc = PObj Mut [(u ''content'', PArr Mut [PStr (u ''hi'')])]"

definition demo_pipeline :: "bool \<Rightarrow> bool \<Rightarrow> (audit_record list) pipeline_env" where
  "demo_pipeline writable deadline =
     \<lparr> g_py = plain_env,
       g_clock = \<lparr> perf_ns = int, utc_us = int, to_ms = (\<lambda>n. Dec False (nat n) 0), coerce = (\<lambda>_ _. None) \<rparr>,
       g_config = demo_config \<lparr> cfg_policy := demo_policy \<rparr>, g_registry = demo_registry,
       g_opa = Some demo_engine,
       g_write = (\<lambda>r s. if writable \<or> s = [] then (Inr (), s @ [r]) else (Inl (audit_deny AUDIT_WRITE_FAILED), s)),
       g_call = (\<lambda>_ _. if deadline then Interrupted else Answer answer_doc False),
       g_list = Answer (PObj Mut [(u ''tools'', PArr Mut [demo_advert, PObj Mut [(u ''name'', PStr (u ''rm''))]])]) False,
       g_interrupt = (\<lambda>_. False),
       g_ver = Py313, g_fs0 = demo_fs, g_fs = demo_fs, g_cwd = [], g_sdk = demo_sdk, g_lib = demo_lib,
       g_prescan_ns = 0, g_deadline = deadline \<rparr>"

definition read_raw :: "string \<Rightarrow> raw_envelope" where
  "read_raw path = \<lparr> raw_request_id = u ''r7'', raw_received_at_ns = 0,
     raw_body = map of_nat (u (''{\"jsonrpc\":\"2.0\",\"id\":7,\"method\":\"tools/call\",\"params\":{\"name\":\"read\",\"arguments\":{\"path\":\"'' @ path @ ''\"}}}'')),
     raw_metadata = [(u ''mcp-protocol-version'', u ''v''), (u ''mcp-method'', u ''tools/call''), (u ''mcp-name'', u ''read'')] \<rparr>"

definition fresh_world :: "(audit_record list) world" where
  "fresh_world = \<lparr> w_sink = [], w_builder = AuditBuilder [] 0 0, w_tick = 0, w_alive = True, w_trace = [] \<rparr>"

definition run_req :: canonical_request where
  "run_req = \<lparr> req_id = u ''r7'', req_protocol_version = u ''v'', req_method = u ''tools/call'',
     req_jsonrpc_id = Id_int 7, req_tool_name = Some (u ''read''),
     req_arguments = PObj Frz [(u ''path'', PStr (u ''a/f''))],
     req_body_hash = map unat (raw_body (read_raw ''a/f'')), req_param_headers = [] \<rparr>"

definition run_drv :: derived_attributes where
  "run_drv = \<lparr> drv_canonical_path = u ''/s/a/f'', drv_root = u ''public'', drv_operation = Op_read,
     drv_classification = u ''public'', drv_exists = True,
     drv_arg_hash = u ''{\"canonical_path\":\"/s/a/f\",\"path\":\"a/f\"}'',
     drv_raw_hash = u ''a/f'', drv_path_argument = u ''path'', drv_relative_path = u ''a/f'' \<rparr>"

definition run_dec :: decision where
  "run_dec = \<lparr> dec_request_id = u ''r7'', dec_method = u ''tools/call'', dec_tool_name = Some (u ''read''),
     dec_decision = Allow, dec_reason_code = u ''POLICY_SCOPED_READ'', dec_risk_tier = R1,
     dec_policy_revision = u ''r1'', dec_obligations = \<lparr> ob_timeout_ms = 3000, ob_max_response_bytes = 4000 \<rparr>,
     dec_arg_hash = drv_arg_hash run_drv, dec_clamped = True \<rparr>"

abbreviation run_ctx :: authz_context where
  "run_ctx \<equiv> resolve_identity run_req (cfg_identity demo_config)"

abbreviation run_tgt :: resolved_target where
  "run_tgt \<equiv> target_of demo_registry demo_tool"

lemma run_stages_02_to_06:
  "validate plain_env demo_sdk 0 (read_raw ''a/f'') (cfg_protocol demo_config) = Inr run_req"
  "resolve plain_env demo_sdk demo_lib run_req run_ctx demo_registry = Inr run_tgt"
  "derive plain_env Py313 demo_fs demo_fs [] run_req run_tgt (cfg_canonicalize demo_config) = Inr run_drv"
  "evaluate run_req run_ctx run_tgt run_drv (Some demo_engine) demo_policy = Inr run_dec"
  "tgt_risk_tier run_tgt = R1"
  by code_simp+

lemma run_admitted: "admitted (demo_pipeline writable deadline) (read_raw ''a/f'') run_req run_ctx run_tgt run_drv run_dec"
  using run_stages_02_to_06
  by (simp add: admitted_def demo_pipeline_def) (simp add: run_dec_def)

section \<open>Properties\<close>

lemma event_closes_allowed: "event_closes (Inr x) ev \<longleftrightarrow> rv_outcome ev = Out_allowed"
  by (simp add: event_closes_def)

lemma settled_Inr [simp]: "settled d r = Inr out \<longleftrightarrow> r = Inr out"
  by (auto simp: settled_def split: sum.splits exc.splits)

lemma settled_Inl: "settled d r = Inl e \<Longrightarrow> (\<exists>st c. e = Denial st c) \<or> e = Cancelled \<and> \<not> d"
  by (auto simp: settled_def split: sum.splits exc.splits if_splits)

lemma stage_effects_no_request: "stage_effects p raw r es \<Longrightarrow> no_request es"
  by (auto simp: stage_effects_def route_effects_def no_request_def Let_def stage_effect_def attempt_record_def)

lemma answered_effects: "handle p raw w = (Inr out, w') \<Longrightarrow> \<exists>es. stage_effects p raw (Inr out) es"
  using handle_life [of p raw w "Inr out" w'] by (metis settled_Inr sum.distinct(1))

text \<open>The effects of stage 07, read off its specification.\<close>

lemma route_effects_call:
  assumes "route_effects g req ctx drv dec r es" "Called name arguments \<in> set es"
  shows "\<exists>ts. es = [Recorded (attempt_record g req drv dec ts), Called name arguments]
    \<and> accepted g (attempt_record g req drv dec ts) \<and> req_method req \<noteq> LIST_METHOD \<and> req_tool_name req = Some name
    \<and> arguments = outbound req drv \<and> gate (g_py g) req drv (Some dec) = Inr ()"
  using assms by (auto simp: route_effects_def Let_def)

lemma gate_hash:
  "gate env req drv (Some dec) = Inr () \<Longrightarrow>
   argument_hash env (req_arguments req) (drv_canonical_path drv) = Inr (dec_arg_hash dec) \<and> dec_decision dec = Allow"
  by (auto simp: gate_def bindR_Inr_iff raise_if_Inr_iff)

text \<open>
  C1: no side effect without authority and a record of it (ROUTE-001, ROUTE-002, ROUTE-004,
  AUDIT-009). If a request makes the child execute a tool, the first five stages admitted exactly
  this request with an allow for it, the argument hash of the decision is that of the forwarded
  arguments and path, the call carries the registered tool and the canonical arguments, the
  attempt was accepted by the audit sink before the call, and nothing but the request's own
  record follows: no second call, no retry.
\<close>

theorem upstream_call_authorized:
  assumes "handle p raw w = (r, w')" "w_trace w' = w_trace w @ es" "Called name arguments \<in> set es"
  shows "\<exists>req ctx tgt drv dec attempt rest.
      admitted p raw req ctx tgt drv dec
    \<and> argument_hash (g_py p) (req_arguments req) (drv_canonical_path drv) = Inr (dec_arg_hash dec)
    \<and> req_tool_name req = Some name \<and> arguments = outbound req drv
    \<and> at_request_id attempt = req_id req \<and> at_tool_name attempt = Some name
    \<and> at_canonical_resource attempt = drv_canonical_path drv \<and> at_arg_hash attempt = dec_arg_hash dec
    \<and> (\<exists>s s'. g_write p (Upstream_attempt attempt) s = (Inr (), s'))
    \<and> es = Recorded (Upstream_attempt attempt) # Called name arguments # rest
    \<and> (\<forall>x \<in> set rest. \<exists>ev. x = Recorded (Request_event ev))"
proof -
  obtain es0 ev r0 where life: "stage_effects p raw r0 es0"
    "w_trace w' = w_trace w @ es0 @ [Recorded (Request_event ev)] \<or> w_trace w' = w_trace w @ es0"
    using handle_life [OF assms(1)] by blast
  then have es: "es = es0 @ [Recorded (Request_event ev)] \<or> es = es0" using assms(2) by simp
  then have "Called name arguments \<in> set es0" using assms(3) by auto
  with life(1) obtain req ctx tgt drv dec r' where adm: "admitted p raw req ctx tgt drv dec"
    and route: "route_effects (gateway_env.truncate p) req ctx drv dec r' es0"
    by (auto simp: stage_effects_def)
  from route_effects_call [OF route \<open>Called name arguments \<in> set es0\<close>] obtain ts where
    ts: "es0 = [Recorded (attempt_record (gateway_env.truncate p) req drv dec ts), Called name arguments]"
      "accepted (gateway_env.truncate p) (attempt_record (gateway_env.truncate p) req drv dec ts)"
      "req_tool_name req = Some name" "arguments = outbound req drv" "gate (g_py p) req drv (Some dec) = Inr ()"
    by (auto simp: gateway_env.defs)
  obtain attempt where att: "attempt_record (gateway_env.truncate p) req drv dec ts = Upstream_attempt attempt"
    "at_request_id attempt = req_id req" "at_tool_name attempt = Some name"
    "at_canonical_resource attempt = drv_canonical_path drv" "at_arg_hash attempt = dec_arg_hash dec"
    using ts(3) by (simp add: attempt_record_def)
  have "\<exists>rest. es = Recorded (Upstream_attempt attempt) # Called name arguments # rest
      \<and> (\<forall>x \<in> set rest. \<exists>ev. x = Recorded (Request_event ev))"
    using es ts(1) att(1) by auto
  moreover have "\<exists>s s'. g_write p (Upstream_attempt attempt) s = (Inr (), s')"
    using ts(2) att(1) by (simp add: accepted_def gateway_env.defs)
  ultimately show ?thesis using adm gate_hash [OF ts(5)] ts(3,4) att(2-5) by blast
qed

text \<open>
  C2: every request leaves exactly one request record, whatever happened to it (AUDIT-001,
  AUDIT-002). The record is written last, carries the request's id, and its outcome and reason
  agree with what the caller is told; the only exception is a sink that refuses it, and then the
  caller gets the sink's error and no answer.
\<close>

theorem every_request_recorded:
  "case handle p raw w of (r, w') \<Rightarrow>
     \<exists>es ev. no_request es \<and> rv_request_id ev = raw_request_id raw
       \<and> (event_closes r ev \<and> w_trace w' = w_trace w @ es @ [Recorded (Request_event ev)]
          \<or> (\<exists>e s s'. g_write p (Request_event ev) s = (Inl e, s') \<and> r = Inl e \<and> w_trace w' = w_trace w @ es))"
proof -
  obtain r w' where h: "handle p raw w = (r, w')" by (cases "handle p raw w")
  from handle_life [OF h] obtain es ev r0 where life: "stage_effects p raw r0 es"
    "rv_request_id ev = raw_request_id raw" "event_closes (settled (g_deadline p) r0) ev"
    "r = settled (g_deadline p) r0 \<and> w_trace w' = w_trace w @ es @ [Recorded (Request_event ev)]
       \<or> (\<exists>e s s'. g_write p (Request_event ev) s = (Inl e, s') \<and> r = Inl e \<and> w_trace w' = w_trace w @ es)" by blast
  have "no_request es" using life(1) by (rule stage_effects_no_request)
  then show ?thesis
    unfolding h prod.case using life(2-4) by (intro exI [of _ es] exI [of _ ev]) auto
qed

text \<open>
  C3: the client is told what the child said, or nothing (RESP-004, REG-010). An answer exists
  only for an admitted request. For a call it is the child's result unchanged under the request's
  id; for a listing it is the child's, less the tools that are not registered, enabled, undrifted
  and discoverable for the principal.
\<close>

theorem answer_is_the_childs:
  assumes "handle p raw w = (Inr out, w')"
  shows "\<exists>req ctx tgt drv dec doc. admitted p raw req ctx tgt drv dec \<and> out = Untrusted (response_doc req doc)
    \<and> (if req_method req = LIST_METHOD
       then \<exists>said e advertised. g_list p = Answer (PObj Mut said) e \<and> field said ''tools'' = PArr Mut advertised
         \<and> doc = dict_set said (u ''tools'') (PArr Mut (filter (\<lambda>entry. \<exists>kvs s. entry = PObj Mut kvs
             \<and> dict_get kvs (u ''name'') = Some (PStr s)
             \<and> s \<in> set (shown_names (gateway_env.truncate p) ctx)) advertised))
       else \<exists>name e m. req_tool_name req = Some name \<and> g_call p name (outbound req drv) = Answer (PObj m doc) e)"
proof -
  from answered_effects [OF assms] obtain es where "stage_effects p raw (Inr out) es" by blast
  then obtain req ctx tgt drv dec res where adm: "admitted p raw req ctx tgt drv dec"
    and route: "route_effects (gateway_env.truncate p) req ctx drv dec (Inr res) es"
    and valid: "response_validate res req (cfg_response (g_config p)) = Inr out"
    by (auto simp: stage_effects_def)
  from valid obtain m doc where doc: "res_content res = PObj m doc" "out = Untrusted (response_doc req doc)"
    by (auto simp: response_validate_Inr_iff)
  show ?thesis
    using route doc
    by (intro exI [of _ req] exI [of _ ctx] exI [of _ tgt] exI [of _ drv] exI [of _ dec] exI [of _ doc] conjI adm)
      (auto simp: route_effects_def Let_def listed_def gateway_env.defs)
qed

text \<open>
  C4: an admitted call is answered: nothing after the policy decision can refuse it (ROUTE-001,
  ROUTE-002). When the sink takes every record, nobody cancels, and the child answers within the
  limits of stage 08, the client gets exactly that answer and the log gets the attempt before the
  call and an \<open>allowed\<close> record after it. In particular the gate never rejects a decision stage 06
  just made.
\<close>

theorem admitted_call_answered:
  assumes "admitted p raw req ctx tgt drv dec"
    and "\<forall>pt. \<not> g_interrupt p pt" "\<forall>r s. fst (g_write p r s) = Inr ()" "w_alive w"
    and "req_method req \<noteq> LIST_METHOD" "req_tool_name req = Some name"
    and "g_call p name (outbound req drv) = Answer content is_error"
    and "canonical_json (g_py p) content = Inr bytes"
    and "\<And>n. response_validate (the_answer dec (cfg_router (g_config p)) content is_error (length bytes) n)
      req (cfg_response (g_config p)) = Inr out"
  shows "\<exists>w' ts ev. handle p raw w = (Inr out, w')
    \<and> w_trace w' = w_trace w @ [Recorded (attempt_record (gateway_env.truncate p) req drv dec ts),
        Called name (outbound req drv), Recorded (Request_event ev)]
    \<and> rv_request_id ev = raw_request_id raw \<and> rv_outcome ev = Out_allowed"
  using handle_succeeds [OF succeeds_stages [OF assms(1-3,5-9)] assms(3,4)] by auto

text \<open>
  Whatever exception a stage raises, what leaves \<open>handle\<close> is a denial, a cancellation no deadline
  caused, or what the sink raised when it refused the request's own record.
\<close>

lemma handle_failures:
  assumes "handle p raw w = (Inl e, w')"
  shows "(\<exists>st c. e = Denial st c) \<or> e = Cancelled \<and> \<not> g_deadline p
    \<or> (\<exists>ev s s'. rv_request_id ev = raw_request_id raw \<and> g_write p (Request_event ev) s = (Inl e, s'))"
proof -
  from handle_life [OF assms] obtain ev and r0 :: "pyval untrusted result" where
    "rv_request_id ev = raw_request_id raw"
    "Inl e = settled (g_deadline p) r0 \<or> (\<exists>s s'. g_write p (Request_event ev) s = (Inl e, s'))" by auto
  then show ?thesis using settled_Inl [of "g_deadline p" r0 e] by auto
qed

text \<open>The state in which the stages begin: a new builder, two clock readings later.\<close>

definition started :: "'s pipeline_env \<Rightarrow> raw_envelope \<Rightarrow> 's world \<Rightarrow> 's world" where
  "started p raw w = w \<lparr> w_tick := Suc (Suc (w_tick w)),
     w_builder := AuditBuilder (raw_request_id raw) (perf_ns (g_clock p) (w_tick w)) (utc_us (g_clock p) (Suc (w_tick w))) \<rparr>"

lemma handle_started:
  "handle p raw w = finallyA (record_outcome (within_deadline (g_deadline p) (stages p raw)))
     (finalize_and_write (gateway_env.truncate p)) (started p raw w)"
  by (simp add: handle_def Let_def bindA_def perf_counter_def utc_now_def started_def gateway_env.defs)

lemma ok_started: "ok_world (raw_request_id raw) (started p raw w)"
  by (simp add: started_def ok_world_def AuditBuilder_def builder_ok_def)

lemma audit_write_eq:
  "audit_write g rec w = (case g_write g rec (w_sink w) of
     (Inl e, s) \<Rightarrow> (Inl e, w \<lparr> w_sink := s \<rparr>)
   | (Inr _, s) \<Rightarrow> (Inr (), w \<lparr> w_sink := s, w_trace := w_trace w @ [Recorded rec] \<rparr>))"
  by (auto simp: audit_write_def bindA_def zoomA_def emit_def split: prod.split sum.split)

lemma finalize_and_write_eq:
  "\<not> bld_sealed (w_builder w) \<Longrightarrow>
   finalize (g_clock g) (perf_ns (g_clock g) (Suc (w_tick w))) (utc_us (g_clock g) (w_tick w)) (w_builder w) = Inr ev \<Longrightarrow>
   finalize_and_write g w = audit_write g (Request_event ev)
     (w \<lparr> w_builder := (w_builder w) \<lparr> bld_sealed := True \<rparr>, w_tick := Suc (Suc (w_tick w)) \<rparr>)"
  by (simp add: finalize_and_write_def bindA_def utc_now_def perf_counter_def)

lemma stages_end:
  assumes "record_outcome (within_deadline (g_deadline p) (stages p raw)) (started p raw w) = (r, w')"
  shows "ok_world (raw_request_id raw) w' \<and> extends (w_trace w) w' \<and> closed r (w_builder w')"
  by (rule run_stages [OF assms ok_started]) (simp add: extends_def no_request_def started_def)

text \<open>
  C7: finalization never fails (AUDIT-003). However the stages end, every field they contributed is
  a field of the schema with its declared type and none is one of the fields finalization fills in
  itself, so the event is built from exactly those fields, pydantic coerces nothing, and no
  tombstone is written in its place: what the sink is handed, last and once, is that event under
  the id of the request. When the sink takes it the caller gets what the stages came to; when it
  does not, the caller gets the sink's error and nothing is recorded.
\<close>

theorem record_well_typed:
  "\<exists>r w' r1 w1 es ev. handle p raw w = (r, w')
     \<and> record_outcome (within_deadline (g_deadline p) (stages p raw)) (started p raw w) = (r1, w1)
     \<and> w_trace w1 = w_trace w @ es \<and> no_request es \<and> \<not> bld_sealed (w_builder w1)
     \<and> finalize (g_clock p) (perf_ns (g_clock p) (Suc (w_tick w1))) (utc_us (g_clock p) (w_tick w1)) (w_builder w1) = Inr ev
     \<and> rv_request_id ev = raw_request_id raw \<and> list_all typed (rv_fields ev)
     \<and> rv_fields ev = filter (\<lambda>(k, v). k \<noteq> u ''outcome'') (bld_fields (w_builder w1))
     \<and> (case g_write p (Request_event ev) (w_sink w1) of
          (Inr _, s) \<Rightarrow> r = r1 \<and> w_trace w' = w_trace w @ es @ [Recorded (Request_event ev)] \<and> w_sink w' = s
        | (Inl e, s) \<Rightarrow> r = Inl e \<and> w_trace w' = w_trace w @ es \<and> w_sink w' = s)"
proof -
  obtain r w' where h: "handle p raw w = (r, w')" by (cases "handle p raw w")
  obtain r1 w1 where run: "record_outcome (within_deadline (g_deadline p) (stages p raw)) (started p raw w) = (r1, w1)"
    by (cases "record_outcome (within_deadline (g_deadline p) (stages p raw)) (started p raw w)")
  from stages_end [OF run] obtain es where w1: "ok_world (raw_request_id raw) w1" "w_trace w1 = w_trace w @ es" "no_request es"
    "closed r1 (w_builder w1)" by (auto simp: extends_def)
  then have b: "builder_ok (w_builder w1)" "\<not> bld_sealed (w_builder w1)" "bld_request_id (w_builder w1) = raw_request_id raw"
    by (auto simp: ok_world_def)
  from finalize_closes [OF b(1) w1(4), of "g_clock p" "perf_ns (g_clock p) (Suc (w_tick w1))" "utc_us (g_clock p) (w_tick w1)"]
  obtain ev where
    ev: "finalize (g_clock p) (perf_ns (g_clock p) (Suc (w_tick w1))) (utc_us (g_clock p) (w_tick w1)) (w_builder w1) = Inr ev"
      "rv_request_id ev = raw_request_id raw" "rv_fields ev = filter (\<lambda>(k, v). k \<noteq> u ''outcome'') (bld_fields (w_builder w1))"
    by (auto simp: b(3))
  have "list_all typed (rv_fields ev)" using b(1) by (auto simp: ev(3) builder_ok_def list_all_iff)
  moreover obtain c s where wr: "g_write p (Request_event ev) (w_sink w1) = (c, s)"
    by (cases "g_write p (Request_event ev) (w_sink w1)")
  have fin: "finalize_and_write (gateway_env.truncate p) w1 = audit_write (gateway_env.truncate p) (Request_event ev)
      (w1 \<lparr> w_builder := (w_builder w1) \<lparr> bld_sealed := True \<rparr>, w_tick := Suc (Suc (w_tick w1)) \<rparr>)"
    by (rule finalize_and_write_eq) (use b(2) ev(1) in \<open>simp_all add: gateway_env.defs\<close>)
  have untouched: "g_write (gateway_env.truncate p) = g_write p" by (simp add: gateway_env.defs)
  have "(r, w') = (case c of
      Inl e \<Rightarrow> (Inl e, w1 \<lparr> w_builder := (w_builder w1) \<lparr> bld_sealed := True \<rparr>, w_tick := Suc (Suc (w_tick w1)), w_sink := s \<rparr>)
    | Inr _ \<Rightarrow> (r1, w1 \<lparr> w_builder := (w_builder w1) \<lparr> bld_sealed := True \<rparr>, w_tick := Suc (Suc (w_tick w1)), w_sink := s,
        w_trace := w_trace w1 @ [Recorded (Request_event ev)] \<rparr>))"
    using h run wr by (auto simp: handle_started finallyA_def fin audit_write_eq untouched split: sum.splits)
  then have "case g_write p (Request_event ev) (w_sink w1) of
      (Inr _, s) \<Rightarrow> r = r1 \<and> w_trace w' = w_trace w @ es @ [Recorded (Request_event ev)] \<and> w_sink w' = s
    | (Inl e, s) \<Rightarrow> r = Inl e \<and> w_trace w' = w_trace w @ es \<and> w_sink w' = s"
    using wr w1(2) by (auto split: sum.splits)
  ultimately show ?thesis
    using h run w1 b ev
    by (intro exI [of _ r] exI [of _ w'] exI [of _ r1] exI [of _ w1] exI [of _ es] exI [of _ ev] conjI) assumption+
qed

lemma status_kept:
  "dict_get (bld_fields (record_denial c b)) (u ''upstream_status'') = dict_get (bld_fields b) (u ''upstream_status'')"
  by (simp add: record_denial_def set_outcome_def get_setdefault)

lemma status_reattributed:
  "dict_get (bld_fields (reattribute_upstream_cancellation ''timeout'' b)) (u ''upstream_status'') \<noteq> Some (PStr (u ''cancelled''))"
  by (simp add: reattribute_upstream_cancellation_def u_eq_iff)

text \<open>
  C6: an expired deadline is recorded as a timeout, never as a client that went away (ROUTE-010):
  when the request's deadline cancels the stages, the caller is told \<open>ROUTE_TIMEOUT\<close>, the record's
  outcome and reason say so, and the router's \<open>cancelled\<close> no longer stands in it.
\<close>

theorem expiry_recorded_as_timeout:
  assumes "g_deadline p" "stages p raw (started p raw w) = (Inl Cancelled, w0)"
    and "\<forall>rec s. fst (g_write p rec s) = Inr ()"
  shows "\<exists>w' ev. handle p raw w = (Inl (Denial PROTOCOL ROUTE_TIMEOUT), w')
    \<and> w_trace w' = w_trace w0 @ [Recorded (Request_event ev)] \<and> rv_outcome ev = Out_timeout
    \<and> dict_get (rv_fields ev) (u ''reason_code'') = Some (PStr (u ''ROUTE_TIMEOUT''))
    \<and> dict_get (rv_fields ev) (u ''upstream_status'') \<noteq> Some (PStr (u ''cancelled''))"
proof -
  let ?b = "record_denial ROUTE_TIMEOUT (reattribute_upstream_cancellation ''timeout'' (w_builder w0))"
  let ?w = "w0 \<lparr> w_builder := ?b \<rparr>"
  have run: "record_outcome (within_deadline (g_deadline p) (stages p raw)) (started p raw w)
      = (Inl (Denial PROTOCOL ROUTE_TIMEOUT), ?w)"
    using assms(1,2) by (simp add: record_outcome_def within_deadline_def tryA_def update_builder_def bindA_def)
  from stages_end [OF run]
  have c: "ok_world (raw_request_id raw) ?w" "closed (Inl (Denial PROTOCOL ROUTE_TIMEOUT) :: pyval untrusted result) (w_builder ?w)"
    by auto
  obtain q w' where fin: "finalize_and_write (gateway_env.truncate p) ?w = (q, w')"
    by (cases "finalize_and_write (gateway_env.truncate p) ?w")
  have taken: "g_write (gateway_env.truncate p) rec s \<noteq> (Inl e, s')" for rec s e s'
    using assms(3) by (metis fst_conv gateway_env.select_convs(6) gateway_env.truncate_def sum.distinct(1))
  from finalize_and_write_run [OF c fin] taken obtain ev where
    ev: "event_closes (Inl (Denial PROTOCOL ROUTE_TIMEOUT) :: pyval untrusted result) ev" "q = Inr ()"
      "rv_fields ev = filter (\<lambda>(k, v). k \<noteq> u ''outcome'') (bld_fields ?b)"
      "w_trace w' = w_trace ?w @ [Recorded (Request_event ev)]" by auto
  have codes: "outcome_of ROUTE_TIMEOUT = Out_timeout" "reason_value ROUTE_TIMEOUT = ''ROUTE_TIMEOUT''" by code_simp+
  have "handle p raw w = (Inl (Denial PROTOCOL ROUTE_TIMEOUT), w')"
    by (simp add: handle_started finallyA_def run fin ev(2))
  moreover have "dict_get (rv_fields ev) (u ''upstream_status'') \<noteq> Some (PStr (u ''cancelled''))"
    using status_reattributed [of "w_builder w0"] by (simp add: ev(3) get_filter_other status_kept u_eq_iff)
  ultimately show ?thesis
    using ev(1,4) codes by (auto simp: event_closes_def)
qed

section \<open>Examples of the properties\<close>

lemma demo_facts [simp]:
  "g_py (demo_pipeline a d) = plain_env" "g_interrupt (demo_pipeline a d) pt = False" "g_deadline (demo_pipeline a d) = d"
  "g_config (demo_pipeline a d) = demo_config \<lparr> cfg_policy := demo_policy \<rparr>"
  "g_write (demo_pipeline True d) = (\<lambda>r s. (Inr (), s @ [r]))"
  "g_call (demo_pipeline a d) = (\<lambda>_ _. if d then Interrupted else Answer answer_doc False)"
  by (simp_all add: demo_pipeline_def)

definition answer_bytes :: bytes where
  "answer_bytes = map of_nat (u ''{\"content\":[\"hi\"]}'')"

lemma demo_shape:
  "req_method run_req \<noteq> LIST_METHOD" "req_tool_name run_req = Some (u ''read'')"
  "outbound run_req run_drv = PObj Mut [(u ''path'', PStr (u ''a/f''))]"
  "canonical_json plain_env answer_doc = Inr answer_bytes" "length answer_bytes = 18"
  by code_simp+

definition demo_out :: "pyval untrusted" where
  "demo_out = Untrusted (PObj Mut [(u ''jsonrpc'', PStr (u ''2.0'')), (u ''id'', PInt 7), (u ''result'', answer_doc)])"

lemma demo_validates:
  "response_validate (the_answer run_dec (cfg_router demo_config) answer_doc False 18 n) run_req (cfg_response demo_config)
     = Inr demo_out"
proof -
  have "response_validate (the_answer run_dec (cfg_router demo_config) answer_doc False 18 0) run_req (cfg_response demo_config)
     = Inr demo_out" by code_simp
  then show ?thesis unfolding response_validate_Inr_iff by (simp add: the_answer_def)
qed

lemma demo_alive: "w_alive fresh_world" "w_trace fresh_world = []"
  by (simp_all add: fresh_world_def)

lemma demo_run:
  "\<exists>w' a ev. handle (demo_pipeline True False) (read_raw ''a/f'') fresh_world = (Inr demo_out, w')
     \<and> w_trace w' = [Recorded (Upstream_attempt a), Called (u ''read'') (PObj Mut [(u ''path'', PStr (u ''a/f''))]),
         Recorded (Request_event ev)]"
proof -
  have s: "succeeds (stages (demo_pipeline True False) (read_raw ''a/f'')) (\<lambda>x es. x = demo_out \<and>
    (\<exists>ts. es = [Recorded (attempt_record (gateway_env.truncate (demo_pipeline True False)) run_req run_drv run_dec ts),
      Called (u ''read'') (outbound run_req run_drv)]))"
    by (rule succeeds_stages [OF run_admitted, where content = answer_doc and is_error = False
          and bytes = answer_bytes])
      (simp_all add: demo_shape demo_validates)
  show ?thesis
    using handle_succeeds [OF s _ demo_alive(1)] by (auto simp: demo_shape demo_alive attempt_record_def)
qed

theorem admitted_call_answered_witness:
  "\<exists>w' ts ev. handle (demo_pipeline True False) (read_raw ''a/f'') fresh_world = (Inr demo_out, w')
     \<and> w_trace w' = [Recorded (attempt_record (gateway_env.truncate (demo_pipeline True False)) run_req run_drv run_dec ts),
         Called (u ''read'') (PObj Mut [(u ''path'', PStr (u ''a/f''))]), Recorded (Request_event ev)]
     \<and> rv_outcome ev = Out_allowed"
proof -
  have "\<exists>w' ts ev. handle (demo_pipeline True False) (read_raw ''a/f'') fresh_world = (Inr demo_out, w')
    \<and> w_trace w' = w_trace fresh_world @ [Recorded (attempt_record (gateway_env.truncate (demo_pipeline True False)) run_req run_drv run_dec ts),
        Called (u ''read'') (outbound run_req run_drv), Recorded (Request_event ev)]
    \<and> rv_request_id ev = raw_request_id (read_raw ''a/f'') \<and> rv_outcome ev = Out_allowed"
    by (rule admitted_call_answered [OF run_admitted, where content = answer_doc and is_error = False and bytes = answer_bytes])
      (simp_all add: demo_shape demo_validates demo_alive)
  then show ?thesis by (auto simp: demo_shape demo_alive)
qed

theorem upstream_call_authorized_witness:
  "\<exists>(req :: canonical_request) (drv :: derived_attributes) (dec :: decision). argument_hash plain_env (req_arguments req) (drv_canonical_path drv) = Inr (dec_arg_hash dec)
       \<and> req_tool_name req = Some (u ''read'') \<and> PObj Mut [(u ''path'', PStr (u ''a/f''))] = outbound req drv"
proof -
  from demo_run obtain w' a ev where run: "handle (demo_pipeline True False) (read_raw ''a/f'') fresh_world = (Inr demo_out, w')"
    "w_trace w' = w_trace fresh_world @ [Recorded (Upstream_attempt a), Called (u ''read'') (PObj Mut [(u ''path'', PStr (u ''a/f''))]),
         Recorded (Request_event ev)]" by (auto simp: demo_alive)
  from upstream_call_authorized [OF run] show ?thesis by auto
qed

theorem answer_is_the_childs_witness:
  "\<exists>w' drv doc. handle (demo_pipeline True False) (read_raw ''a/f'') fresh_world = (Inr demo_out, w')
     \<and> demo_out = Untrusted (response_doc run_req doc)
     \<and> g_call (demo_pipeline True False) (u ''read'') (outbound run_req drv) = Answer (PObj Mut doc) False"
proof -
  from demo_run obtain w' where run: "handle (demo_pipeline True False) (read_raw ''a/f'') fresh_world = (Inr demo_out, w')"
    by blast
  from answer_is_the_childs [OF run, unfolded if_bool_eq_conj] obtain req ctx tgt drv dec doc where
    a: "admitted (demo_pipeline True False) (read_raw ''a/f'') req ctx tgt drv dec" "demo_out = Untrusted (response_doc req doc)"
    and said: "req_method req \<noteq> LIST_METHOD \<longrightarrow> (\<exists>name e m. req_tool_name req = Some name
       \<and> g_call (demo_pipeline True False) name (outbound req drv) = Answer (PObj m doc) e)" by blast
  have "req = run_req" using a(1) run_stages_02_to_06(1) by (simp add: admitted_def demo_pipeline_def)
  then show ?thesis using run a(2) said demo_shape(1,2) by (auto simp: answer_doc_def)
qed

text \<open>A deadline that expires while OPA is asked.\<close>

definition cancels :: "('s, 'a) step \<Rightarrow> bool" where
  "cancels m \<longleftrightarrow> (\<forall>w. w_alive w \<longrightarrow> (\<exists>w'. m w = (Inl Cancelled, w')))"

lemma cancels_bind:
  "succeeds m P \<Longrightarrow> (\<And>x es. P x es \<Longrightarrow> cancels (f x)) \<Longrightarrow> cancels (bindA m f)"
  "cancels m' \<Longrightarrow> cancels (bindA m' f')"
  unfolding cancels_def by (fastforce dest!: succeedsD simp: bindA_def)+

lemma cancels_stage: "cancels m \<Longrightarrow> cancels (with_stage g st m)"
  unfolding with_stage_def cancels_def
proof (intro allI impI)
  fix w :: "'a world" assume m: "\<forall>w. w_alive w \<longrightarrow> (\<exists>w'. m w = (Inl Cancelled, w'))" and "w_alive w"
  then obtain w' where "m (w \<lparr> w_tick := Suc (w_tick w) \<rparr>) = (Inl Cancelled, w')" by fastforce
  then show "\<exists>w'. bindA (perf_counter g) (\<lambda>t0. finallyA m (bindA (perf_counter g) (\<lambda>t1.
      modA (\<lambda>w. w \<lparr> w_builder := builder_stage st t0 t1 (w_builder w) \<rparr>)))) w = (Inl Cancelled, w')"
    by (simp add: finallyA_def perf_counter_def bindA_def)
qed

definition slow_policy :: "(audit_record list) pipeline_env" where
  "slow_policy = (demo_pipeline True True) \<lparr> g_interrupt := \<lambda>pt. pt = At_decision \<rparr>"

lemma slow_policy_cancels: "cancels (stages slow_policy (read_raw ''a/f''))"
proof -
  have lift: "v = Inr x \<Longrightarrow> cancels (f x) \<Longrightarrow> cancels (bindA (with_stage g st (liftA v)) f)"
    "cancels (f y) \<Longrightarrow> cancels (bindA (with_stage g st (retA y)) f)" for v x y st and f :: "'b \<Rightarrow> (audit_record list, 'c) step"
    and g :: "(audit_record list) gateway_env"
    by (rule cancels_bind(1) [where P = "\<lambda>z es. z = x"] cancels_bind(1) [where P = "\<lambda>z es. z = y"],
        rule succeeds_stage, simp_all add: succeeds_def)+
  have set: "list_all typed kw \<Longrightarrow> cancels m \<Longrightarrow> cancels (bindA (audit_set kw) (\<lambda>_. m))"
    for kw and m :: "(audit_record list, 'c) step"
    by (rule cancels_bind(1) [OF succeeds_primitives(4)])
  show ?thesis
    unfolding stages_def Let_def
    by (rule lift(1) set typed_contributions lift(2) cancels_bind(2) cancels_stage
        | simp add: slow_policy_def demo_pipeline_def run_stages_02_to_06 cancels_def await_def bindA_def gateway_env.defs; fail)+
qed

theorem expiry_recorded_as_timeout_witness:
  "\<exists>w' ev. handle slow_policy (read_raw ''a/f'') fresh_world = (Inl (Denial PROTOCOL ROUTE_TIMEOUT), w')
     \<and> last (w_trace w') = Recorded (Request_event ev) \<and> rv_outcome ev = Out_timeout"
proof -
  have "w_alive (started slow_policy (read_raw ''a/f'') fresh_world)" by (simp add: started_def fresh_world_def)
  with slow_policy_cancels obtain w0 where
    "stages slow_policy (read_raw ''a/f'') (started slow_policy (read_raw ''a/f'') fresh_world) = (Inl Cancelled, w0)"
    unfolding cancels_def by blast
  from expiry_recorded_as_timeout [OF _ this] show ?thesis by (auto simp: slow_policy_def)
qed

end
