(* ===== verification/Edge.thy ===== *)
theory Edge
  imports Registry Gateway_Effects
begin

text \<open>
  \<open>gateway/edge.py\<close>: the ASGI application in front of the pipeline. The server's side of the
  protocol, what \<open>send\<close> makes of an event and which messages arrive, the handler and the point
  where the client disconnects are arguments; the concurrency slots and the events sent are the
  state.
\<close>

section \<open>The edge and its server\<close>

text \<open>An ASGI message, with the defaults of \<open>body\<close> and \<open>more_body\<close> filled in, and an event sent.\<close>

datatype message = Disconnect | Chunk bytes bool

datatype sent = Start int | Body bytes

record scope =
  sc_type :: string
  sc_method :: ustr
  sc_path :: "ustr option"
  sc_headers :: "(bytes \<times> bytes) list"

record 'w edge_world =
  ew_inner :: 'w
  ew_incoming :: "message list"
  ew_slots :: nat
  ew_sent :: "sent list"

text \<open>
  \<open>e_send\<close>: what the server makes of an event after those already sent, \<open>None\<close> when the client
  does not read. The handler is told whether it is cancelled because the client went away.
\<close>

record 'w edge =
  e_cfg :: edge_config
  e_py :: pyenv
  e_send :: "sent list \<Rightarrow> sent \<Rightarrow> unit result option"
  e_rid :: ustr
  e_now_ns :: int
  e_gone :: bool
  e_handler :: "bool \<Rightarrow> raw_envelope \<Rightarrow> ('w, pyval untrusted) wait"

type_synonym ('w, 'a) edge_step = "('w edge_world, 'a) wait"

definition send_event :: "'w edge \<Rightarrow> sent \<Rightarrow> ('w, unit) edge_step" where
  "send_event e x w =
     (case e_send e (ew_sent w) x of
        None \<Rightarrow> (None, w)
      | Some (Inl ex) \<Rightarrow> (Some (Inl ex), w)
      | Some (Inr _) \<Rightarrow> (Some (Inr ()), w \<lparr> ew_sent := ew_sent w @ [x] \<rparr>))"

definition send_reply :: "'w edge \<Rightarrow> int \<Rightarrow> bytes \<Rightarrow> ('w, unit) edge_step" where
  "send_reply e status b = bindW (send_event e (Start status)) (\<lambda>_. send_event e (Body b))"

section \<open>Errors\<close>

text \<open>\<open>_jsonrpc_id\<close>: \<open>ValueError\<close> and \<open>UnicodeDecodeError\<close> are caught, \<open>RecursionError\<close> is neither.\<close>

definition jsonrpc_id :: "pyenv \<Rightarrow> bytes \<Rightarrow> pyval result" where
  "jsonrpc_id env b =
     (case loads (recursion_limit env) b of
        Inl RecursionError \<Rightarrow> Inl (PyError ''RecursionError'')
      | Inl _ \<Rightarrow> Inr PNone
      | Inr v \<Rightarrow>
          Inr (case v of PObj Mut kvs \<Rightarrow> (case dict_get kvs (u ''id'') of None \<Rightarrow> PNone | Some i \<Rightarrow> i) | _ \<Rightarrow> PNone))"

definition error_doc :: "reason_code \<Rightarrow> ustr \<Rightarrow> pyval \<Rightarrow> pyval" where
  "error_doc code rid i =
     PObj Mut [(u ''jsonrpc'', PStr (u ''2.0'')), (u ''id'', i),
       (u ''error'', PObj Mut
          [(u ''code'', PInt (snd (wire_shape code))), (u ''message'', PStr (u (safe_message code))),
           (u ''data'', PObj Mut
              [(u ''reason_code'', PStr (u (reason_value code))), (u ''request_id'', PStr rid)])])]"

definition error_reply :: "'w edge \<Rightarrow> reason_code \<Rightarrow> int option \<Rightarrow> pyval \<Rightarrow> ('w, unit) edge_step" where
  "error_reply e code status i =
     bindW (giveW (json_dumps (e_py e) (error_doc code (e_rid e) i))) (\<lambda>b.
     send_reply e (case status of None \<Rightarrow> fst (wire_shape code) | Some s \<Rightarrow> s) b)"

definition error_with_id :: "'w edge \<Rightarrow> reason_code \<Rightarrow> bytes \<Rightarrow> ('w, unit) edge_step" where
  "error_with_id e code b = bindW (giveW (jsonrpc_id (e_py e) b)) (\<lambda>i. error_reply e code None i)"

section \<open>Reading the request\<close>

text \<open>latin-1 maps each byte to its code point; names are lowered, order and duplicates kept.\<close>

definition pairs :: "(bytes \<times> bytes) list \<Rightarrow> (ustr \<times> ustr) list" where
  "pairs raw = map (\<lambda>(k, v). (lower (map unat k), map unat v)) raw"

definition origin_ok :: "edge_config \<Rightarrow> (ustr \<times> ustr) list \<Rightarrow> bool" where
  "origin_ok cfg headers =
     (case [v. (k, v) \<leftarrow> headers, k = u ''origin''] of
        [] \<Rightarrow> True
      | [origin] \<Rightarrow> origin \<in> set (edge_allowed_origins cfg)
      | _ \<Rightarrow> False)"

abbreviation transport_deny :: "reason_code \<Rightarrow> exc" where
  "transport_deny c \<equiv> Denial TRANSPORT c"

text \<open>\<open>_read_body\<close>; when the messages run out, \<open>receive\<close> does not return.\<close>

fun read_chunks :: "int \<Rightarrow> bytes list \<Rightarrow> int \<Rightarrow> message list \<Rightarrow> bytes result option \<times> message list" where
  "read_chunks limit chunks seen [] = (None, [])"
| "read_chunks limit chunks seen (Disconnect # ms) = (Some (Inl (transport_deny ROUTE_CANCELLED)), ms)"
| "read_chunks limit chunks seen (Chunk b cont # ms) =
     (let chunks' = chunks @ [b]; seen' = seen + int (length b) in
      if limit < seen' then (Some (Inl (transport_deny PROTO_MESSAGE_TOO_LARGE)), ms)
      else if \<not> cont then (Some (Inr (concat chunks')), ms)
      else read_chunks limit chunks' seen' ms)"

definition read_body :: "'w edge \<Rightarrow> ('w, bytes) edge_step" where
  "read_body e w =
     (case read_chunks (edge_max_message_bytes (e_cfg e)) [] 0 (ew_incoming w) of
        (r, ms) \<Rightarrow> (r, w \<lparr> ew_incoming := ms \<rparr>))"

section \<open>Dispatch\<close>

definition acquire :: "('w, unit) edge_step" where
  "acquire w = (case ew_slots w of 0 \<Rightarrow> (None, w) | Suc n \<Rightarrow> (Some (Inr ()), w \<lparr> ew_slots := n \<rparr>))"

definition release :: "'w edge_world \<Rightarrow> 'w edge_world" where
  "release w = w \<lparr> ew_slots := Suc (ew_slots w) \<rparr>"

text \<open>\<open>_run_watching_for_disconnect\<close>: after a disconnect the handler's own outcome is dropped.\<close>

definition run_watching :: "'w edge \<Rightarrow> raw_envelope \<Rightarrow> ('w, pyval untrusted) edge_step" where
  "run_watching e env w =
     (case e_handler e (e_gone e) env (ew_inner w) of
        (None, i) \<Rightarrow> (None, w \<lparr> ew_inner := i \<rparr>)
      | (Some r, i) \<Rightarrow>
          (Some (if e_gone e then Inl (transport_deny ROUTE_CANCELLED) else r), w \<lparr> ew_inner := i \<rparr>))"

definition envelope :: "'w edge \<Rightarrow> scope \<Rightarrow> bytes \<Rightarrow> raw_envelope" where
  "envelope e sc b =
     \<lparr> raw_request_id = e_rid e, raw_received_at_ns = e_now_ns e, raw_body = b, raw_metadata = pairs (sc_headers sc) \<rparr>"

text \<open>The handler under its backstop, its failures told to the client, and the slot given back.\<close>

definition serve_slot :: "'w edge \<Rightarrow> scope \<Rightarrow> bytes \<Rightarrow> ('w, pyval untrusted option) edge_step" where
  "serve_slot e sc b =
     finallyW
       (tryW (bindW (within (run_watching e (envelope e sc b))) (\<lambda>out. giveW (Inr (Some out))))
          (\<lambda>ex. case ex of
             Denial st c \<Rightarrow> bindW (error_with_id e c b) (\<lambda>_. giveW (Inr None))
           | TimeoutError \<Rightarrow> bindW (error_with_id e ROUTE_TIMEOUT b) (\<lambda>_. giveW (Inr None))
           | Cancelled \<Rightarrow> giveW (Inl Cancelled)
           | _ \<Rightarrow> bindW (error_with_id e INTERNAL_ERROR b) (\<lambda>_. giveW (Inr None))))
       release"

definition dispatch :: "'w edge \<Rightarrow> scope \<Rightarrow> ('w, unit) edge_step" where
  "dispatch e sc =
     (if sc_method sc \<in> {u ''GET'', u ''DELETE''} then error_reply e PROTO_METHOD_NOT_ALLOWED (Some 405) PNone
      else if sc_method sc \<noteq> u ''POST'' then error_reply e PROTO_METHOD_NOT_ALLOWED (Some 405) PNone
      else if sc_path sc \<noteq> Some (edge_mcp_path (e_cfg e)) then error_reply e PROTO_METHOD_NOT_ALLOWED (Some 404) PNone
      else if \<not> origin_ok (e_cfg e) (pairs (sc_headers sc)) then error_reply e PROTO_ORIGIN_REJECTED None PNone
      else
      bindW (within (read_body e)) (\<lambda>b.
      bindW (within acquire) (\<lambda>_.
      bindW (serve_slot e sc b) (\<lambda>result.
      case result of
        None \<Rightarrow> giveW (Inr ())
      | Some out \<Rightarrow>
          within (bindW (giveW (json_dumps (e_py e) (unwrap out))) (\<lambda>body. send_reply e 200 body))))))"

definition edge_handle :: "'w edge \<Rightarrow> scope \<Rightarrow> ('w, unit) edge_step" where
  "edge_handle e sc =
     tryW (dispatch e sc)
       (\<lambda>ex. if ex = TimeoutError then error_reply e ROUTE_TIMEOUT None PNone else giveW (Inl ex))"

definition edge_call :: "'w edge \<Rightarrow> scope \<Rightarrow> ('w, unit) edge_step" where
  "edge_call e sc =
     (if sc_type sc \<noteq> ''http'' then giveW (Inr ())
      else tryW (edge_handle e sc)
        (\<lambda>ex. case ex of
           Denial st c \<Rightarrow> error_reply e c None PNone
         | Cancelled \<Rightarrow> giveW (Inl Cancelled)
         | _ \<Rightarrow> error_reply e INTERNAL_ERROR None PNone))"

section \<open>The body\<close>

lemma chunk_split:
  "Chunk c cont # ms = map (\<lambda>c. Chunk c True) bs @ Chunk final False # rest \<longleftrightarrow>
     (if cont then \<exists>bs'. bs = c # bs' \<and> ms = map (\<lambda>c. Chunk c True) bs' @ Chunk final False # rest
      else bs = [] \<and> c = final \<and> ms = rest)"
  by (cases bs) auto

lemma read_chunks_Inr_iff:
  "read_chunks limit chunks seen ms = (Some (Inr b), rest) \<longleftrightarrow>
     (\<exists>bs final. ms = map (\<lambda>c. Chunk c True) bs @ Chunk final False # rest \<and> b = concat (chunks @ bs @ [final])
        \<and> seen + int (length (concat (bs @ [final]))) \<le> limit)"
proof (induction limit chunks seen ms rule: read_chunks.induct)
  case (1 limit chunks seen)
  then show ?case by simp
next
  case (2 limit chunks seen ms)
  then show ?case by (auto simp: Cons_eq_append_conv Cons_eq_map_conv)
next
  case (3 limit chunks seen c cont ms)
  show ?case (is "?l \<longleftrightarrow> ?r")
  proof (cases "limit < seen + int (length c)")
    case True
    then have "\<not> ?r" unfolding chunk_split by auto
    then show ?thesis using True by simp
  next
    case False
    show ?thesis
    proof (cases cont)
      case True
      have "?r \<longleftrightarrow> (\<exists>bs final. ms = map (\<lambda>c. Chunk c True) bs @ Chunk final False # rest
          \<and> b = concat ((chunks @ [c]) @ bs @ [final]) \<and> seen + int (length c) + int (length (concat (bs @ [final]))) \<le> limit)"
        (is "_ \<longleftrightarrow> ?r'")
      proof
        show "?r \<Longrightarrow> ?r'" unfolding chunk_split using True by (auto simp: add.assoc)
      next
        assume ?r'
        then obtain bs final where "ms = map (\<lambda>c. Chunk c True) bs @ Chunk final False # rest"
          "b = concat ((chunks @ [c]) @ bs @ [final])" "seen + int (length c) + int (length (concat (bs @ [final]))) \<le> limit"
          by blast
        then show ?r unfolding chunk_split using True
          by (intro exI [of _ "c # bs"] exI [of _ final]) (simp add: add.assoc)
      qed
      then show ?thesis using 3 False True by simp
    next
      case cont: False
      then show ?thesis unfolding chunk_split using False by auto
    qed
  qed
qed

section \<open>One response per request\<close>

definition accepting :: "'w edge \<Rightarrow> bool" where
  "accepting e \<longleftrightarrow> (\<forall>evs x. e_send e evs x = Some (Inr ()))"

definition replied :: "int \<Rightarrow> bytes \<Rightarrow> 'w edge_world \<Rightarrow> 'w edge_world \<Rightarrow> bool" where
  "replied status b w w' \<longleftrightarrow> ew_sent w' = ew_sent w @ [Start status, Body b]"

lemma send_reply_accepted:
  "accepting e \<Longrightarrow> send_reply e s b w = (Some (Inr ()), w \<lparr> ew_sent := ew_sent w @ [Start s, Body b] \<rparr>)"
  by (simp add: accepting_def send_reply_def bindW_def send_event_def)

lemma error_doc_dumps:
  "json_dumps env (error_doc c rid i) = (if has_frozen_map i then Inl (PyError ''TypeError'')
     else Inr (map of_nat (ascii_text env (error_doc c rid i))))"
  by (simp add: json_dumps_def error_doc_def)

lemma error_reply_accepted:
  "accepting e \<Longrightarrow> error_reply e c st PNone w =
     (Some (Inr ()), w \<lparr> ew_sent := ew_sent w @ [Start (case st of None \<Rightarrow> fst (wire_shape c) | Some s \<Rightarrow> s),
        Body (map of_nat (ascii_text (e_py e) (error_doc c (e_rid e) PNone)))] \<rparr>)"
  by (simp add: error_reply_def bindW_def giveW_def error_doc_dumps send_reply_accepted)

text \<open>How a part of the dispatch may leave the edge: answered, or about to be.\<close>

definition settles :: "'w edge_world \<Rightarrow> unit result option \<Rightarrow> 'w edge_world \<Rightarrow> bool" where
  "settles w r w' \<longleftrightarrow> ew_slots w' = ew_slots w
     \<and> (r = Some (Inr ()) \<and> (\<exists>s b. replied s b w w')
        \<or> (\<exists>ex. r = Some (Inl ex) \<and> ex \<noteq> Cancelled \<and> ew_sent w' = ew_sent w))"

lemma settles_reply: "accepting e \<Longrightarrow> error_reply e c st i w = (r, w') \<Longrightarrow> settles w r w'"
  by (cases "has_frozen_map i")
    (auto simp: error_reply_def bindW_def giveW_def error_doc_dumps send_reply_accepted settles_def replied_def)

lemma jsonrpc_id_error: "jsonrpc_id env b = Inl ex \<Longrightarrow> ex = PyError ''RecursionError''"
  by (auto simp: jsonrpc_id_def split: sum.splits jexc.splits)

lemma settles_reply_id: "accepting e \<Longrightarrow> error_with_id e c b w = (r, w') \<Longrightarrow> settles w r w'"
proof (cases "jsonrpc_id (e_py e) b")
  case (Inl ex)
  then show "error_with_id e c b w = (r, w') \<Longrightarrow> settles w r w'"
    using jsonrpc_id_error [OF Inl] by (auto simp: error_with_id_def bindW_def giveW_def settles_def)
next
  case (Inr i)
  then show "accepting e \<Longrightarrow> error_with_id e c b w = (r, w') \<Longrightarrow> settles w r w'"
    by (auto simp: error_with_id_def bindW_def giveW_def settles_reply)
qed

definition handler_returns :: "'w edge \<Rightarrow> bool" where
  "handler_returns e \<longleftrightarrow> e_gone e \<or> (\<forall>env i. fst (e_handler e False env i) \<noteq> Some (Inl Cancelled))"

lemma watched:
  assumes "handler_returns e" "within (run_watching e env) w = (r, w')"
  shows "ew_slots w' = ew_slots w \<and> ew_sent w' = ew_sent w
    \<and> ((\<exists>out. r = Some (Inr out)) \<or> (\<exists>ex. r = Some (Inl ex) \<and> ex \<noteq> Cancelled))"
proof -
  obtain q i where q: "e_handler e (e_gone e) env (ew_inner w) = (q, i)" by (cases "e_handler e (e_gone e) env (ew_inner w)")
  have "\<not> e_gone e \<Longrightarrow> q \<noteq> Some (Inl Cancelled)"
    using assms(1) q by (auto simp: handler_returns_def) (metis fst_conv)
  then show ?thesis
    using assms(2) q
    by (cases q; cases "e_gone e"; cases "the q") (auto simp: within_def run_watching_def)
qed

lemma serve_slot_settles:
  assumes "accepting e" "handler_returns e" "serve_slot e sc b w = (r, w')"
  shows "ew_slots w' = Suc (ew_slots w)
    \<and> ((\<exists>out. r = Some (Inr (Some out))) \<and> ew_sent w' = ew_sent w
       \<or> r = Some (Inr None) \<and> (\<exists>s b. replied s b w w')
       \<or> (\<exists>ex. r = Some (Inl ex) \<and> ex \<noteq> Cancelled \<and> ew_sent w' = ew_sent w))"
proof -
  obtain q w1 where q: "within (run_watching e (envelope e sc b)) w = (q, w1)"
    by (cases "within (run_watching e (envelope e sc b)) w")
  note w1 = watched [OF assms(2) q]
  have reply: "finallyW (bindW (error_with_id e c b) (\<lambda>_. giveW (Inr None))) release w1 = (r, w') \<Longrightarrow>
      ew_slots w' = Suc (ew_slots w1) \<and> (r = Some (Inr None) \<and> (\<exists>s b. replied s b w1 w')
        \<or> (\<exists>ex. r = Some (Inl ex) \<and> ex \<noteq> Cancelled \<and> ew_sent w' = ew_sent w1))" for c
  proof -
    obtain q2 w2 where e: "error_with_id e c b w1 = (q2, w2)" by (cases "error_with_id e c b w1")
    show "finallyW (bindW (error_with_id e c b) (\<lambda>_. giveW (Inr None))) release w1 = (r, w') \<Longrightarrow> ?thesis"
      using settles_reply_id [OF assms(1) e] e
      by (auto simp: finallyW_def bindW_def giveW_def release_def settles_def replied_def split: option.splits)
  qed
  show ?thesis
  proof (cases "\<exists>out. q = Some (Inr out)")
    case True
    then show ?thesis using assms(3) q w1 by (auto simp: serve_slot_def finallyW_def tryW_def bindW_def giveW_def release_def)
  next
    case False
    then obtain ex where ex: "q = Some (Inl ex)" "ex \<noteq> Cancelled" using w1 by blast
    obtain c where "serve_slot e sc b w = finallyW (bindW (error_with_id e c b) (\<lambda>_. giveW (Inr None))) release w1"
      using q ex by (cases ex) (auto simp: serve_slot_def finallyW_def tryW_def bindW_def)
    then show ?thesis using reply assms(3) w1 by (auto simp: replied_def)
  qed
qed

lemma reads_quietly:
  assumes "within (read_body e) w = (r, w')"
  shows "ew_slots w' = ew_slots w \<and> ew_sent w' = ew_sent w \<and> ew_inner w' = ew_inner w
    \<and> (case r of None \<Rightarrow> False | Some (Inr b) \<Rightarrow> int (length b) \<le> edge_max_message_bytes (e_cfg e)
       | Some (Inl ex) \<Rightarrow> ex \<noteq> Cancelled)"
proof -
  obtain q ms where q: "read_chunks (edge_max_message_bytes (e_cfg e)) [] 0 (ew_incoming w) = (q, ms)"
    by (cases "read_chunks (edge_max_message_bytes (e_cfg e)) [] 0 (ew_incoming w)")
  have err: "q' = Some (Inl ex) \<Longrightarrow> read_chunks l cs n ms' = (q', ms'') \<Longrightarrow> ex \<noteq> Cancelled" for l cs n ms' q' ms'' ex
    by (induction l cs n ms' rule: read_chunks.induct) (auto simp: Let_def split: if_splits)
  have "w' = w \<lparr> ew_incoming := ms \<rparr>" "r = (case q of None \<Rightarrow> Some (Inl TimeoutError) | Some x \<Rightarrow> Some x)"
    using assms q by (auto simp: within_def read_body_def split: option.splits)
  moreover have "case q of Some (Inr b) \<Rightarrow> int (length b) \<le> edge_max_message_bytes (e_cfg e) | _ \<Rightarrow> True"
    using q by (auto simp: read_chunks_Inr_iff split: option.splits sum.splits)
  ultimately show ?thesis using err [OF _ q] by (auto split: option.splits sum.splits)
qed

lemma acquires:
  assumes "within acquire w = (r, w')"
  shows "w' = w \<and> r = Some (Inl TimeoutError) \<and> ew_slots w = 0
    \<or> r = Some (Inr ()) \<and> (\<exists>n. ew_slots w = Suc n \<and> w' = w \<lparr> ew_slots := n \<rparr>)"
  using assms by (auto simp: within_def acquire_def split: nat.splits)

lemma answers:
  assumes "accepting e" "within (bindW (giveW (json_dumps (e_py e) v)) (\<lambda>b. send_reply e 200 b)) w = (r, w')"
  shows "settles w r w'"
  using assms by (cases "json_dumps (e_py e) v")
    (auto simp: within_def bindW_def giveW_def send_reply_accepted settles_def replied_def json_dumps_def split: if_splits)

lemma dispatch_settles:
  assumes "accepting e" "handler_returns e" "dispatch e sc w = (r, w')"
  shows "settles w r w'"
proof -
  obtain q1 w1 where 1: "within (read_body e) w = (q1, w1)" by (cases "within (read_body e) w")
  note r1 = reads_quietly [OF 1]
  let ?rest = "\<lambda>b. bindW (within acquire) (\<lambda>_. bindW (serve_slot e sc b) (\<lambda>result.
      case result of None \<Rightarrow> giveW (Inr ()) | Some out \<Rightarrow>
        within (bindW (giveW (json_dumps (e_py e) (unwrap out))) (\<lambda>body. send_reply e 200 body))))"
  have rest: "settles w r w'" if "?rest b w1 = (r, w')" for b
  proof -
    obtain q2 w2 where 2: "within acquire w1 = (q2, w2)" by (cases "within acquire w1")
    show ?thesis
    proof (cases "ew_slots w1")
      case 0
      then show ?thesis using acquires [OF 2] that 2 r1 by (auto simp: bindW_def settles_def)
    next
      case (Suc n)
      then have w2: "q2 = Some (Inr ())" "w2 = w1 \<lparr> ew_slots := n \<rparr>" using acquires [OF 2] by auto
      obtain q3 w3 where 3: "serve_slot e sc b w2 = (q3, w3)" by (cases "serve_slot e sc b w2")
      note r3 = serve_slot_settles [OF assms(1,2) 3]
      have slots: "ew_slots w3 = ew_slots w" using r3 w2 Suc r1 by simp
      have sent: "ew_sent w2 = ew_sent w" using w2 r1 by simp
      from r3 consider out where "q3 = Some (Inr (Some out))" "ew_sent w3 = ew_sent w2"
        | s d where "q3 = Some (Inr None)" "replied s d w2 w3"
        | ex where "q3 = Some (Inl ex)" "ex \<noteq> Cancelled" "ew_sent w3 = ew_sent w2" by blast
      then show ?thesis
      proof cases
        case 1
        then have "within (bindW (giveW (json_dumps (e_py e) (unwrap out))) (\<lambda>body. send_reply e 200 body)) w3 = (r, w')"
          using that 2 3 w2(1) by (simp add: bindW_def)
        from answers [OF assms(1) this] show ?thesis using slots sent 1(2) by (auto simp: settles_def replied_def)
      next
        case 2
        then show ?thesis using that \<open>within acquire w1 = (q2, w2)\<close> 3 w2(1) slots sent
          by (auto simp: bindW_def giveW_def settles_def replied_def)
      next
        case 3
        then show ?thesis using that 2 \<open>serve_slot e sc b w2 = (q3, w3)\<close> w2(1) slots sent
          by (auto simp: bindW_def settles_def)
      qed
    qed
  qed
  show ?thesis
  proof (cases "sc_method sc = u ''POST'' \<and> sc_path sc = Some (edge_mcp_path (e_cfg e)) \<and> origin_ok (e_cfg e) (pairs (sc_headers sc))")
    case True
    then have d: "bindW (within (read_body e)) ?rest w = (r, w')" using assms(3) by (simp add: dispatch_def)
    show ?thesis
    proof (cases q1)
      case None
      then show ?thesis using r1 by simp
    next
      case (Some x)
      then show ?thesis using d 1 r1 rest by (cases x) (auto simp: bindW_def settles_def)
    qed
  next
    case False
    then show ?thesis using assms(3) settles_reply [OF assms(1)] by (auto simp: dispatch_def split: if_splits)
  qed
qed

text \<open>
  C11: every HTTP request gets exactly one response and gives its slot back (BRIDGE-004,
  BRIDGE-006), whatever the request, the handler or the decoder do, a handler that never returns
  included: as long as the server takes what is sent and nobody cancels the application from
  outside.
\<close>

theorem one_response:
  assumes "sc_type sc = ''http''" "accepting e" "handler_returns e"
  shows "\<exists>w' status b. edge_call e sc w = (Some (Inr ()), w') \<and> ew_sent w' = ew_sent w @ [Start status, Body b]
    \<and> ew_slots w' = ew_slots w"
proof -
  obtain r1 w1 where 1: "dispatch e sc w = (r1, w1)" by (cases "dispatch e sc w")
  obtain r2 w2 where 2: "edge_handle e sc w = (r2, w2)" by (cases "edge_handle e sc w")
  note s1 = dispatch_settles [OF assms(2,3) 1]
  have s2: "settles w r2 w2"
    using s1 2 1 by (auto simp: edge_handle_def tryW_def giveW_def settles_def replied_def
        error_reply_accepted [OF assms(2)] split: if_splits)
  then show ?thesis
    using assms(1) 2
    by (fastforce simp: edge_call_def tryW_def giveW_def settles_def replied_def error_reply_accepted [OF assms(2)]
        split: exc.splits)
qed

section \<open>No success without the handler\<close>

text \<open>What \<open>m\<close> may send, from the state it starts in.\<close>

definition sends_only :: "(sent \<Rightarrow> bool) \<Rightarrow> ('w, 'a) edge_step \<Rightarrow> bool" where
  "sends_only P m \<longleftrightarrow> (\<forall>w. \<exists>evs. ew_sent (snd (m w)) = ew_sent w @ evs \<and> (\<forall>x \<in> set evs. P x))"

lemma sends_onlyD: "sends_only P m \<Longrightarrow> m w = (r, w') \<Longrightarrow> \<exists>evs. ew_sent w' = ew_sent w @ evs \<and> (\<forall>x \<in> set evs. P x)"
  unfolding sends_only_def by (drule spec [of _ w]) simp

lemma sends_only_give: "sends_only P (giveW r)"
  by (simp add: sends_only_def giveW_def)

lemma sends_only_event: "P x \<Longrightarrow> sends_only P (send_event e x)"
  unfolding sends_only_def
proof
  fix w :: "'a edge_world" assume "P x"
  then show "\<exists>evs. ew_sent (snd (send_event e x w)) = ew_sent w @ evs \<and> (\<forall>x \<in> set evs. P x)"
    by (cases "e_send e (ew_sent w) x"; cases "the (e_send e (ew_sent w) x)")
      (auto simp: send_event_def intro: exI [of _ "[]"] exI [of _ "[x]"])
qed

lemma sends_only_bind:
  assumes "sends_only P m" "\<And>x. sends_only P (f x)"
  shows "sends_only P (bindW m f)"
  unfolding sends_only_def
proof
  fix w
  obtain r w1 where m: "m w = (r, w1)" by (cases "m w")
  from sends_onlyD [OF assms(1) this] obtain evs where evs: "ew_sent w1 = ew_sent w @ evs" "\<forall>x \<in> set evs. P x" by blast
  show "\<exists>evs. ew_sent (snd (bindW m f w)) = ew_sent w @ evs \<and> (\<forall>x \<in> set evs. P x)"
  proof (cases "\<exists>x. r = Some (Inr x)")
    case True
    then obtain x where x: "r = Some (Inr x)" by blast
    obtain r2 w2 where "f x w1 = (r2, w2)" by (cases "f x w1")
    with sends_onlyD [OF assms(2) this] obtain evs2 where "ew_sent w2 = ew_sent w1 @ evs2" "\<forall>x \<in> set evs2. P x" by blast
    then show ?thesis using m x evs \<open>f x w1 = (r2, w2)\<close>
      by (intro exI [of _ "evs @ evs2"]) (auto simp: bindW_def)
  next
    case False
    then have "snd (bindW m f w) = w1" using m by (auto simp: bindW_def split: option.splits sum.splits)
    then show ?thesis using evs by auto
  qed
qed

lemma sends_only_within: "sends_only P m \<Longrightarrow> sends_only P (within m)"
  unfolding sends_only_def within_def by (auto split: prod.splits option.splits) (metis snd_conv)+

lemma sends_only_try:
  assumes "sends_only P m" "\<And>ex. sends_only P (h ex)"
  shows "sends_only P (tryW m h)"
  unfolding sends_only_def
proof
  fix w
  obtain r w1 where m: "m w = (r, w1)" by (cases "m w")
  from sends_onlyD [OF assms(1) this] obtain evs where evs: "ew_sent w1 = ew_sent w @ evs" "\<forall>x \<in> set evs. P x" by blast
  show "\<exists>evs. ew_sent (snd (tryW m h w)) = ew_sent w @ evs \<and> (\<forall>x \<in> set evs. P x)"
  proof (cases "\<exists>ex. r = Some (Inl ex)")
    case True
    then obtain ex where x: "r = Some (Inl ex)" by blast
    obtain r2 w2 where "h ex w1 = (r2, w2)" by (cases "h ex w1")
    with sends_onlyD [OF assms(2) this] obtain evs2 where "ew_sent w2 = ew_sent w1 @ evs2" "\<forall>x \<in> set evs2. P x" by blast
    then show ?thesis using m x evs \<open>h ex w1 = (r2, w2)\<close>
      by (intro exI [of _ "evs @ evs2"]) (auto simp: tryW_def)
  next
    case False
    then have "snd (tryW m h w) = w1" using m by (auto simp: tryW_def split: option.splits sum.splits)
    then show ?thesis using evs by auto
  qed
qed

lemma sends_only_finally: "sends_only P m \<Longrightarrow> (\<And>w. ew_sent (c w) = ew_sent w) \<Longrightarrow> sends_only P (finallyW m c)"
  unfolding sends_only_def finallyW_def by (auto split: prod.splits option.splits) (metis snd_conv)+

text \<open>An error has a status of its own.\<close>

definition not_200 :: "sent \<Rightarrow> bool" where
  "not_200 x \<longleftrightarrow> x \<noteq> Start 200"

lemma error_reply_not_200: "st \<in> {None, Some 405, Some 404} \<Longrightarrow> sends_only not_200 (error_reply e c st i)"
proof -
  have "fst (wire_shape c) \<noteq> 200" using wire_shape_bounds [of c] by auto
  then show "st \<in> {None, Some 405, Some 404} \<Longrightarrow> sends_only not_200 (error_reply e c st i)"
    unfolding error_reply_def send_reply_def
    by (intro sends_only_bind sends_only_give sends_only_event) (auto simp: not_200_def)
qed

lemma error_with_id_not_200: "sends_only not_200 (error_with_id e c b)"
  unfolding error_with_id_def by (intro sends_only_bind sends_only_give error_reply_not_200) simp

lemma silent_not_200:
  "sends_only not_200 (read_body e)" "sends_only not_200 acquire" "sends_only not_200 (run_watching e env)"
  by (auto simp: sends_only_def read_body_def acquire_def run_watching_def split: prod.splits nat.splits option.splits)

lemma serve_slot_not_200: "sends_only not_200 (serve_slot e sc b)"
proof -
  have "sends_only not_200 (case ex of
             Denial st c \<Rightarrow> bindW (error_with_id e c b) (\<lambda>_. giveW (Inr None))
           | TimeoutError \<Rightarrow> bindW (error_with_id e ROUTE_TIMEOUT b) (\<lambda>_. giveW (Inr None))
           | Cancelled \<Rightarrow> giveW (Inl Cancelled)
           | _ \<Rightarrow> bindW (error_with_id e INTERNAL_ERROR b) (\<lambda>_. giveW (Inr None)))" for ex
    by (cases ex) (auto intro!: sends_only_bind sends_only_give error_with_id_not_200)
  then show ?thesis
    unfolding serve_slot_def
    by (intro sends_only_finally sends_only_try sends_only_bind sends_only_within sends_only_give silent_not_200)
      (auto simp: release_def)
qed

text \<open>The request passed the edge's checks, and the handler, run once, returned and left \<open>i\<close>.\<close>

definition handler_succeeded :: "'w edge \<Rightarrow> scope \<Rightarrow> 'w edge_world \<Rightarrow> 'w \<Rightarrow> bool" where
  "handler_succeeded e sc w i \<longleftrightarrow>
     sc_method sc = u ''POST'' \<and> sc_path sc = Some (edge_mcp_path (e_cfg e)) \<and> origin_ok (e_cfg e) (pairs (sc_headers sc))
   \<and> \<not> e_gone e \<and> (\<exists>b out body. int (length b) \<le> edge_max_message_bytes (e_cfg e)
       \<and> e_handler e False (envelope e sc b) (ew_inner w) = (Some (Inr out), i)
       \<and> json_dumps (e_py e) (unwrap out) = Inr body)"

definition quiet_or :: "bool \<Rightarrow> 'w edge_world \<Rightarrow> 'w edge_world \<Rightarrow> bool" where
  "quiet_or c w w' \<longleftrightarrow> c \<or> (\<exists>evs. ew_sent w' = ew_sent w @ evs \<and> (\<forall>x \<in> set evs. not_200 x))"

lemma quiet_or_send: "sends_only not_200 m \<Longrightarrow> m w = (r, w') \<Longrightarrow> quiet_or c w w'"
  unfolding quiet_or_def by (rule disjI2) (rule sends_onlyD)

lemma quiet_or_trans: "quiet_or c w w1 \<Longrightarrow> quiet_or c w1 w2 \<Longrightarrow> quiet_or c w w2"
  by (fastforce simp: quiet_or_def)

lemma quiet_or_refl: "quiet_or c w w"
  by (simp add: quiet_or_def)

lemma inner_event: "send_event e x w = (r, w') \<Longrightarrow> ew_inner w' = ew_inner w"
  by (auto simp: send_event_def split: option.splits sum.splits)

lemma inner_reply: "send_reply e s b w = (r, w') \<Longrightarrow> ew_inner w' = ew_inner w"
  by (auto simp: send_reply_def bindW_def split: prod.splits option.splits sum.splits dest!: inner_event)

lemma inner_within: "within (send_reply e s b) w = (r, w') \<Longrightarrow> ew_inner w' = ew_inner w"
  by (auto simp: within_def split: prod.splits option.splits dest!: inner_reply)

lemma inner_error: "error_reply e c st v w = (r, w') \<Longrightarrow> ew_inner w' = ew_inner w"
  by (auto simp: error_reply_def bindW_def giveW_def json_dumps_def split: if_splits dest!: inner_reply)

lemma serve_slot_out:
  assumes "serve_slot e sc b w = (Some (Inr (Some out)), w')"
  shows "\<not> e_gone e \<and> e_handler e False (envelope e sc b) (ew_inner w) = (Some (Inr out), ew_inner w')"
proof -
  obtain q i where q: "e_handler e (e_gone e) (envelope e sc b) (ew_inner w) = (q, i)"
    by (cases "e_handler e (e_gone e) (envelope e sc b) (ew_inner w)")
  have never: "bindW (error_with_id e c b) (\<lambda>_. giveW (Inr None)) w1 \<noteq> (Some (Inr (Some out)), w2)" for c w1 w2
    by (auto simp: bindW_def giveW_def split: prod.splits option.splits sum.splits)
  show ?thesis
  proof (cases "\<not> e_gone e \<and> (\<exists>x. q = Some (Inr x))")
    case True
    then show ?thesis using assms q
      by (auto simp: serve_slot_def finallyW_def tryW_def within_def run_watching_def bindW_def giveW_def release_def)
  next
    case False
    then obtain ex w1 where "within (run_watching e (envelope e sc b)) w = (Some (Inl ex), w1)"
      using q by (cases q; cases "the q"; cases "e_gone e") (auto simp: within_def run_watching_def)
    then have False using assms never
      by (cases ex) (auto simp: serve_slot_def finallyW_def tryW_def bindW_def [of "within _"] giveW_def split: prod.splits option.splits)
    then show ?thesis ..
  qed
qed

lemma dispatch_200:
  assumes "dispatch e sc w = (r, w')"
  shows "quiet_or (handler_succeeded e sc w (ew_inner w')) w w'"
proof (cases "sc_method sc = u ''POST'' \<and> sc_path sc = Some (edge_mcp_path (e_cfg e)) \<and> origin_ok (e_cfg e) (pairs (sc_headers sc))")
  case False
  then have "\<exists>c st i. st \<in> {None, Some 405, Some 404} \<and> error_reply e c st i w = (r, w')"
    using assms by (auto simp: dispatch_def split: if_splits)
  then show ?thesis using quiet_or_send [OF error_reply_not_200] by blast
next
  case True
  let ?c = "handler_succeeded e sc w (ew_inner w')"
  obtain q1 w1 where 1: "within (read_body e) w = (q1, w1)" by (cases "within (read_body e) w")
  note r1 = reads_quietly [OF 1]
  have sent1: "quiet_or ?c w w1" using r1 by (simp add: quiet_or_def)
  show ?thesis
  proof (cases "\<exists>b. q1 = Some (Inr b)")
    case False
    then show ?thesis using assms True 1 sent1
      by (auto simp: dispatch_def bindW_def split: option.splits sum.splits)
  next
    case b: True
    then obtain b where b: "q1 = Some (Inr b)" by blast
    obtain q2 w2 where 2: "within acquire w1 = (q2, w2)" by (cases "within acquire w1")
    have sent2: "quiet_or ?c w w2" "ew_inner w2 = ew_inner w"
      using acquires [OF 2] sent1 r1 by (auto simp: quiet_or_def)
    show ?thesis
    proof (cases "q2 = Some (Inr ())")
      case False
      then have "w' = w2" using assms True 1 b 2 acquires [OF 2] by (auto simp: dispatch_def bindW_def)
      then show ?thesis using sent2 by simp
    next
      case q2: True
      obtain q3 w3 where 3: "serve_slot e sc b w2 = (q3, w3)" by (cases "serve_slot e sc b w2")
      have sent3: "quiet_or ?c w w3"
        using quiet_or_trans [OF sent2(1) quiet_or_send [OF serve_slot_not_200 3]] .
      show ?thesis
      proof (cases "\<exists>out body. q3 = Some (Inr (Some out)) \<and> json_dumps (e_py e) (unwrap out) = Inr body")
        case True
        then obtain out body where out: "q3 = Some (Inr (Some out))" "json_dumps (e_py e) (unwrap out) = Inr body" by blast
        then have "within (send_reply e 200 body) w3 = (r, w')"
          using assms \<open>sc_method sc = _ \<and> _\<close> 1 b 2 q2 3 by (simp add: dispatch_def bindW_def giveW_def within_def)
        then have "ew_inner w' = ew_inner w3" by (rule inner_within)
        then have ?c
          using serve_slot_out [of e sc b w2 out w3] 3 sent2(2) \<open>sc_method sc = _ \<and> _\<close> True r1 b out(1)
          by (auto simp: handler_succeeded_def)
        then show ?thesis by (simp add: quiet_or_def)
      next
        case False
        then have "w' = w3"
          using assms \<open>sc_method sc = _ \<and> _\<close> 1 b 2 q2 3
          by (cases q3; cases "the q3")
            (auto simp: dispatch_def bindW_def giveW_def within_def split: option.splits sum.splits prod.splits)
        then show ?thesis using sent3 by simp
      qed
    qed
  qed
qed

text \<open>
  A client is told of success only when its request was: an HTTP 200 is sent only for a POST
  to the endpoint from an accepted origin, with a body within the limit, whose handler returned,
  and while the client had not gone away (RESP-005, BRIDGE-003, ROUTE-010). No error, no timeout
  and no defect of the edge itself produces one.
\<close>

lemma success_is_the_handlers:
  assumes "edge_call e sc w = (r, w')" "ew_sent w' = ew_sent w @ evs" "Start 200 \<in> set evs"
  shows "handler_succeeded e sc w (ew_inner w')"
proof -
  let ?c = "handler_succeeded e sc w (ew_inner w')"
  obtain r1 w1 where 1: "dispatch e sc w = (r1, w1)" by (cases "dispatch e sc w")
  obtain r2 w2 where 2: "edge_handle e sc w = (r2, w2)" by (cases "edge_handle e sc w")
  have reply: "error_reply e c None i v = (q, v') \<Longrightarrow> quiet_or ?c v v'" for c i v q v'
    by (rule quiet_or_send [OF error_reply_not_200]) simp_all
  have i1: "ew_inner w2 = ew_inner w1"
    using 1 2 by (auto simp: edge_handle_def tryW_def giveW_def split: option.splits sum.splits if_splits dest!: inner_error)
  have i2: "ew_inner w' = ew_inner w2 \<or> w' = w"
    using assms(1) 2
    by (auto simp: edge_call_def tryW_def giveW_def split: option.splits sum.splits if_splits exc.splits dest!: inner_error)
  have "quiet_or ?c w1 w2"
    using 1 2 reply
    by (auto simp: edge_handle_def tryW_def giveW_def quiet_or_refl split: option.splits sum.splits if_splits)
  moreover have "quiet_or ?c w2 w' \<or> w' = w"
    using assms(1) 2 reply
    by (auto simp: edge_call_def tryW_def giveW_def quiet_or_refl split: option.splits sum.splits if_splits exc.splits)
  ultimately have "quiet_or ?c w w'"
    using dispatch_200 [OF 1] i1 i2 quiet_or_trans quiet_or_refl by metis
  then show ?thesis using assms(2,3) by (auto simp: quiet_or_def not_200_def)
qed

section \<open>Where the edge falls short\<close>

text \<open>A request that passes the checks and whose body arrived.\<close>

definition arrives :: "'w edge \<Rightarrow> scope \<Rightarrow> bytes \<Rightarrow> 'w edge_world \<Rightarrow> bool" where
  "arrives e sc b w \<longleftrightarrow>
     sc_type sc = ''http'' \<and> sc_method sc = u ''POST'' \<and> sc_path sc = Some (edge_mcp_path (e_cfg e))
   \<and> origin_ok (e_cfg e) (pairs (sc_headers sc)) \<and> ew_incoming w = [Chunk b False]
   \<and> int (length b) \<le> edge_max_message_bytes (e_cfg e) \<and> ew_slots w \<noteq> 0"

lemma arrives_dispatch:
  assumes "arrives e sc b w" "ew_slots w = Suc n"
  shows "dispatch e sc w =
    bindW (serve_slot e sc b) (\<lambda>result. case result of None \<Rightarrow> giveW (Inr ())
      | Some out \<Rightarrow> within (bindW (giveW (json_dumps (e_py e) (unwrap out))) (\<lambda>body. send_reply e 200 body)))
    (w \<lparr> ew_incoming := [], ew_slots := n \<rparr>)"
  using assms by (auto simp: arrives_def dispatch_def bindW_def within_def read_body_def acquire_def)

text \<open>
  C30: an error response is sent without a deadline and while the slot is held. \<open>_handle\<close> promises
  that every phase is bounded, the response write included; but \<open>_error\<close> is awaited outside any
  \<open>fail_after\<close>, inside the \<^verbatim>\<open>try\<close> whose \<^verbatim>\<open>finally\<close> releases the slot. A client
  whose request is denied and that does not read the reply (which echoes its own \<open>id\<close>, of any
  size the body may have) keeps the request, and one of the \<open>max_concurrent_requests\<close> slots, for
  ever.
\<close>

theorem denied_reader_holds_slot:
  assumes "arrives e sc b w" "ew_slots w = Suc n" "\<not> e_gone e"
    and "e_handler e False (envelope e sc b) (ew_inner w) = (Some (Inl (Denial st c)), i)"
    and "jsonrpc_id (e_py e) b = Inr v" "\<not> has_frozen_map v"
    and "e_send e (ew_sent w) (Start (fst (wire_shape c))) = Some (Inr ())"
    and "\<And>d. e_send e (ew_sent w @ [Start (fst (wire_shape c))]) (Body d) = None"
  shows "\<exists>w'. edge_call e sc w = (None, w') \<and> ew_slots w' = n"
proof -
  let ?w = "w \<lparr> ew_incoming := [], ew_slots := n \<rparr>"
  have "within (run_watching e (envelope e sc b)) ?w = (Some (Inl (Denial st c)), ?w \<lparr> ew_inner := i \<rparr>)"
    using assms(3,4) by (simp add: within_def run_watching_def)
  moreover have "error_with_id e c b (?w \<lparr> ew_inner := i \<rparr>) = (None, ?w \<lparr> ew_inner := i, ew_sent := ew_sent w @ [Start (fst (wire_shape c))] \<rparr>)"
    using assms(5-8) by (simp add: error_with_id_def error_reply_def bindW_def giveW_def error_doc_dumps send_reply_def send_event_def)
  ultimately have "dispatch e sc w = (None, ?w \<lparr> ew_inner := i, ew_sent := ew_sent w @ [Start (fst (wire_shape c))] \<rparr>)"
    using arrives_dispatch [OF assms(1,2)]
    by (simp add: serve_slot_def finallyW_def tryW_def bindW_def)
  then show ?thesis using assms(1) by (simp add: edge_call_def edge_handle_def tryW_def arrives_def)
qed

lemma decode_brackets:
  assumes "4 \<le> n"
  shows "json_decode_bytes (replicate n 91) = Some (replicate n 91)"
proof -
  obtain m where "n = 4 + m" using assms by (metis le_iff_add)
  then have n: "replicate n 91 = [91, 91, 91, 91] @ replicate m (91 :: nat)" by (simp add: numeral_eq_Suc)
  have "utf8_dec True (replicate k 91) = Some (replicate k 91)" for k
    by (induction k) (simp_all add: utf8_dec.simps)
  from this [of n] show ?thesis unfolding json_decode_bytes_def n by (simp add: starts_with_Cons)
qed

lemma deep_id:
  assumes "recursion_limit env < n" "4 \<le> n"
  shows "jsonrpc_id env (replicate n 91) = Inl (PyError ''RecursionError'')"
proof -
  have "skip_ws (replicate n 91) = replicate n (91 :: nat)" using assms(2) by (cases n) (simp_all add: skip_ws_hd is_ws_def)
  moreover have "scan_once h pc (recursion_limit env) (2 * n + 2) 0 (replicate n 91) = Inl RecursionError" for h :: "(ustr \<times> pyval) list \<Rightarrow> unit + pyval" and pc
    using assms by (intro scan_brackets) auto
  ultimately have "json_decode h pc (recursion_limit env) (replicate n 91) = Inl RecursionError" for h :: "(ustr \<times> pyval) list \<Rightarrow> unit + pyval" and pc
    by (simp add: json_decode_def)
  then show ?thesis using decode_brackets [OF assms(2)] by (simp add: jsonrpc_id_def loads_def json_loads_def)
qed

text \<open>
  a body nested deeper than the interpreter's recursion limit loses its reason code. Stage 02
  denies it by the byte prescan (PROTO-013) and the record says so, but the edge then parses the
  same body again to recover the \<open>id\<close>; that \<open>RecursionError\<close> escapes the handler it is raised in,
  and the client is told \<open>INTERNAL_ERROR\<close> for whatever denial the request met.
\<close>

lemma deep_body_masks_denial:
  assumes "arrives e sc (replicate n 91) w" "accepting e" "\<not> e_gone e"
    and "recursion_limit (e_py e) < n" "4 \<le> n"
    and "e_handler e False (envelope e sc (replicate n 91)) (ew_inner w) = (Some (Inl (Denial st c)), i)"
  shows "\<exists>w'. edge_call e sc w = (Some (Inr ()), w')
    \<and> ew_sent w' = ew_sent w @ [Start 500, Body (map of_nat (ascii_text (e_py e) (error_doc INTERNAL_ERROR (e_rid e) PNone)))]"
proof -
  obtain k where k: "ew_slots w = Suc k" using assms(1) by (auto simp: arrives_def gr0_conv_Suc)
  let ?w = "w \<lparr> ew_incoming := [], ew_slots := k \<rparr>"
  have "within (run_watching e (envelope e sc (replicate n 91))) ?w = (Some (Inl (Denial st c)), ?w \<lparr> ew_inner := i \<rparr>)"
    using assms(3,6) by (simp add: within_def run_watching_def)
  then have "dispatch e sc w = (Some (Inl (PyError ''RecursionError'')), release (?w \<lparr> ew_inner := i \<rparr>))"
    using arrives_dispatch [OF assms(1) k] deep_id [OF assms(4,5)]
    by (simp add: serve_slot_def finallyW_def tryW_def bindW_def error_with_id_def giveW_def)
  moreover have "fst (wire_shape INTERNAL_ERROR) = 500" by code_simp
  ultimately show ?thesis
    using assms(1) by (simp add: edge_call_def edge_handle_def tryW_def arrives_def giveW_def
        error_reply_accepted [OF assms(2)] release_def)
qed

section \<open>Examples\<close>

definition demo_scope :: scope where
  "demo_scope = \<lparr> sc_type = ''http'', sc_method = u ''POST'', sc_path = Some (u ''/mcp''), sc_headers = [] \<rparr>"

text \<open>A handler that denies, or returns an empty object; a client that reads, or only the first event.\<close>

definition demo_edge :: "bool \<Rightarrow> bool \<Rightarrow> unit edge" where
  "demo_edge reads denies =
     \<lparr> e_cfg = cfg_edge demo_config, e_py = plain_env \<lparr> recursion_limit := 3 \<rparr>,
       e_send = (\<lambda>evs x. if reads \<or> evs = [] then Some (Inr ()) else None),
       e_rid = u ''r'', e_now_ns = 0, e_gone = False,
       e_handler = (\<lambda>gone env i. (Some (if denies then Inl (Denial PROTOCOL PROTO_LIMIT_EXCEEDED)
          else Inr (Untrusted (PObj Mut []))), i)) \<rparr>"

definition demo_ew :: "bytes \<Rightarrow> unit edge_world" where
  "demo_ew b = \<lparr> ew_inner = (), ew_incoming = [Chunk b False], ew_slots = 1, ew_sent = [] \<rparr>"

lemma demo_edge_facts:
  "accepting (demo_edge True d)" "handler_returns (demo_edge x d)" "length b \<le> 1000 \<Longrightarrow> arrives (demo_edge x d) demo_scope b (demo_ew b)"
  by (auto simp: accepting_def handler_returns_def arrives_def demo_edge_def demo_scope_def demo_ew_def demo_config_def
      origin_ok_def pairs_def)

theorem one_response_witness:
  "\<exists>w' status b. edge_call (demo_edge True True) demo_scope (demo_ew [1]) = (Some (Inr ()), w')
     \<and> ew_sent w' = [Start status, Body b] \<and> ew_slots w' = 1"
  using one_response [of demo_scope "demo_edge True True" "demo_ew [1]"] demo_edge_facts
  by (simp add: demo_scope_def demo_ew_def)

theorem denied_reader_holds_slot_witness:
  "\<exists>w'. edge_call (demo_edge False True) demo_scope (demo_ew (map of_nat (u ''{}''))) = (None, w') \<and> ew_slots w' = 0"
proof -
  let ?b = "map of_nat (u ''{}'') :: bytes"
  have id: "jsonrpc_id (e_py (demo_edge False True)) ?b = Inr PNone" by code_simp
  have a: "arrives (demo_edge False True) demo_scope ?b (demo_ew ?b)" by (rule demo_edge_facts(3)) simp
  show ?thesis
    by (rule denied_reader_holds_slot [OF a _ _ _ id, where i = "()"]) (simp_all add: demo_edge_def demo_ew_def)
qed

lemma deep_body_masks_denial_witness:
  "\<exists>w' b. edge_call (demo_edge True True) demo_scope (demo_ew (replicate 5 91)) = (Some (Inr ()), w')
     \<and> ew_sent w' = [Start 500, Body b]"
proof -
  have a: "arrives (demo_edge True True) demo_scope (replicate 5 91) (demo_ew (replicate 5 91))"
    by (rule demo_edge_facts(3)) simp
  have "\<exists>w'. edge_call (demo_edge True True) demo_scope (demo_ew (replicate 5 91)) = (Some (Inr ()), w')
    \<and> ew_sent w' = ew_sent (demo_ew (replicate 5 91)) @ [Start 500, Body (map of_nat
        (ascii_text (e_py (demo_edge True True)) (error_doc INTERNAL_ERROR (e_rid (demo_edge True True)) PNone)))]"
    by (rule deep_body_masks_denial [OF a demo_edge_facts(1), where i = "()"]) (simp_all add: demo_edge_def)
  then show ?thesis by (auto simp: demo_ew_def)
qed

end
