(* ===== verification/Gateway_Service.thy ===== *)
theory Gateway_Service
  imports Request_Lifecycle Edge
begin

text \<open>
  The gateway as a client meets it: the edge of \<open>gateway/edge.py\<close> with \<open>pipeline.handle\<close> as its
  handler, as \<open>build_app(cfg.edge, partial(handle, deps=deps))\<close> wires them.
\<close>

section \<open>The application\<close>

text \<open>
  \<open>p True\<close> is the environment of a request whose client goes away: what the cancellation
  interrupts is in its \<open>g_interrupt\<close> and its upstream answers.
\<close>

definition handler_of :: "(bool \<Rightarrow> 's pipeline_env) \<Rightarrow> bool \<Rightarrow> raw_envelope \<Rightarrow> ('s world, pyval untrusted) wait" where
  "handler_of p gone raw w = (case handle (p gone) raw w of (r, w') \<Rightarrow> (Some r, w'))"

text \<open>The server's side is taken from \<open>srv\<close>.\<close>

definition build_app ::
    "'w edge \<Rightarrow> edge_config \<Rightarrow> (bool \<Rightarrow> raw_envelope \<Rightarrow> ('w, pyval untrusted) wait) \<Rightarrow> 'w edge" where
  "build_app srv cfg handler = srv \<lparr> e_cfg := cfg, e_handler := handler \<rparr>"

section \<open>What a success means\<close>

text \<open>
  C8: HTTP 200 is the end of a chain that nothing can skip. If the application sends it, then the
  client posted to the endpoint from an accepted origin and had not gone away, all five stages
  admitted exactly the request that was in its body with an allow, and the last thing that
  happened inside the gateway is that the audit sink took the one record of this request, under
  the id the edge gave it, with outcome allowed (BRIDGE-003, AUDIT-001, RESP-005).
\<close>

theorem success_is_recorded:
  assumes "edge_call (build_app srv cfg (handler_of p)) sc w = (r, w')"
    and "ew_sent w' = ew_sent w @ evs" "Start 200 \<in> set evs"
  shows "\<not> e_gone srv \<and> sc_method sc = u ''POST'' \<and> sc_path sc = Some (edge_mcp_path cfg)
    \<and> origin_ok cfg (pairs (sc_headers sc))
    \<and> (\<exists>b req ctx tgt drv dec es ev. int (length b) \<le> edge_max_message_bytes cfg
        \<and> admitted (p False) (envelope srv sc b) req ctx tgt drv dec
        \<and> w_trace (ew_inner w') = w_trace (ew_inner w) @ es @ [Recorded (Request_event ev)]
        \<and> no_request es \<and> rv_request_id ev = e_rid srv \<and> rv_outcome ev = Out_allowed)"
proof -
  let ?e = "build_app srv cfg (handler_of p)"
  from success_is_the_handlers [OF assms]
  obtain b out where s: "sc_method sc = u ''POST''" "sc_path sc = Some (edge_mcp_path cfg)"
    "origin_ok cfg (pairs (sc_headers sc))" "\<not> e_gone srv" "int (length b) \<le> edge_max_message_bytes cfg"
    "handler_of p False (envelope ?e sc b) (ew_inner w) = (Some (Inr out), ew_inner w')"
    by (auto simp: handler_succeeded_def build_app_def)
  have env: "envelope ?e sc b = envelope srv sc b" by (simp add: envelope_def build_app_def)
  have h: "handle (p False) (envelope srv sc b) (ew_inner w) = (Inr out, ew_inner w')"
    using s(6) by (auto simp: handler_of_def env split: prod.splits)
  from handle_life [OF h] obtain es ev r0 where life: "stage_effects (p False) (envelope srv sc b) r0 es"
    "rv_request_id ev = raw_request_id (envelope srv sc b)" "event_closes (settled (g_deadline (p False)) r0) ev"
    "Inr out = settled (g_deadline (p False)) r0
       \<and> w_trace (ew_inner w') = w_trace (ew_inner w) @ es @ [Recorded (Request_event ev)]
     \<or> (\<exists>e s s'. g_write (p False) (Request_event ev) s = (Inl e, s') \<and> Inr out = (Inl e :: pyval untrusted result)
       \<and> w_trace (ew_inner w') = w_trace (ew_inner w) @ es)" by blast
  then have told: "settled (g_deadline (p False)) r0 = Inr out"
    "w_trace (ew_inner w') = w_trace (ew_inner w) @ es @ [Recorded (Request_event ev)]" by simp_all
  then have r0: "r0 = Inr out" by simp
  then obtain req ctx tgt drv dec where "admitted (p False) (envelope srv sc b) req ctx tgt drv dec"
    using life(1) unfolding stage_effects_def by auto
  moreover have "no_request es" using life(1) by (rule stage_effects_no_request)
  moreover have "rv_outcome ev = Out_allowed"
    using life(3) told(1) by (simp add: event_closes_allowed)
  ultimately show ?thesis
    using s(1-5) life(2) [unfolded envelope_def raw_envelope.simps] told(2) by blast
qed

section \<open>An application to run\<close>

definition service_scope :: scope where
  "service_scope = \<lparr> sc_type = ''http'', sc_method = u ''POST'', sc_path = Some (u ''/mcp''),
     sc_headers = map (\<lambda>(k, v). (map of_nat k, map of_nat v)) (raw_metadata (read_raw ''a/f'')) \<rparr>"

definition service_world :: "(audit_record list) world edge_world" where
  "service_world = \<lparr> ew_inner = fresh_world, ew_incoming = [Chunk (raw_body (read_raw ''a/f'')) False], ew_slots = 1, ew_sent = [] \<rparr>"

definition a_server :: "(audit_record list) world edge" where
  "a_server = \<lparr> e_cfg = cfg_edge demo_config, e_py = plain_env, e_send = (\<lambda>_ _. Some (Inr ())),
     e_rid = u ''r7'', e_now_ns = 0, e_gone = False, e_handler = (\<lambda>_ _ w. (None, w)) \<rparr>"

abbreviation service :: "(audit_record list) world edge" where
  "service \<equiv> build_app a_server (cfg_edge demo_config) (handler_of (\<lambda>_. demo_pipeline True False))"

lemma service_arrives: "arrives service service_scope (raw_body (read_raw ''a/f'')) service_world"
  "envelope service service_scope (raw_body (read_raw ''a/f'')) = read_raw ''a/f''"
  by code_simp+

lemma service_answers:
  "\<exists>w' body. edge_call service service_scope service_world = (Some (Inr ()), w') \<and> ew_sent w' = [Start 200, Body body]"
proof -
  obtain w1 where h: "handle (demo_pipeline True False) (read_raw ''a/f'') fresh_world = (Inr demo_out, w1)"
    using demo_run by blast
  have dumps: "json_dumps plain_env (unwrap demo_out) = Inr (map of_nat (ascii_text plain_env (unwrap demo_out)))"
    by code_simp
  have w: "ew_slots service_world = Suc 0" "ew_inner service_world = fresh_world" "ew_sent service_world = []"
    "\<not> e_gone service" "e_py service = plain_env" "e_send service = (\<lambda>_ _. Some (Inr ()))"
    "e_handler service = handler_of (\<lambda>_. demo_pipeline True False)"
    by (simp_all add: service_world_def a_server_def build_app_def)
  have "sc_type service_scope = ''http''" by (simp add: service_scope_def)
  then show ?thesis
    using h w dumps
    by (simp add: edge_call_def edge_handle_def arrives_dispatch [OF service_arrives(1) w(1)] serve_slot_def tryW_def
        finallyW_def bindW_def within_def run_watching_def handler_of_def service_arrives(2) giveW_def release_def
        send_reply_def send_event_def)
qed

theorem success_is_recorded_witness:
  "\<exists>w' es ev. edge_call service service_scope service_world = (Some (Inr ()), w')
     \<and> w_trace (ew_inner w') = w_trace fresh_world @ es @ [Recorded (Request_event (ev :: request_event))]
     \<and> rv_request_id ev = u ''r7'' \<and> rv_outcome ev = Out_allowed"
proof -
  obtain w' body where "edge_call service service_scope service_world = (Some (Inr ()), w')" "ew_sent w' = [Start 200, Body body]"
    using service_answers by blast
  then have "ew_sent w' = ew_sent service_world @ [Start 200, Body body]" by (simp add: service_world_def)
  from success_is_recorded [OF \<open>edge_call _ _ _ = _\<close> this] show ?thesis
    
    using \<open>edge_call _ _ _ = _\<close> by (auto simp: service_world_def a_server_def)
qed

end
