(* ===== verification/Startup.thy ===== *)
theory Startup
  imports Policy_Broker Upstream_Bridge Audit_Event Gateway_Effects
begin

text \<open>
  \<open>gateway/startup.py\<close>: the order in which the gateway comes up and goes down. The files, OPA, the
  child and the audit sink's operations are arguments; the trace of the state records what was
  done, in order.
\<close>

section \<open>The sequence\<close>

datatype startup_effect =
    Sink_opened
  | Wrote audit_record
  | Config_published
  | Bundle_checked
  | Child_spawned
  | Serving registry ustr
  | Child_stopped
  | Client_closed
  | Sink_closed

record 's startup_world =
  sw_sink :: 's
  sw_tick :: nat
  sw_trace :: "startup_effect list"

type_synonym ('s, 'a) startup_step = "('s startup_world, 'a) act"

text \<open>
  \<open>su_spawn\<close>: what \<open>stdio_client\<close> raises, if anything; \<open>su_listed\<close>: the dumped tools of
  \<open>up.list_tools()\<close>; \<open>su_serve\<close>: the block under the \<^verbatim>\<open>async with serve(...)\<close>.
\<close>

record 's startup_env =
  su_py :: pyenv
  su_lib :: schema_lib
  su_ver :: pyver
  su_fs :: fsys
  su_cwd :: path
  su_toml :: "ustr \<Rightarrow> toml_file"
  su_typed :: "pyval \<Rightarrow> config option"
  su_typed_servers :: "pyval \<Rightarrow> server_entry list option"
  su_clock :: "nat \<Rightarrow> int"
  su_open :: "config \<Rightarrow> ('s, unit) act"
  su_write :: "config \<Rightarrow> audit_record \<Rightarrow> ('s, unit) act"
  su_close :: "'s \<Rightarrow> 's"
  su_bundle :: "(ustr \<times> bytes) list"
  su_put :: "ustr \<Rightarrow> pyval \<Rightarrow> reply"
  su_get :: "ustr \<Rightarrow> reply"
  su_spawn :: "py_exc option"
  su_discover :: "unit result"
  su_initialize :: "unit result"
  su_in_time :: bool
  su_listed :: "pyval list result"
  su_serve :: "registry \<Rightarrow> ustr \<Rightarrow> ('s, unit) act"

definition load_all :: "'s startup_env \<Rightarrow> ustr \<Rightarrow> (config \<times> registry) result" where
  "load_all e p =
     bindR (load (su_typed e) (su_toml e) p) (\<lambda>cfg.
     bindR (self_check (su_ver e) (su_fs e) (su_cwd e) cfg (Some p)) (\<lambda>_.
     bindR (load_registry (su_py e) (su_lib e) (su_typed_servers e) (su_toml e) (cfg_registry_path cfg)) (\<lambda>reg.
     Inr (cfg, reg))))"

definition check_protocol_version :: "registry \<Rightarrow> config \<Rightarrow> unit result" where
  "check_protocol_version reg cfg =
     raise_if (se_expected_protocol_version (reg_server reg) \<notin> set (prt_supported_versions (cfg_protocol cfg))) ConfigError"

definition did :: "startup_effect \<Rightarrow> ('s, unit) startup_step" where
  "did x = modA (\<lambda>w. w \<lparr> sw_trace := sw_trace w @ [x] \<rparr>)"

definition now :: "'s startup_env \<Rightarrow> ('s, int) startup_step" where
  "now e w = (Inr (su_clock e (sw_tick w)), w \<lparr> sw_tick := Suc (sw_tick w) \<rparr>)"

definition on_sink :: "('s, 'a) act \<Rightarrow> ('s, 'a) startup_step" where
  "on_sink m = zoomA sw_sink (\<lambda>s w. w \<lparr> sw_sink := s \<rparr>) m"

definition written :: "'s startup_env \<Rightarrow> config \<Rightarrow> audit_record \<Rightarrow> ('s, unit) startup_step" where
  "written e cfg r = bindA (on_sink (su_write e cfg r)) (\<lambda>_. did (Wrote r))"

definition lifecycle :: "'s startup_env \<Rightarrow> config \<Rightarrow> lifecycle_kind \<Rightarrow> (ustr \<times> ustr) list \<Rightarrow> ('s, unit) startup_step" where
  "lifecycle e cfg kind detail =
     bindA (now e) (\<lambda>ts. written e cfg (Lifecycle_event \<lparr> le_ts = ts, le_kind = kind, le_detail = detail \<rparr>))"

definition quarantined_text :: "registry \<Rightarrow> ustr" where
  "quarantined_text reg =
     (let names = join_with [44] (sort (map fst (quarantined reg))) in if names = [] then u ''none'' else names)"

definition ready_detail :: "registry \<Rightarrow> ustr \<Rightarrow> (ustr \<times> ustr) list" where
  "ready_detail reg revision =
     [(u ''server_id'', se_id (reg_server reg)), (u ''approved_tools'', nat_text (length (reg_tools reg))),
      (u ''quarantined'', quarantined_text reg), (u ''policy_revision'', revision)]"

text \<open>The block inside \<open>bridge.upstream\<close>, up to and including the caller's own.\<close>

definition verified_then_serve :: "'s startup_env \<Rightarrow> config \<Rightarrow> registry \<Rightarrow> ustr \<Rightarrow> ('s, unit) startup_step" where
  "verified_then_serve e cfg reg revision =
     bindA (liftA (su_listed e)) (\<lambda>advertised.
     bindA (liftA (verify_schemas (su_py e) reg advertised)) (\<lambda>(reg', events).
     bindA (forA (\<lambda>ev. written e cfg (Drift_event ev)) events) (\<lambda>_.
     bindA (lifecycle e cfg K_ready (ready_detail reg' revision)) (\<lambda>_.
     bindA (did (Serving reg' revision)) (\<lambda>_.
     on_sink (su_serve e reg' revision))))))"

text \<open>\<open>bridge.upstream\<close> around a block: spawn, handshake, and the translation of what is raised.\<close>

definition with_upstream :: "'s startup_env \<Rightarrow> ('s, unit) startup_step \<Rightarrow> ('s, unit) startup_step" where
  "with_upstream e block =
     (case su_spawn e of
        Some x \<Rightarrow> raiseA (upstream_exit x)
      | None \<Rightarrow>
          bindA (did Child_spawned) (\<lambda>_.
          tryA (finallyA (bindA (liftA (connect (su_discover e) (su_initialize e) (su_in_time e))) (\<lambda>_. block))
                  (did Child_stopped))
            (\<lambda>ex. raiseA (upstream_exit (Single ex)))))"

definition checked_policy :: "'s startup_env \<Rightarrow> config \<Rightarrow> ustr \<Rightarrow> ('s, unit) startup_step" where
  "checked_policy e cfg revision =
     tryA (bindA (liftA (publish_config (su_put e) cfg)) (\<lambda>_.
           bindA (did Config_published) (\<lambda>_.
           bindA (liftA (check_bundle (su_get e) revision)) (\<lambda>_.
           did Bundle_checked))))
       (\<lambda>ex. bindA (did Client_closed) (\<lambda>_. raiseA ex))"

definition with_sink :: "'s startup_env \<Rightarrow> ustr \<Rightarrow> config \<Rightarrow> registry \<Rightarrow> ('s, unit) startup_step" where
  "with_sink e p cfg reg =
     bindA (tryA (lifecycle e cfg K_startup [(u ''config'', p)])
              (\<lambda>ex. raiseA (if ex = PyError ''OSError'' then ConfigError else ex))) (\<lambda>_.
     bindA (liftA (bundle_revision (su_py e) (su_bundle e))) (\<lambda>revision.
     bindA (checked_policy e cfg revision) (\<lambda>_.
     finallyA
       (bindA (with_upstream e (verified_then_serve e cfg reg revision)) (\<lambda>_.
        lifecycle e cfg K_shutdown []))
       (did Client_closed))))"

definition serve :: "'s startup_env \<Rightarrow> ustr \<Rightarrow> ('s, unit) startup_step" where
  "serve e p =
     bindA (liftA (load_all e p)) (\<lambda>(cfg, reg).
     bindA (liftA (check_protocol_version reg cfg)) (\<lambda>_.
     bindA (on_sink (su_open e cfg)) (\<lambda>_.
     bindA (did Sink_opened) (\<lambda>_.
     finallyA (with_sink e p cfg reg)
       (bindA (modA (\<lambda>w. w \<lparr> sw_sink := su_close e (sw_sink w) \<rparr>)) (\<lambda>_. did Sink_closed))))))"

section \<open>What each part does\<close>

abbreviation does :: "('a result \<Rightarrow> startup_effect list \<Rightarrow> bool) \<Rightarrow> ('s, 'a) startup_step \<Rightarrow> bool" where
  "does \<equiv> emits sw_trace"

lemma does_did: "does (\<lambda>r es. r = Inr () \<and> es = [x]) (did x)"
  by (simp add: emits_def did_def)

lemma does_on_sink: "does (\<lambda>r es. es = []) (on_sink m)"
  by (auto simp: emits_def on_sink_def zoomA_def split: prod.splits)

lemma does_now: "does (\<lambda>r es. (\<exists>ts. r = Inr ts) \<and> es = []) (now e)"
  by (simp add: emits_def now_def)

lemma does_written: "does (\<lambda>r es. es = (if isl r then [] else [Wrote rec])) (written e cfg rec)"
  unfolding written_def
  by (rule emits_bind [OF does_on_sink]) (auto intro: emits_mono [OF does_did])

definition marks :: "lifecycle_kind \<Rightarrow> (ustr \<times> ustr) list \<Rightarrow> startup_effect \<Rightarrow> bool" where
  "marks kind detail x \<longleftrightarrow> (\<exists>ts. x = Wrote (Lifecycle_event \<lparr> le_ts = ts, le_kind = kind, le_detail = detail \<rparr>))"

lemma does_lifecycle:
  "does (\<lambda>r es. if isl r then es = [] else \<exists>x. es = [x] \<and> marks kind detail x) (lifecycle e cfg kind detail)"
  unfolding lifecycle_def
  by (rule emits_bind [OF does_now]) (auto simp: marks_def intro!: emits_mono [OF does_written])

lemma does_drifts:
  "does (\<lambda>r es. \<exists>n. es = map (\<lambda>ev. Wrote (Drift_event ev)) (take n evs) \<and> (\<not> isl r \<longrightarrow> n = length evs))
     (forA (\<lambda>ev. written e cfg (Drift_event ev)) evs)"
proof (induction evs)
  case Nil
  show ?case unfolding forA.simps by (rule emits_ret) simp
next
  case (Cons ev evs)
  show ?case unfolding forA.simps
  proof (rule emits_bind [OF does_written], goal_cases)
    case (1 ex es)
    then show ?case by (intro exI [of _ 0]) simp
  next
    case (2 x es)
    then have es: "es = [Wrote (Drift_event ev)]" by auto
    show ?case
    proof (rule emits_mono [OF Cons.IH], elim exE conjE)
      fix r :: "unit result" and es' n
      assume "es' = map (\<lambda>ev. Wrote (Drift_event ev)) (take n evs)" "\<not> isl r \<longrightarrow> n = length evs"
      then show "\<exists>n. es @ es' = map (\<lambda>ev. Wrote (Drift_event ev)) (take n (ev # evs)) \<and> (\<not> isl r \<longrightarrow> n = length (ev # evs))"
        by (intro exI [of _ "Suc n"]) (auto simp: es)
    qed
  qed
qed

text \<open>The block under the child: how far it got, and what that took.\<close>

definition verified :: "'s startup_env \<Rightarrow> registry \<Rightarrow> ustr \<Rightarrow> startup_effect list \<Rightarrow> bool" where
  "verified e reg revision es \<longleftrightarrow>
     (\<exists>advs reg' drifts. su_listed e = Inr advs \<and> verify_schemas (su_py e) reg advs = Inr (reg', drifts)
       \<and> (\<exists>n. es = map (\<lambda>ev. Wrote (Drift_event ev)) (take n drifts)
          \<or> (\<exists>x. es = map (\<lambda>ev. Wrote (Drift_event ev)) drifts @ [x, Serving reg' revision]
               \<and> marks K_ready (ready_detail reg' revision) x)))"

lemma does_block: "does (\<lambda>r es. es = [] \<or> verified e reg revision es) (verified_then_serve e cfg reg revision)"
  unfolding verified_then_serve_def
proof (intro emits_lift_bind, goal_cases)
  case (3 advs p)
  obtain reg' drifts where p: "p = (reg', drifts)" by (cases p)
  let ?U = "\<lambda>r es. es = [] \<or> verified e reg revision es"
  have part: "?U r (map (\<lambda>ev. Wrote (Drift_event ev)) (take n drifts))" for n and r :: "unit result"
    using 3 by (auto simp: verified_def p)
  have full: "?U r (map (\<lambda>ev. Wrote (Drift_event ev)) drifts @ [x, Serving reg' revision])"
    if "marks K_ready (ready_detail reg' revision) x" for x and r :: "unit result"
    using 3 that by (auto simp: verified_def p)
  show ?case unfolding p prod.case
  proof (rule emits_bind [OF does_drifts], goal_cases)
    case (1 ex es)
    then show ?case using part by blast
  next
    case (2 x es)
    then have es: "es = map (\<lambda>ev. Wrote (Drift_event ev)) drifts" by auto
    show ?case
    proof (rule emits_bind [OF does_lifecycle], goal_cases)
      case (1 ex es')
      then show ?case using part [of "length drifts"] es by simp
    next
      case (2 y es')
      then obtain x where x: "es' = [x]" "marks K_ready (ready_detail reg' revision) x" by auto
      show ?case
        using full [OF x(2)] by (intro emits_bind [OF does_did]) (auto simp: es x(1) intro!: emits_mono [OF does_on_sink])
    qed
  qed
qed auto

text \<open>The child is stopped whatever its block did.\<close>

definition childed :: "'s startup_env \<Rightarrow> registry \<Rightarrow> ustr \<Rightarrow> startup_effect list \<Rightarrow> bool" where
  "childed e reg revision es \<longleftrightarrow>
     es = [] \<or> (\<exists>v. es = Child_spawned # v @ [Child_stopped]
       \<and> (v = [] \<or> connect (su_discover e) (su_initialize e) (su_in_time e) = Inr () \<and> verified e reg revision v))"

lemma does_upstream:
  "does (\<lambda>r es. childed e reg revision es \<and> (es = [] \<longrightarrow> isl r)) (with_upstream e (verified_then_serve e cfg reg revision))"
proof (cases "su_spawn e")
  case (Some x)
  then show ?thesis by (auto simp: with_upstream_def childed_def intro!: emits_raise)
next
  case None
  let ?P = "\<lambda>v. v = [] \<or> connect (su_discover e) (su_initialize e) (su_in_time e) = Inr () \<and> verified e reg revision v"
  have inner: "does (\<lambda>r v. ?P v) (bindA (liftA (connect (su_discover e) (su_initialize e) (su_in_time e)))
      (\<lambda>_. verified_then_serve e cfg reg revision))"
    by (intro emits_lift_bind) (auto intro!: emits_mono [OF does_block])
  have "does (\<lambda>r v. \<exists>v0. v = v0 @ [Child_stopped] \<and> ?P v0)
      (finallyA (bindA (liftA (connect (su_discover e) (su_initialize e) (su_in_time e)))
        (\<lambda>_. verified_then_serve e cfg reg revision)) (did Child_stopped))"
    by (rule emits_finally [OF inner]) (auto intro!: emits_mono [OF does_did])
  note tried = emits_try [OF this]
  show ?thesis
    unfolding with_upstream_def None option.case
    by (rule emits_bind [OF does_did], simp, rule tried) (auto simp: childed_def intro!: emits_raise)
qed

definition policied :: "'s startup_env \<Rightarrow> config \<Rightarrow> ustr \<Rightarrow> bool" where
  "policied e cfg revision \<longleftrightarrow> publish_config (su_put e) cfg = Inr () \<and> check_bundle (su_get e) revision = Inr ()"

lemma does_policy:
  "does (\<lambda>r es. if isl r then es \<in> {[Client_closed], [Config_published, Client_closed]}
       else es = [Config_published, Bundle_checked] \<and> policied e cfg revision) (checked_policy e cfg revision)"
proof -
  have "does (\<lambda>r es. if isl r then es \<in> {[], [Config_published]}
       else es = [Config_published, Bundle_checked] \<and> policied e cfg revision)
     (bindA (liftA (publish_config (su_put e) cfg)) (\<lambda>_. bindA (did Config_published) (\<lambda>_.
      bindA (liftA (check_bundle (su_get e) revision)) (\<lambda>_. did Bundle_checked))))"
    by (intro emits_lift_bind emits_bind [OF does_did]) (auto simp: policied_def intro!: emits_mono [OF does_did])
  note tried = emits_try [OF this]
  show ?thesis
    unfolding checked_policy_def
    by (rule tried) (auto intro!: emits_bind [OF does_did] emits_raise)
qed

text \<open>What follows the startup record.\<close>

definition after_startup :: "'s startup_env \<Rightarrow> config \<Rightarrow> registry \<Rightarrow> startup_effect list \<Rightarrow> bool" where
  "after_startup e cfg reg rest \<longleftrightarrow>
     (case bundle_revision (su_py e) (su_bundle e) of
        Inl _ \<Rightarrow> rest = []
      | Inr revision \<Rightarrow>
          rest \<in> {[Client_closed], [Config_published, Client_closed]}
        \<or> (\<exists>c sh. policied e cfg revision
            \<and> rest = [Config_published, Bundle_checked] @ c @ sh @ [Client_closed]
            \<and> childed e reg revision c \<and> (sh = [] \<or> c \<noteq> [] \<and> (\<exists>y. sh = [y] \<and> marks K_shutdown [] y))))"

definition sinked :: "'s startup_env \<Rightarrow> ustr \<Rightarrow> config \<Rightarrow> registry \<Rightarrow> startup_effect list \<Rightarrow> bool" where
  "sinked e p cfg reg es \<longleftrightarrow>
     es = [] \<or> (\<exists>x rest. es = x # rest \<and> marks K_startup [(u ''config'', p)] x \<and> after_startup e cfg reg rest)"

lemma does_with_sink: "does (\<lambda>r es. sinked e p cfg reg es) (with_sink e p cfg reg)"
proof -
  have up: "does (\<lambda>r es. \<exists>c sh. es = c @ sh \<and> childed e reg revision c
        \<and> (sh = [] \<or> c \<noteq> [] \<and> (\<exists>y. sh = [y] \<and> marks K_shutdown [] y)))
      (bindA (with_upstream e (verified_then_serve e cfg reg revision)) (\<lambda>_. lifecycle e cfg K_shutdown []))" for revision
  proof (rule emits_bind [OF does_upstream], goal_cases)
    case (1 ex es)
    then show ?case by (intro exI [of _ es] exI [of _ "[]"]) simp
  next
    case (2 x es)
    then have "childed e reg revision es" "es \<noteq> []" by auto
    then show ?case
      by (intro emits_mono [OF does_lifecycle] exI [of _ es] exI conjI refl) (auto split: if_splits)
  qed
  have child: "does (\<lambda>r es. after_startup e cfg reg ([Config_published, Bundle_checked] @ es))
      (finallyA (bindA (with_upstream e (verified_then_serve e cfg reg revision)) (\<lambda>_. lifecycle e cfg K_shutdown []))
        (did Client_closed))"
    if "bundle_revision (su_py e) (su_bundle e) = Inr revision" "policied e cfg revision" for revision
  proof (rule emits_finally [OF up], rule emits_mono [OF does_did], elim exE conjE)
    fix es c sh and r r' :: "unit result" and es'
    assume "es = c @ sh" "childed e reg revision c" "sh = [] \<or> c \<noteq> [] \<and> (\<exists>y. sh = [y] \<and> marks K_shutdown [] y)"
      "es' = [Client_closed]"
    then show "after_startup e cfg reg ([Config_published, Bundle_checked] @ es @ es')"
      unfolding after_startup_def using that by simp blast
  qed
  have rest: "does (\<lambda>r es. after_startup e cfg reg es) (bindA (liftA (bundle_revision (su_py e) (su_bundle e))) (\<lambda>revision.
      bindA (checked_policy e cfg revision) (\<lambda>_.
      finallyA (bindA (with_upstream e (verified_then_serve e cfg reg revision)) (\<lambda>_. lifecycle e cfg K_shutdown []))
        (did Client_closed))))"
  proof (intro emits_lift_bind, goal_cases)
    case (2 revision)
    then have closed: "after_startup e cfg reg [Client_closed]" "after_startup e cfg reg [Config_published, Client_closed]"
      by (simp_all add: after_startup_def)
    show ?case by (rule emits_bind [OF does_policy]) (use closed in \<open>auto intro!: emits_mono [OF child [OF 2]]\<close>)
  qed (simp add: after_startup_def)
  note tried = emits_try [OF does_lifecycle [of K_startup "[(u ''config'', p)]" e cfg]]
  have start: "does (\<lambda>r es. if isl r then es = [] else \<exists>x. es = [x] \<and> marks K_startup [(u ''config'', p)] x)
      (tryA (lifecycle e cfg K_startup [(u ''config'', p)])
        (\<lambda>ex. raiseA (if ex = PyError ''OSError'' then ConfigError else ex)))"
    by (rule tried) (auto intro!: emits_raise)
  show ?thesis
    unfolding with_sink_def
  proof (rule emits_bind [OF start], goal_cases)
    case (1 ex es)
    then show ?case by (simp add: sinked_def)
  next
    case (2 x es)
    then obtain y where "es = [y]" "marks K_startup [(u ''config'', p)] y" by auto
    then show ?case by (intro emits_mono [OF rest]) (simp add: sinked_def)
  qed
qed

lemma does_serve:
  "does (\<lambda>r es. es = [] \<or> (\<exists>cfg reg mid. load_all e p = Inr (cfg, reg) \<and> check_protocol_version reg cfg = Inr ()
      \<and> es = Sink_opened # mid @ [Sink_closed] \<and> sinked e p cfg reg mid)) (serve e p)"
  unfolding serve_def
proof (rule emits_lift_bind, simp, goal_cases)
  case (1 x)
  obtain cfg reg where x: "x = (cfg, reg)" by (cases x)
  have close: "does (\<lambda>r es. r = Inr () \<and> es = [Sink_closed])
      (bindA (modA (\<lambda>w. w \<lparr> sw_sink := su_close e (sw_sink w) \<rparr>)) (\<lambda>_. did Sink_closed))"
    by (simp add: emits_def bindA_def did_def)
  have body: "does (\<lambda>r es. \<exists>mid. es = mid @ [Sink_closed] \<and> sinked e p cfg reg mid)
      (finallyA (with_sink e p cfg reg) (bindA (modA (\<lambda>w. w \<lparr> sw_sink := su_close e (sw_sink w) \<rparr>)) (\<lambda>_. did Sink_closed)))"
    by (rule emits_finally [OF does_with_sink], rule emits_mono [OF close]) auto
  show ?case
    unfolding x prod.case
  proof (rule emits_lift_bind, simp, rule emits_bind [OF does_on_sink], simp, goal_cases)
    case (1 v y es)
    then show ?case
      using \<open>load_all e p = Inr x\<close> x
      by (intro emits_bind [OF does_did] emits_mono [OF body]) auto
  qed
qed

section \<open>Properties\<close>

lemma serving_not_marked [simp]: "\<not> marks k d (Serving reg rv)" "\<not> marks k d Child_spawned" "\<not> marks k d Child_stopped"
  by (simp_all add: marks_def)

lemma serving_block:
  assumes "childed e reg0 rev0 c" "Serving reg revision \<in> set c"
  shows "rev0 = revision \<and> connect (su_discover e) (su_initialize e) (su_in_time e) = Inr ()
    \<and> (\<exists>advs drifts y. su_listed e = Inr advs \<and> verify_schemas (su_py e) reg0 advs = Inr (reg, drifts)
        \<and> c = Child_spawned # map (\<lambda>ev. Wrote (Drift_event ev)) drifts @ [y, Serving reg revision, Child_stopped]
        \<and> marks K_ready (ready_detail reg revision) y)"
  using assms by (auto simp: childed_def verified_def)

lemma sinked_serving:
  assumes "sinked e p cfg reg0 mid" "Serving reg revision \<in> set mid"
  shows "\<exists>x c sh. mid = [x, Config_published, Bundle_checked] @ c @ sh @ [Client_closed]
    \<and> marks K_startup [(u ''config'', p)] x \<and> bundle_revision (su_py e) (su_bundle e) = Inr revision
    \<and> policied e cfg revision \<and> childed e reg0 revision c \<and> Serving reg revision \<in> set c
    \<and> (sh = [] \<or> (\<exists>y. sh = [y] \<and> marks K_shutdown [] y))"
proof -
  obtain x rest where mid: "mid = x # rest" "marks K_startup [(u ''config'', p)] x" "after_startup e cfg reg0 rest"
    using assms by (auto simp: sinked_def)
  then have "Serving reg revision \<in> set rest" using assms(2) by auto
  with mid(3) obtain rev0 c sh where r: "bundle_revision (su_py e) (su_bundle e) = Inr rev0" "policied e cfg rev0"
    "rest = [Config_published, Bundle_checked] @ c @ sh @ [Client_closed]" "childed e reg0 rev0 c"
    "sh = [] \<or> c \<noteq> [] \<and> (\<exists>y. sh = [y] \<and> marks K_shutdown [] y)"
    unfolding after_startup_def by (auto split: sum.splits)
  have "Serving reg revision \<in> set c" using \<open>Serving reg revision \<in> set rest\<close> r(3,5) by auto
  with serving_block [OF r(4)] r mid show ?thesis
    by (intro exI [of _ x] exI [of _ c] exI [of _ sh]) auto
qed

text \<open>
  C9: the gateway serves only what it has checked, in the one safe order (REG-006, REG-009,
  POLICY-010, POLICY-014, AUDIT-010, BRIDGE-008). When the caller's block runs, the configuration
  and the registry were valid, the upstream's protocol version is one stage 02 accepts, the
  startup record was written before OPA was told anything, the bundle OPA serves is the one on
  disk, the child was spawned after that and completed its handshake in time, every advertised
  tool was verified and every drift record written before the ready record; the registry served
  is the sealed one.
\<close>

theorem ready_only_after_checks:
  assumes "serve e p w = (r, w')" "sw_trace w' = sw_trace w @ es" "Serving reg revision \<in> set es"
  shows "\<exists>cfg reg0 advs drifts x y rest. load_all e p = Inr (cfg, reg0)
    \<and> se_expected_protocol_version (reg_server reg0) \<in> set (prt_supported_versions (cfg_protocol cfg))
    \<and> bundle_revision (su_py e) (su_bundle e) = Inr revision
    \<and> publish_config (su_put e) cfg = Inr () \<and> check_bundle (su_get e) revision = Inr ()
    \<and> connect (su_discover e) (su_initialize e) (su_in_time e) = Inr ()
    \<and> su_listed e = Inr advs \<and> verify_schemas (su_py e) reg0 advs = Inr (reg, drifts) \<and> reg_sealed reg
    \<and> es = [Sink_opened, x, Config_published, Bundle_checked, Child_spawned]
          @ map (\<lambda>ev. Wrote (Drift_event ev)) drifts @ [y, Serving reg revision, Child_stopped] @ rest
    \<and> marks K_startup [(u ''config'', p)] x \<and> marks K_ready (ready_detail reg revision) y"
proof -
  from emitsD [OF does_serve assms(1)] assms(2,3) obtain cfg reg0 mid where
    l: "load_all e p = Inr (cfg, reg0)" "check_protocol_version reg0 cfg = Inr ()"
    "es = Sink_opened # mid @ [Sink_closed]" "sinked e p cfg reg0 mid" by auto
  then have "Serving reg revision \<in> set mid" using assms(3) by auto
  from sinked_serving [OF l(4) this] obtain x c sh where
    m: "mid = [x, Config_published, Bundle_checked] @ c @ sh @ [Client_closed]" "marks K_startup [(u ''config'', p)] x"
      "bundle_revision (su_py e) (su_bundle e) = Inr revision" "policied e cfg revision" "childed e reg0 revision c"
      "Serving reg revision \<in> set c" by blast
  from serving_block [OF m(5,6)] obtain advs drifts y where
    b: "connect (su_discover e) (su_initialize e) (su_in_time e) = Inr ()" "su_listed e = Inr advs"
      "verify_schemas (su_py e) reg0 advs = Inr (reg, drifts)"
      "c = Child_spawned # map (\<lambda>ev. Wrote (Drift_event ev)) drifts @ [y, Serving reg revision, Child_stopped]"
      "marks K_ready (ready_detail reg revision) y" by blast
  have "reg_sealed reg" using b(3) by (auto simp: verify_schemas_def mapR_Inr_iff Let_def)
  moreover have "se_expected_protocol_version (reg_server reg0) \<in> set (prt_supported_versions (cfg_protocol cfg))"
    using l(2) by (simp add: check_protocol_version_def raise_if_Inr_iff)
  ultimately show ?thesis
    using l(1,3) m b
    by (intro exI [of _ cfg] exI [of _ reg0] exI [of _ advs] exI [of _ drifts] exI [of _ x] exI [of _ y]
        exI [of _ "sh @ [Client_closed, Sink_closed]"]) (simp add: policied_def)
qed

text \<open>
  C10: whatever fails, and wherever, everything that was opened is closed, in reverse order: the
  sink last, exactly once. The OPA client exists as soon as the startup record is written and the
  bundle on disk has a revision; from then on it is closed, exactly once and last before the sink,
  whether publishing, the bundle check, the child or the caller's block failed. A child that was
  spawned is stopped before both, and no child is stopped that was not spawned.
\<close>

definition torn_down :: "startup_effect list \<Rightarrow> bool" where
  "torn_down m \<longleftrightarrow> Client_closed \<notin> set m
     \<and> (if Child_spawned \<in> set m
        then \<exists>a v z. m = a @ [Child_spawned] @ v @ [Child_stopped] @ z
          \<and> Child_spawned \<notin> set (a @ v @ z) \<and> Child_stopped \<notin> set (a @ v @ z)
        else Child_stopped \<notin> set m)"

lemma after_startup_torn_down:
  assumes "after_startup e cfg reg rest" "bundle_revision (su_py e) (su_bundle e) = Inr revision" "marks K_startup d x"
  shows "\<exists>m. rest = m @ [Client_closed] \<and> torn_down (x # m)"
proof -
  have plain: "z \<notin> {Client_closed, Child_spawned, Child_stopped}" if "marks k d z" for k d z
    using that by (auto simp: marks_def)
  from assms(1,2) consider "rest = [Client_closed]" | "rest = [Config_published, Client_closed]"
    | c sh where "rest = [Config_published, Bundle_checked] @ c @ sh @ [Client_closed]" "childed e reg revision c"
        "sh = [] \<or> (\<exists>y. sh = [y] \<and> marks K_shutdown [] y)"
    unfolding after_startup_def by auto
  then show ?thesis
  proof cases
    case 1
    then show ?thesis using plain [OF assms(3)] by (intro exI [of _ "[]"]) (auto simp: torn_down_def)
  next
    case 2
    then show ?thesis using plain [OF assms(3)] by (intro exI [of _ "[Config_published]"]) (auto simp: torn_down_def)
  next
    case 3
    have sh: "set sh \<inter> {Client_closed, Child_spawned, Child_stopped} = {}"
      using 3(3) plain [of K_shutdown "[]"] by fastforce
    show ?thesis
    proof (cases "c = []")
      case True
      then show ?thesis using 3(1) sh plain [OF assms(3)]
        by (intro exI [of _ "[Config_published, Bundle_checked] @ sh"]) (auto simp: torn_down_def)
    next
      case False
      with 3(2) obtain v where c: "c = Child_spawned # v @ [Child_stopped]" "v = [] \<or> verified e reg revision v"
        by (auto simp: childed_def)
      have v: "set v \<inter> {Client_closed, Child_spawned, Child_stopped} = {}"
        using c(2) plain [of K_ready] by (fastforce simp: verified_def)
      let ?a = "[x, Config_published, Bundle_checked]"
      have "x # [Config_published, Bundle_checked] @ c @ sh = ?a @ [Child_spawned] @ v @ [Child_stopped] @ sh" using c(1) by simp
      moreover have "Child_spawned \<notin> set (?a @ v @ sh) \<and> Child_stopped \<notin> set (?a @ v @ sh)"
        using sh v plain [OF assms(3)] by auto
      moreover have "Client_closed \<notin> set (x # [Config_published, Bundle_checked] @ c @ sh)"
        using sh v plain [OF assms(3)] c(1) by auto
      ultimately have "torn_down (x # [Config_published, Bundle_checked] @ c @ sh)"
        unfolding torn_down_def using c(1) by (metis in_set_conv_decomp append_Cons append_Nil)
      then show ?thesis using 3(1) by (intro exI [of _ "[Config_published, Bundle_checked] @ c @ sh"]) simp
    qed
  qed
qed

theorem teardown_complete:
  "case serve e p w of (r, w') \<Rightarrow> \<exists>es. sw_trace w' = sw_trace w @ es
     \<and> (es = [] \<or> (\<exists>mid. es = Sink_opened # mid @ [Sink_closed] \<and> Sink_closed \<notin> set mid
          \<and> (if mid = [] \<or> isl (bundle_revision (su_py e) (su_bundle e))
             then set mid \<inter> {Config_published, Child_spawned, Client_closed} = {}
             else \<exists>m. mid = m @ [Client_closed] \<and> torn_down m)))"
proof -
  obtain r w' where s: "serve e p w = (r, w')" by (cases "serve e p w")
  from emitsD [OF does_serve s] obtain es where es: "sw_trace w' = sw_trace w @ es"
    "es = [] \<or> (\<exists>cfg reg mid. load_all e p = Inr (cfg, reg) \<and> check_protocol_version reg cfg = Inr ()
      \<and> es = Sink_opened # mid @ [Sink_closed] \<and> sinked e p cfg reg mid)" by blast
  have shape: "Sink_closed \<notin> set mid \<and> (if mid = [] \<or> isl (bundle_revision (su_py e) (su_bundle e))
      then set mid \<inter> {Config_published, Child_spawned, Client_closed} = {}
      else \<exists>m. mid = m @ [Client_closed] \<and> torn_down m)" if sk: "sinked e p cfg reg mid" for cfg reg mid
  proof (cases "mid = []")
    case False
    then obtain x rest where r: "mid = x # rest" "marks K_startup [(u ''config'', p)] x" "after_startup e cfg reg rest"
      using sk by (auto simp: sinked_def)
    show ?thesis
    proof (cases "bundle_revision (su_py e) (su_bundle e)")
      case (Inl ex)
      then show ?thesis using r by (auto simp: after_startup_def marks_def)
    next
      case (Inr revision)
      have "Sink_closed \<notin> set mid"
        using r(2,3) Inr by (auto simp: r(1) after_startup_def childed_def verified_def marks_def)
      moreover from after_startup_torn_down [OF r(3) Inr r(2)] obtain m where "rest = m @ [Client_closed]" "torn_down (x # m)"
        by blast
      ultimately show ?thesis using r(1) Inr by (auto intro!: exI [of _ "x # m"])
    qed
  qed simp
  show ?thesis unfolding s prod.case using es shape by (intro exI [of _ es]) blast
qed

text \<open>
  A cancellation inside the block is not passed on: \<open>bridge.upstream\<close> catches \<open>BaseException\<close> and
  reports an unavailable upstream, and no shutdown record is written.
\<close>

lemma cancellation_reported_as_unavailable:
  "su_spawn e = None \<Longrightarrow> connect (su_discover e) (su_initialize e) (su_in_time e) = Inr () \<Longrightarrow>
   block = raiseA Cancelled \<Longrightarrow> fst (with_upstream e block w) = Inl (route_deny ROUTE_UPSTREAM_UNAVAILABLE)"
  by (simp add: with_upstream_def bindA_def did_def tryA_def finallyA_def upstream_exit_def is_denial_def)

text \<open>Conversely, when every check passes and the sink takes its records, the caller's block runs.\<close>

lemma all_written:
  assumes "\<And>rec s. fst (su_write e cfg rec s) = Inr ()"
  shows "does (\<lambda>r es. r = Inr ()) (written e cfg rec)" "does (\<lambda>r es. r = Inr ()) (lifecycle e cfg kind detail)"
    "does (\<lambda>r es. r = Inr ()) (forA (\<lambda>ev. written e cfg (Drift_event ev)) evs)"
proof -
  have w: "does (\<lambda>r es. r = Inr ()) (written e cfg rec)" for rec
    using assms by (auto simp: emits_def written_def bindA_def on_sink_def zoomA_def did_def split: prod.splits sum.splits)
      (metis Inl_Inr_False fst_conv)+
  then show "does (\<lambda>r es. r = Inr ()) (written e cfg rec)" .
  show "does (\<lambda>r es. r = Inr ()) (lifecycle e cfg kind detail)"
    unfolding lifecycle_def by (rule emits_bind [OF does_now]) (auto intro: emits_mono [OF w])
  show "does (\<lambda>r es. r = Inr ()) (forA (\<lambda>ev. written e cfg (Drift_event ev)) evs)"
  proof (induction evs)
    case Nil
    show ?case unfolding forA.simps by (rule emits_ret) simp
  next
    case (Cons ev evs)
    show ?case unfolding forA.simps by (rule emits_bind [OF w]) (use Cons.IH in simp_all)
  qed
qed

lemma bindA_lift: "bindA (liftA (Inr x)) f = f x"
  by (rule ext) (simp add: bindA_def)

lemma serves_when_checked:
  assumes "load_all e p = Inr (cfg, reg0)" "check_protocol_version reg0 cfg = Inr ()"
    and "\<And>s. fst (su_open e cfg s) = Inr ()" "\<And>rec s. fst (su_write e cfg rec s) = Inr ()"
    and "bundle_revision (su_py e) (su_bundle e) = Inr revision" "policied e cfg revision" "su_spawn e = None"
    and "connect (su_discover e) (su_initialize e) (su_in_time e) = Inr ()"
    and "su_listed e = Inr advs" "verify_schemas (su_py e) reg0 advs = Inr (reg, drifts)"
  shows "does (\<lambda>r es. Serving reg revision \<in> set es) (serve e p)"
proof -
  let ?S = "\<lambda>r es. Serving reg revision \<in> set es"
  note ok = all_written [of e cfg, OF assms(4)]
  have block: "does ?S (verified_then_serve e cfg reg0 revision)"
    unfolding verified_then_serve_def
    by (intro emits_lift_bind) (auto simp: assms(9,10) intro!: emits_bind [OF ok(3)] emits_bind [OF ok(2)] emits_bind [OF does_did]
        emits_mono [OF does_on_sink])
  have inner: "does ?S (bindA (liftA (connect (su_discover e) (su_initialize e) (su_in_time e))) (\<lambda>_. verified_then_serve e cfg reg0 revision))"
    by (intro emits_lift_bind) (auto simp: assms(8) block)
  have fin: "does ?S (finallyA (bindA (liftA (connect (su_discover e) (su_initialize e) (su_in_time e)))
      (\<lambda>_. verified_then_serve e cfg reg0 revision)) (did Child_stopped))"
    by (rule emits_finally [OF inner]) (auto intro!: emits_mono [OF does_did])
  have up: "does ?S (with_upstream e (verified_then_serve e cfg reg0 revision))"
    unfolding with_upstream_def assms(7) option.case
    by (rule emits_bind [OF does_did], simp, rule emits_try [OF fin]) (auto intro!: emits_raise)
  have shut: "does ?S (bindA (with_upstream e (verified_then_serve e cfg reg0 revision)) (\<lambda>_. lifecycle e cfg K_shutdown []))"
    by (rule emits_bind [OF up]) (auto intro!: emits_mono [OF does_lifecycle])
  have child: "does ?S (finallyA (bindA (with_upstream e (verified_then_serve e cfg reg0 revision)) (\<lambda>_. lifecycle e cfg K_shutdown []))
      (did Client_closed))"
    by (rule emits_finally [OF shut]) (auto intro!: emits_mono [OF does_did])
  have policy: "does (\<lambda>r es. r = Inr ()) (checked_policy e cfg revision)"
    using assms(6) by (simp add: emits_def checked_policy_def policied_def tryA_def bindA_def did_def)
  have start: "does (\<lambda>r es. r = Inr ()) (tryA (lifecycle e cfg K_startup [(u ''config'', p)])
      (\<lambda>ex. raiseA (if ex = PyError ''OSError'' then ConfigError else ex)))"
    by (rule emits_try [OF ok(2)]) auto
  have sink: "does ?S (with_sink e p cfg reg0)"
    unfolding with_sink_def assms(5) bindA_lift
    by (rule emits_bind [OF start], simp, rule emits_bind [OF policy], simp) (auto intro!: emits_mono [OF child])
  have opened: "does (\<lambda>r es. r = Inr ()) (on_sink (su_open e cfg))"
    using assms(3) by (auto simp: emits_def on_sink_def zoomA_def split: prod.splits) (metis fst_conv)
  have closed: "does ?S (finallyA (with_sink e p cfg reg0)
      (bindA (modA (\<lambda>w. w \<lparr> sw_sink := su_close e (sw_sink w) \<rparr>)) (\<lambda>_. did Sink_closed)))"
    by (rule emits_finally [OF sink]) (auto simp: emits_def bindA_def did_def)
  show ?thesis
    unfolding serve_def
    by (rule emits_lift_bind, simp add: assms(1))
      (auto simp: assms(1,2) intro!: emits_lift_bind emits_bind [OF opened] emits_bind [OF does_did] emits_mono [OF closed])
qed

section \<open>Examples\<close>

text \<open>A gateway whose child advertises the approved tool; the sink is the list of records.\<close>

definition demo_startup :: "(audit_record list) startup_env" where
  "demo_startup =
     \<lparr> su_py = plain_env, su_lib = demo_lib, su_ver = Py313, su_fs = demo_fs, su_cwd = [],
       su_toml = (\<lambda>_. Toml (PObj Mut [])), su_typed = (\<lambda>_. Some demo_config), su_typed_servers = (\<lambda>_. Some [demo_server]),
       su_clock = int, su_open = (\<lambda>_. retA ()), su_write = (\<lambda>_ r. modA (\<lambda>s. s @ [r])), su_close = id,
       su_bundle = [(u ''gateway/a.rego'', [1])], su_put = (\<lambda>_ _. Body PNone),
       su_get = bundle_get checked_data (u ''gateway/a.rego'' @ [0, 1]),
       su_spawn = None, su_discover = Inr (), su_initialize = Inr (), su_in_time = True,
       su_listed = Inr [demo_advert], su_serve = (\<lambda>_ _. retA ()) \<rparr>"

definition fresh_startup :: "(audit_record list) startup_world" where
  "fresh_startup = \<lparr> sw_sink = [], sw_tick = 0, sw_trace = [] \<rparr>"

lemma demo_checks:
  "load (\<lambda>_. Some demo_config) (\<lambda>_. Toml (PObj Mut [])) (u ''/etc/g.toml'') = Inr demo_config"
  "self_check Py313 demo_fs [] demo_config (Some (u ''/etc/g.toml'')) = Inr ()"
  "load_registry plain_env demo_lib (\<lambda>_. Some [demo_server]) (\<lambda>_. Toml (PObj Mut [])) (cfg_registry_path demo_config)
     = Inr (Registry demo_server)"
  "check_protocol_version (Registry demo_server) demo_config = Inr ()"
  "bundle_revision plain_env [(u ''gateway/a.rego'', [1])] = Inr (u ''gateway/a.rego'' @ [0, 1])"
  "publish_config (\<lambda>_ _. Body PNone) demo_config = Inr ()"
  "check_bundle (bundle_get checked_data (u ''gateway/a.rego'' @ [0, 1])) (u ''gateway/a.rego'' @ [0, 1]) = Inr ()"
  "verify_schemas plain_env (Registry demo_server) [demo_advert] = Inr (Registry demo_server \<lparr> reg_sealed := True \<rparr>, [])"
  by code_simp+

lemma demo_serves:
  "does (\<lambda>r es. Serving (Registry demo_server \<lparr> reg_sealed := True \<rparr>) (u ''gateway/a.rego'' @ [0, 1]) \<in> set es)
     (serve demo_startup (u ''/etc/g.toml''))"
  by (rule serves_when_checked [where advs = "[demo_advert]" and drifts = "[]"])
    (simp_all add: demo_checks(1,2,3,5) demo_checks(7) [unfolded One_nat_def] demo_startup_def load_all_def policied_def
      connect_def handshake_def, (rule demo_checks)+)

theorem ready_only_after_checks_witness:
  "\<exists>advs reg0 drifts. su_listed demo_startup = Inr advs
     \<and> verify_schemas (su_py demo_startup) reg0 advs = Inr (Registry demo_server \<lparr> reg_sealed := True \<rparr>, drifts)"
proof -
  obtain r w' where s: "serve demo_startup (u ''/etc/g.toml'') fresh_startup = (r, w')"
    by (cases "serve demo_startup (u ''/etc/g.toml'') fresh_startup")
  from emitsD [OF demo_serves s] obtain es where
    "sw_trace w' = sw_trace fresh_startup @ es"
    "Serving (Registry demo_server \<lparr> reg_sealed := True \<rparr>) (u ''gateway/a.rego'' @ [0, 1]) \<in> set es" by blast
  from ready_only_after_checks [OF s this] show ?thesis by blast
qed

end
