(* ===== verification/Audit_Sink.thy ===== *)
theory Audit_Sink
  imports Policy_Broker Audit_Event Gateway_Effects
begin

text \<open>
  \<open>AuditSink\<close>, \<open>read_events\<close> and \<open>completeness\<close> of \<open>gateway/audit.py\<close>: appending a record to
  the active segment, rotation and pruning, and the strict reader. The files are a segment of
  text per name; the clock, the failures of file operations and the JSON form of a record are
  arguments. A failed write or flush leaves the file as it was, closing a file does not fail, and
  after a \<open>RecursionError\<close> the state is the one before the write (the rotations made on the way
  are not kept).
\<close>

section \<open>The sink\<close>

text \<open>
  The \<open>n\<close>-th reading of the clock (microseconds), whether the \<open>n\<close>-th file operation raises
  \<open>OSError\<close>, \<open>model_dump_json\<close> (\<open>None\<close> when it raises), the time stamp the first line of a
  segment carries, and what the discriminated union accepts of a line.
\<close>

record sink_env =
  io_now :: "nat \<Rightarrow> int"
  io_fails :: "nat \<Rightarrow> bool"
  io_dump :: "audit_record \<Rightarrow> ustr option"
  io_first_ts :: "ustr \<Rightarrow> int option"
  io_parse :: "ustr \<Rightarrow> audit_record option"

record segment =
  sg_text :: ustr
  sg_mtime :: int

record sink =
  sk_open :: bool
  sk_active :: "segment option"
  sk_rolled :: "(nat \<times> segment) list"
  sk_started :: int
  sk_tick :: nat

abbreviation OSError :: exc where
  "OSError \<equiv> PyError ''OSError''"

definition clock :: "sink_env \<Rightarrow> (sink, int) act" where
  "clock env st = (Inr (io_now env (sk_tick st)), st \<lparr> sk_tick := Suc (sk_tick st) \<rparr>)"

text \<open>A file operation: it raises \<open>OSError\<close> and does nothing, or has its effect.\<close>

definition file_op :: "sink_env \<Rightarrow> (sink \<Rightarrow> sink) \<Rightarrow> (sink, unit) act" where
  "file_op env f st =
     (let st' = st \<lparr> sk_tick := Suc (sk_tick st) \<rparr> in
      if io_fails env (sk_tick st) then (Inl OSError, st') else (Inr (), f st'))"

definition dict_del :: "('k \<times> 'v) list \<Rightarrow> 'k \<Rightarrow> ('k \<times> 'v) list" where
  "dict_del d k = filter (\<lambda>(k', v). k' \<noteq> k) d"

definition max_age_us :: "audit_config \<Rightarrow> int" where
  "max_age_us a = aud_max_age_days a * 86400 * 1000000"

definition utf8_size :: "ustr \<Rightarrow> nat" where
  "utf8_size s = sum_list (map (\<lambda>c. length (utf8_char c)) s)"

definition first_line :: "ustr \<Rightarrow> ustr" where
  "first_line s = takeWhile (\<lambda>c. c \<noteq> 10) s"

definition oldest_record_ts :: "sink_env \<Rightarrow> (sink, int) act" where
  "oldest_record_ts env =
     bindA (clock env) (\<lambda>now.
     tryA (bindA (file_op env id) (\<lambda>_. getA (\<lambda>st.
       case sk_active st of None \<Rightarrow> now
       | Some seg \<Rightarrow> (case io_first_ts env (first_line (sg_text seg)) of None \<Rightarrow> now | Some ts \<Rightarrow> ts))))
       (\<lambda>_. retA now))"

definition unlink :: "sink_env \<Rightarrow> nat \<Rightarrow> (sink, unit) act" where
  "unlink env n = file_op env (\<lambda>st. st \<lparr> sk_rolled := dict_del (sk_rolled st) n \<rparr>)"

definition prune_file :: "sink_env \<Rightarrow> audit_config \<Rightarrow> int \<Rightarrow> nat \<times> segment \<Rightarrow> (sink, unit) act" where
  "prune_file env a cutoff p =
     (if int (fst p) > aud_rotate_keep a then unlink env (fst p)
      else bindA (file_op env id) (\<lambda>_. whenA (sg_mtime (snd p) < cutoff) (unlink env (fst p))))"

definition prune :: "sink_env \<Rightarrow> audit_config \<Rightarrow> (sink, unit) act" where
  "prune env a =
     bindA (clock env) (\<lambda>now.
     bindA (getA sk_rolled) (\<lambda>files. forA (prune_file env a (now - max_age_us a)) files))"

definition create :: "int \<Rightarrow> sink \<Rightarrow> sink" where
  "create now st =
     st \<lparr> sk_open := True,
          sk_active := (case sk_active st of None \<Rightarrow> Some \<lparr> sg_text = [], sg_mtime = now \<rparr> | Some seg \<Rightarrow> Some seg) \<rparr>"

definition open_sink :: "sink_env \<Rightarrow> audit_config \<Rightarrow> (sink, unit) act" where
  "open_sink env a =
     bindA (file_op env id) (\<lambda>_.
     bindA (file_op env (\<lambda>st. create (io_now env (sk_tick st)) st)) (\<lambda>_.
     bindA (oldest_record_ts env) (\<lambda>ts.
     bindA (modA (\<lambda>st. st \<lparr> sk_started := ts \<rparr>)) (\<lambda>_. prune env a))))"

definition close_sink :: "sink \<Rightarrow> sink" where
  "close_sink st = st \<lparr> sk_open := False \<rparr>"

definition append_text :: "int \<Rightarrow> ustr \<Rightarrow> sink \<Rightarrow> sink" where
  "append_text now line st =
     st \<lparr> sk_active := map_option (\<lambda>seg. \<lparr> sg_text = sg_text seg @ line, sg_mtime = now \<rparr>) (sk_active st) \<rparr>"

definition should_rotate :: "sink_env \<Rightarrow> audit_config \<Rightarrow> (sink, bool) act" where
  "should_rotate env a =
     bindA (file_op env id) (\<lambda>_.
     bindA (getA sk_active) (\<lambda>f.
     if (case f of None \<Rightarrow> False | Some seg \<Rightarrow> aud_max_bytes a < int (utf8_size (sg_text seg))) then retA True
     else bindA (clock env) (\<lambda>now. getA (\<lambda>st. max_age_us a < now - sk_started st))))"

text \<open>The part of \<open>write_sync\<close> before the rotation; it returns whether to rotate.\<close>

definition append_record :: "sink_env \<Rightarrow> audit_config \<Rightarrow> audit_record \<Rightarrow> (sink, bool) act" where
  "append_record env a ev =
     (case io_dump env ev of
        None \<Rightarrow> raiseA (PyError ''PydanticSerializationError'')
      | Some line \<Rightarrow>
          bindA (getA sk_open) (\<lambda>opened.
          bindA (whenA (\<not> opened) (open_sink env a)) (\<lambda>_.
          bindA (tryA (bindA (file_op env (\<lambda>st. append_text (io_now env (sk_tick st)) (line @ [10]) st)) (\<lambda>_.
                         whenA (aud_durable a) (file_op env id)))
                   (\<lambda>e. raiseA (audit_deny AUDIT_WRITE_FAILED))) (\<lambda>_.
          should_rotate env a))))"

definition roll :: "nat \<Rightarrow> sink \<Rightarrow> sink" where
  "roll i st =
     (case dict_get (sk_rolled st) i of None \<Rightarrow> st
      | Some seg \<Rightarrow> st \<lparr> sk_rolled := dict_set (dict_del (sk_rolled st) i) (i + 1) seg \<rparr>)"

definition roll_step :: "sink_env \<Rightarrow> nat \<Rightarrow> (sink, unit) act" where
  "roll_step env i =
     bindA (getA (\<lambda>st. dict_has (sk_rolled st) i)) (\<lambda>there. whenA there (file_op env (roll i)))"

definition roll_active :: "sink \<Rightarrow> sink" where
  "roll_active st =
     (case sk_active st of None \<Rightarrow> st
      | Some seg \<Rightarrow> st \<lparr> sk_active := None, sk_rolled := dict_set (sk_rolled st) 1 seg \<rparr>)"

definition rotation_event :: "audit_config \<Rightarrow> int \<Rightarrow> audit_record" where
  "rotation_event a ts =
     Lifecycle_event \<lparr> le_ts = ts, le_kind = K_rotation, le_detail = [(u ''file'', base_name (aud_path a))] \<rparr>"

text \<open>\<open>rotate\<close> up to its last step, which writes the returned record.\<close>

definition rotate_segments :: "sink_env \<Rightarrow> audit_config \<Rightarrow> (sink, audit_record) act" where
  "rotate_segments env a =
     bindA (modA close_sink) (\<lambda>_.
     bindA (forA (roll_step env) (rev [1..<nat (aud_rotate_keep a)])) (\<lambda>_.
     bindA (getA sk_active) (\<lambda>f.
     bindA (whenA (f \<noteq> None) (file_op env roll_active)) (\<lambda>_.
     bindA (open_sink env a) (\<lambda>_.
     bindA (clock env) (\<lambda>ts. retA (rotation_event a ts)))))))"

text \<open>
  \<open>write_sync\<close> and \<open>rotate\<close> call each other without a bound, so not returning is a value here;
  in CPython it is a \<open>RecursionError\<close>.
\<close>

partial_function (option) write_sync ::
    "sink_env \<Rightarrow> audit_config \<Rightarrow> audit_record \<Rightarrow> sink \<Rightarrow> (unit result \<times> sink) option" where
  "write_sync env a ev st =
     (case append_record env a ev st of
        (Inl e, st') \<Rightarrow> Some (Inl e, st')
      | (Inr again, st') \<Rightarrow>
          (if \<not> again then Some (Inr (), st')
           else case rotate_segments env a st' of
                  (Inl e, st'') \<Rightarrow> Some (Inl e, st'')
                | (Inr ev', st'') \<Rightarrow> write_sync env a ev' st''))"

declare write_sync.simps [code]

text \<open>\<open>AuditSink.write\<close>: an \<open>OSError\<close> is an audit failure. One write at a time, by the lock.\<close>

definition sink_write :: "sink_env \<Rightarrow> audit_config \<Rightarrow> audit_record \<Rightarrow> (sink, unit) act" where
  "sink_write env a ev st =
     (case write_sync env a ev st of
        None \<Rightarrow> (Inl (PyError ''RecursionError''), st)
      | Some (r, st') \<Rightarrow> (if r = Inl OSError then Inl (audit_deny AUDIT_WRITE_FAILED) else r, st'))"

definition AuditSink :: "sink \<Rightarrow> int \<Rightarrow> sink" where
  "AuditSink disk now = disk \<lparr> sk_open := False, sk_started := now \<rparr>"

definition from_config :: "sink_env \<Rightarrow> audit_config \<Rightarrow> (sink, unit) act" where
  "from_config env a =
     bindA (clock env) (\<lambda>now. bindA (modA (\<lambda>st. AuditSink st now)) (\<lambda>_. open_sink env a))"

definition ready_event :: "int \<Rightarrow> audit_record" where
  "ready_event ts = Lifecycle_event \<lparr> le_ts = ts, le_kind = K_ready, le_detail = [] \<rparr>"

definition readiness_probe :: "sink_env \<Rightarrow> audit_config \<Rightarrow> (sink, bool) act" where
  "readiness_probe env a =
     bindA (clock env) (\<lambda>ts. \<lambda>st.
       (case write_sync env a (ready_event ts) st of
          None \<Rightarrow> (Inl (PyError ''RecursionError''), st)
        | Some (Inr _, st') \<Rightarrow> (Inr True, st')
        | Some (Inl e, st') \<Rightarrow>
            (case e of
               Denial AUDIT _ \<Rightarrow> (Inr False, st')
             | _ \<Rightarrow> if e = OSError then (Inr False, st') else (Inl e, st'))))"

section \<open>The reader\<close>

text \<open>\<open>str.splitlines()\<close>: every line boundary of Python, a CR LF pair counting once.\<close>

definition line_break :: "nat \<Rightarrow> bool" where
  "line_break c \<longleftrightarrow> c \<in> {10, 11, 12, 13, 28, 29, 30, 133, 8232, 8233}"

fun splitlines :: "ustr \<Rightarrow> ustr list" where
  "splitlines [] = []"
| "splitlines (c # s) =
     (if c = 13 \<and> (case s of [] \<Rightarrow> False | d # _ \<Rightarrow> d = 10) then [] # splitlines (tl s)
      else if line_break c then [] # splitlines s
      else (case splitlines s of [] \<Rightarrow> [[c]] | l # ls \<Rightarrow> (c # l) # ls))"

text \<open>\<open>if not line.strip(): continue\<close>\<close>

definition white :: "nat \<Rightarrow> bool" where
  "white c \<longleftrightarrow> line_break c \<or> c \<in> {9, 31, 32, 160, 5760, 8239, 8287, 12288} \<or> 8192 \<le> c \<and> c \<le> 8202"

text \<open>The records before the first corrupt line are yielded; \<open>True\<close> means \<open>CorruptAuditLog\<close>.\<close>

fun read_lines :: "sink_env \<Rightarrow> ustr list \<Rightarrow> audit_record list \<times> bool" where
  "read_lines env [] = ([], False)"
| "read_lines env (l # ls) =
     (if list_all white l then read_lines env ls
      else case io_parse env l of
             None \<Rightarrow> ([], True)
           | Some r \<Rightarrow> map_prod (Cons r) id (read_lines env ls))"

definition read_events :: "sink_env \<Rightarrow> ustr option \<Rightarrow> audit_record list \<times> bool" where
  "read_events env file = (case file of None \<Rightarrow> ([], False) | Some s \<Rightarrow> read_lines env (splitlines s))"

definition request_ids :: "audit_record list \<Rightarrow> ustr list" where
  "request_ids rs = concat (map (\<lambda>r. case r of Request_event e \<Rightarrow> [rv_request_id e] | _ \<Rightarrow> []) rs)"

text \<open>\<open>completeness\<close>: \<open>None\<close> is \<open>CorruptAuditLog\<close>; the ratio is a numerator and a denominator.\<close>

definition completeness :: "sink_env \<Rightarrow> ustr option \<Rightarrow> nat \<Rightarrow> (nat \<times> nat) option" where
  "completeness env file issued =
     (if issued = 0 then Some (1, 1)
      else case read_events env file of
             (rs, True) \<Rightarrow> None
           | (rs, False) \<Rightarrow>
               (let ids = request_ids rs in if distinct ids then Some (length ids, issued) else None))"

section \<open>What the operations keep\<close>

text \<open>The tick only grows; an open sink has its file; segment numbers are distinct.\<close>

definition wf_sink :: "nat \<Rightarrow> sink \<Rightarrow> bool" where
  "wf_sink t st \<longleftrightarrow> t \<le> sk_tick st \<and> (sk_open st \<longrightarrow> sk_active st \<noteq> None) \<and> distinct_keys (sk_rolled st)"

lemma distinct_dict_del: "distinct_keys d \<Longrightarrow> distinct_keys (dict_del d k)"
  unfolding dict_del_def by (induction d) auto

lemma dict_get_del [simp]: "dict_get (dict_del d k) k' = (if k' = k then None else dict_get d k')"
  unfolding dict_del_def dict_get_def by (induction d) auto

lemma keeps_clock [keeps_intros]: "keeps (wf_sink t) (clock env)"
  by (auto simp: keeps_def clock_def wf_sink_def)

lemma keeps_file_op [keeps_intros]:
  "(\<And>st. wf_sink t st \<Longrightarrow> wf_sink t (f st)) \<Longrightarrow> keeps (wf_sink t) (file_op env f)"
  by (auto simp: keeps_def file_op_def Let_def wf_sink_def)

lemma keeps_prune [keeps_intros]: "keeps (wf_sink t) (prune env a)"
  by (auto simp: prune_def prune_file_def unlink_def wf_sink_def distinct_dict_del intro!: keeps_intros)

lemma keeps_open [keeps_intros]: "keeps (wf_sink t) (open_sink env a)"
  by (auto simp: open_sink_def oldest_record_ts_def wf_sink_def create_def split: option.splits
      intro!: keeps_intros)

lemma keeps_append [keeps_intros]: "keeps (wf_sink t) (append_record env a ev)"
  by (auto simp: append_record_def should_rotate_def append_text_def wf_sink_def split: option.splits intro!: keeps_intros)

lemma wf_roll: "wf_sink t st \<Longrightarrow> wf_sink t (roll i st)"
  by (auto simp: wf_sink_def roll_def distinct_dict_set distinct_dict_del split: option.splits)

lemma keeps_roll [keeps_intros]:
  "keeps (wf_sink t) (forA (roll_step env) is)"
  by (auto simp: roll_step_def intro!: keeps_intros wf_roll)

section \<open>Successful operations\<close>

lemma file_op_Inr: "file_op env f st = (Inr y, st') \<Longrightarrow> st' = f (st \<lparr> sk_tick := Suc (sk_tick st) \<rparr>)"
  by (auto simp: file_op_def Let_def split: if_splits)

definition expired :: "audit_config \<Rightarrow> int \<Rightarrow> nat \<times> segment \<Rightarrow> bool" where
  "expired a cutoff p \<longleftrightarrow> int (fst p) > aud_rotate_keep a \<or> sg_mtime (snd p) < cutoff"

lemma prune_file_Inr:
  assumes "prune_file env a cutoff p st = (Inr y, st')"
  shows "sk_rolled st' = (if expired a cutoff p then dict_del (sk_rolled st) (fst p) else sk_rolled st)
    \<and> sk_active st' = sk_active st \<and> sk_open st' = sk_open st \<and> sk_started st' = sk_started st"
  using assms
  by (auto simp: prune_file_def unlink_def expired_def bindA_Inr_iff whenA_def split: if_splits dest!: file_op_Inr)

lemma prune_files_Inr:
  assumes "forA (prune_file env a cutoff) files st = (Inr y, st')"
  shows "sk_rolled st' = filter (\<lambda>p. \<not> (\<exists>q \<in> set files. expired a cutoff q \<and> fst q = fst p)) (sk_rolled st)
    \<and> sk_active st' = sk_active st \<and> sk_open st' = sk_open st \<and> sk_started st' = sk_started st"
  using assms
proof (induction files arbitrary: st)
  case Nil
  then show ?case by simp
next
  case (Cons p ps)
  then obtain st1 where 1: "prune_file env a cutoff p st = (Inr (), st1)"
    and 2: "forA (prune_file env a cutoff) ps st1 = (Inr y, st')" by (auto simp: bindA_Inr_iff)
  show ?case
    using prune_file_Inr [OF 1] Cons.IH [OF 2]
    by (auto simp: dict_del_def case_prod_unfold intro!: filter_cong)
qed

definition active_text :: "sink \<Rightarrow> ustr" where
  "active_text st = (case sk_active st of None \<Rightarrow> [] | Some seg \<Rightarrow> sg_text seg)"

text \<open>A reading of the clock not before tick \<open>t\<close>.\<close>

definition reading :: "sink_env \<Rightarrow> nat \<Rightarrow> int \<Rightarrow> bool" where
  "reading env t x \<longleftrightarrow> (\<exists>n\<ge>t. x = io_now env n)"

lemma clock_Inr:
  "clock env st = (r, st') \<Longrightarrow> wf_sink t st \<Longrightarrow>
     \<exists>now. r = Inr now \<and> reading env t now \<and> st' = st \<lparr> sk_tick := Suc (sk_tick st) \<rparr> \<and> wf_sink t st'"
  by (auto simp: clock_def wf_sink_def reading_def)

lemma prune_Inr:
  assumes "prune env a st = (Inr y, st')" "wf_sink t st"
  shows "\<exists>now. reading env t now
    \<and> sk_rolled st' = filter (\<lambda>p. \<not> expired a (now - max_age_us a) p) (sk_rolled st)
    \<and> sk_active st' = sk_active st \<and> sk_open st' = sk_open st \<and> sk_started st' = sk_started st"
proof -
  obtain now st1 where now: "clock env st = (Inr now, st1)"
    and f: "forA (prune_file env a (now - max_age_us a)) (sk_rolled st1) st1 = (Inr y, st')"
    using assms(1) by (auto simp: prune_def bindA_Inr_iff)
  from clock_Inr [OF now assms(2)] have c: "reading env t now" "st1 = st \<lparr> sk_tick := Suc (sk_tick st) \<rparr>" by auto
  have d: "(n, s) \<in> set (sk_rolled st) \<Longrightarrow> (n, s') \<in> set (sk_rolled st) \<Longrightarrow> s = s'" for n s s'
    using assms(2) by (auto simp: wf_sink_def dest: eq_key_imp_eq_value)
  have "filter (\<lambda>p. \<not> (\<exists>q \<in> set (sk_rolled st). expired a cutoff q \<and> fst q = fst p)) (sk_rolled st)
      = filter (\<lambda>p. \<not> expired a cutoff p) (sk_rolled st)" for cutoff
    using d by (intro filter_cong) force+
  then show ?thesis using prune_files_Inr [OF f] c by auto
qed

lemma oldest_Inr:
  "oldest_record_ts env st = (Inr ts, st') \<Longrightarrow>
     sk_rolled st' = sk_rolled st \<and> sk_open st' = sk_open st \<and> sk_active st' = sk_active st
     \<and> (ts = io_now env (sk_tick st)
        \<or> (\<exists>seg. sk_active st = Some seg \<and> io_first_ts env (first_line (sg_text seg)) = Some ts))"
  by (auto simp: oldest_record_ts_def bindA_def tryA_def file_op_def Let_def clock_def
      split: prod.splits sum.splits if_splits option.splits)

lemma open_sink_Inr:
  assumes "open_sink env a st = (Inr y, st')" "wf_sink t st"
  shows "\<exists>now m ts. reading env t now \<and> reading env t m
    \<and> sk_rolled st' = filter (\<lambda>p. \<not> expired a (now - max_age_us a) p) (sk_rolled st) \<and> sk_open st'
    \<and> sk_active st' = sk_active (create m st) \<and> sk_started st' = ts
    \<and> (io_first_ts env [] = None \<longrightarrow> sk_active st = None \<longrightarrow> reading env t ts)"
proof -
  obtain st1 st2 st3 ts where
    1: "file_op env id st = (Inr (), st1)"
    and 2: "file_op env (\<lambda>st. create (io_now env (sk_tick st)) st) st1 = (Inr (), st2)"
    and 3: "oldest_record_ts env st2 = (Inr ts, st3)"
    and 4: "prune env a (st3 \<lparr> sk_started := ts \<rparr>) = (Inr y, st')"
    using assms(1) by (auto simp: open_sink_def bindA_Inr_iff)
  define m where "m = io_now env (Suc (sk_tick st1))"
  have w1: "wf_sink t st1" using file_op_Inr [OF 1] assms(2) by (auto simp: wf_sink_def)
  have s2: "st2 = create m (st1 \<lparr> sk_tick := Suc (sk_tick st1) \<rparr>)" using file_op_Inr [OF 2] by (simp add: m_def)
  have w2: "wf_sink t st2" using w1 unfolding s2 by (auto simp: wf_sink_def create_def split: option.splits)
  have w3: "wf_sink t st3"
  proof -
    have "keeps (wf_sink t) (oldest_record_ts env)"
      by (auto simp: oldest_record_ts_def wf_sink_def intro!: keeps_intros)
    from keepsD [OF this w2 3] show ?thesis .
  qed
  have s3: "sk_rolled st3 = sk_rolled st2 \<and> sk_open st3 = sk_open st2 \<and> sk_active st3 = sk_active st2"
    and ts: "ts = io_now env (sk_tick st2)
      \<or> (\<exists>seg. sk_active st2 = Some seg \<and> io_first_ts env (first_line (sg_text seg)) = Some ts)"
    using oldest_Inr [OF 3] by auto
  have r2: "reading env t (io_now env (sk_tick st2))" using w2 by (auto simp: reading_def wf_sink_def)
  have "wf_sink t (st3 \<lparr> sk_started := ts \<rparr>)" using w3 by (auto simp: wf_sink_def)
  from prune_Inr [OF 4 this] obtain now where now: "reading env t now"
    "sk_rolled st' = filter (\<lambda>p. \<not> expired a (now - max_age_us a) p) (sk_rolled st3)"
    "sk_active st' = sk_active st3" "sk_open st' = sk_open st3" "sk_started st' = ts" by auto
  have "sk_rolled st1 = sk_rolled st" "sk_active st1 = sk_active st" using file_op_Inr [OF 1] by auto
  moreover have "reading env t m" using w1 by (auto simp: m_def reading_def wf_sink_def intro!: exI [of _ "Suc (sk_tick st1)"])
  moreover have "sk_active st = None \<Longrightarrow> io_first_ts env [] = None \<Longrightarrow> reading env t ts"
    using ts r2 calculation(2) by (auto simp: s2 create_def first_line_def)
  ultimately show ?thesis
    using now s3 by (intro exI [of _ now] exI [of _ m] exI [of _ ts])
      (auto simp: s2 create_def split: option.splits)
qed

lemma should_rotate_Inr:
  assumes "should_rotate env a st = (Inr again, st')" "wf_sink t st" "sk_active st = Some seg"
  shows "sk_rolled st' = sk_rolled st \<and> sk_open st' = sk_open st \<and> sk_active st' = sk_active st
    \<and> sk_started st' = sk_started st
    \<and> (aud_max_bytes a < int (utf8_size (sg_text seg)) \<longrightarrow> again)
    \<and> (again \<longrightarrow> aud_max_bytes a < int (utf8_size (sg_text seg))
         \<or> (\<exists>now. reading env t now \<and> max_age_us a < now - sk_started st))"
proof -
  obtain st1 where 1: "file_op env id st = (Inr (), st1)"
    using assms(1) by (auto simp: should_rotate_def bindA_Inr_iff)
  then have s1: "st1 = st \<lparr> sk_tick := Suc (sk_tick st) \<rparr>" using file_op_Inr [OF 1] by simp
  have "reading env t (io_now env (sk_tick st1))"
    using assms(2) unfolding s1 by (auto simp: reading_def wf_sink_def intro!: exI [of _ "Suc (sk_tick st)"])
  then show ?thesis
    using assms(1,3) 1 unfolding should_rotate_def
    by (auto simp: bindA_def clock_def s1 split: if_splits)
qed

lemma append_Inr:
  assumes "append_record env a ev st = (Inr again, st')" "wf_sink t st"
  shows "\<exists>line m. io_dump env ev = Some line \<and> reading env t m
    \<and> sk_active st' = Some \<lparr> sg_text = active_text st @ line @ [10], sg_mtime = m \<rparr> \<and> sk_open st' \<and> wf_sink t st'
    \<and> (aud_max_bytes a < int (utf8_size (active_text st @ line @ [10])) \<longrightarrow> again)
    \<and> (again \<longrightarrow> aud_max_bytes a < int (utf8_size (active_text st @ line @ [10]))
        \<or> (\<exists>now. reading env t now \<and> max_age_us a < now - sk_started st'))
    \<and> (sk_open st \<longrightarrow> sk_rolled st' = sk_rolled st \<and> sk_started st' = sk_started st)"
proof -
  obtain line where line: "io_dump env ev = Some line"
    using assms(1) by (cases "io_dump env ev") (auto simp: append_record_def)
  let ?w = "file_op env (\<lambda>st. append_text (io_now env (sk_tick st)) (line @ [10]) st)"
  obtain st1 st2 st3 where
    1: "whenA (\<not> sk_open st) (open_sink env a) st = (Inr (), st1)"
    and 2: "?w st1 = (Inr (), st2)" and 3: "whenA (aud_durable a) (file_op env id) st2 = (Inr (), st3)"
    and 4: "should_rotate env a st3 = (Inr again, st')"
    using assms(1) line
    by (auto simp: append_record_def bindA_Inr_iff tryA_Inr_iff)
  have w1: "wf_sink t st1"
  proof -
    have "keeps (wf_sink t) (whenA (\<not> sk_open st) (open_sink env a))" by (intro keeps_intros)
    then show ?thesis using assms(2) 1 by (rule keepsD)
  qed
  have o1: "sk_open st1" using 1 assms(2) by (auto simp: whenA_def split: if_splits dest: open_sink_Inr)
  then obtain seg where seg: "sk_active st1 = Some seg" using w1 by (auto simp: wf_sink_def)
  define m where "m = io_now env (Suc (sk_tick st1))"
  let ?seg = "\<lparr> sg_text = sg_text seg @ line @ [10], sg_mtime = m \<rparr>"
  have s2: "st2 = st1 \<lparr> sk_tick := Suc (sk_tick st1), sk_active := Some ?seg \<rparr>"
    using file_op_Inr [OF 2] seg by (simp add: append_text_def m_def)
  have s3: "sk_rolled st3 = sk_rolled st1 \<and> sk_open st3 \<and> sk_active st3 = Some ?seg \<and> sk_started st3 = sk_started st1
      \<and> wf_sink t st3"
    using 3 w1 o1 unfolding s2 by (auto simp: whenA_def wf_sink_def split: if_splits dest!: file_op_Inr)
  have r: "reading env t m" using w1 by (auto simp: m_def reading_def wf_sink_def intro!: exI [of _ "Suc (sk_tick st1)"])
  have w': "wf_sink t st'" by (rule keepsD [OF keeps_append assms(2,1)])
  have kept: "sk_open st \<Longrightarrow> st1 = st" using 1 by (simp add: whenA_def)
  have pre: "sg_text seg = active_text st"
  proof (cases "sk_open st")
    case True
    then show ?thesis using kept seg by (simp add: active_text_def)
  next
    case False
    then have "open_sink env a st = (Inr (), st1)" using 1 by (simp add: whenA_def)
    from open_sink_Inr [OF this assms(2)] seg show ?thesis by (auto simp: create_def active_text_def split: option.splits)
  qed
  then show ?thesis
    using should_rotate_Inr [OF 4, of t ?seg] s3 line r w' kept
    by (intro exI [of _ line] exI [of _ m]) auto
qed

lemma roll_all:
  assumes "forA (roll_step env) is st
      = (Inr y, st')"
  shows "sk_active st' = sk_active st \<and> sk_open st' = sk_open st"
  using assms
proof (induction "is" arbitrary: st)
  case Nil
  then show ?case by simp
next
  case (Cons i js)
  then obtain st1 where 1: "roll_step env i st = (Inr (), st1)"
    and 2: "forA (roll_step env) js st1 = (Inr y, st')"
    by (auto simp: bindA_Inr_iff)
  have "sk_active st1 = sk_active st \<and> sk_open st1 = sk_open st"
    using 1 by (auto simp: roll_step_def whenA_def roll_def bindA_Inr_iff split: if_splits option.splits dest!: file_op_Inr)
  with Cons.IH [OF 2] show ?case by simp
qed

text \<open>
  Where the rolled segments are after the loop that renames number \<open>k - 1\<close> to \<open>k\<close> down to 1 to 2:
  a number whose predecessor does not exist loses its own segment to its successor, the last
  one keeps it.
\<close>

definition shifted :: "nat \<Rightarrow> (nat \<Rightarrow> segment option) \<Rightarrow> nat \<Rightarrow> segment option" where
  "shifted k f n =
     (if 2 \<le> n \<and> n \<le> k then (case f (n - 1) of Some s \<Rightarrow> Some s | None \<Rightarrow> if n = k then f n else None)
      else if n = 1 \<and> 2 \<le> k then None else f n)"

lemma shifted_Suc:
  assumes "1 \<le> k" "f' = (\<lambda>n. if f k = None then f n else if n = Suc k then f k else if n = k then None else f n)"
  shows "shifted k f' = shifted (Suc k) f"
proof
  fix n
  consider "n = Suc k" | "n = k" | "n < k" | "Suc k < n" by linarith
  then show "shifted k f' n = shifted (Suc k) f n"
    using assms(1) unfolding assms(2) shifted_def by cases (auto split: option.splits)
qed

lemma roll_step_Inr:
  assumes "roll_step env i st = (Inr y, st')"
  shows "dict_get (sk_rolled st') = (\<lambda>n. if dict_get (sk_rolled st) i = None then dict_get (sk_rolled st) n
     else if n = Suc i then dict_get (sk_rolled st) i else if n = i then None else dict_get (sk_rolled st) n)"
  using assms
  by (auto simp: roll_step_def whenA_def roll_def bindA_Inr_iff dict_has_iff_get fun_eq_iff split: if_splits option.splits
      dest!: file_op_Inr)

lemma roll_loop:
  "forA (roll_step env) (rev [1..<k]) st = (Inr y, st') \<Longrightarrow> dict_get (sk_rolled st') = shifted k (dict_get (sk_rolled st))"
proof (induction k arbitrary: st)
  case 0
  then show ?case by (auto simp: shifted_def fun_eq_iff)
next
  case (Suc k)
  show ?case
  proof (cases "k = 0")
    case True
    then show ?thesis using Suc.prems by (auto simp: shifted_def fun_eq_iff)
  next
    case False
    then have l: "rev [1..<Suc k] = k # rev [1..<k]" by simp
    obtain st1 where 1: "roll_step env k st = (Inr (), st1)" "forA (roll_step env) (rev [1..<k]) st1 = (Inr y, st')"
      using Suc.prems unfolding l by (auto simp: bindA_Inr_iff)
    show ?thesis
      using Suc.IH [OF 1(2)] shifted_Suc [of k _ "dict_get (sk_rolled st)", OF _ roll_step_Inr [OF 1(1)]] False by simp
  qed
qed

text \<open>The rolled segments once the active one has become number 1, before pruning.\<close>

definition history :: "nat \<Rightarrow> (nat \<Rightarrow> segment option) \<Rightarrow> segment \<Rightarrow> nat \<Rightarrow> segment option" where
  "history k f seg n = (if n = 1 then Some seg else shifted k f n)"

lemma dict_get_filter:
  "distinct_keys d \<Longrightarrow> dict_get (filter P d) k = (case dict_get d k of None \<Rightarrow> None | Some v \<Rightarrow> if P (k, v) then Some v else None)"
  by (induction d) (auto simp: dict_get_def split: option.splits, (force dest: map_of_SomeD)+)

lemma rotate_Inr:
  assumes "rotate_segments env a st = (Inr ev, st')" "wf_sink t st" "sk_active st = Some seg"
  shows "\<exists>ts now m. ev = rotation_event a ts \<and> reading env t now \<and> reading env t m \<and> sk_open st' \<and> wf_sink t st'
    \<and> sk_active st' = Some \<lparr> sg_text = [], sg_mtime = m \<rparr>
    \<and> (io_first_ts env [] = None \<longrightarrow> reading env t (sk_started st'))
    \<and> (\<forall>n. dict_get (sk_rolled st') n = (case history (nat (aud_rotate_keep a)) (dict_get (sk_rolled st)) seg n of
         None \<Rightarrow> None | Some s \<Rightarrow> if expired a (now - max_age_us a) (n, s) then None else Some s))"
proof -
  let ?k = "nat (aud_rotate_keep a)"
  let ?loop = "forA (roll_step env) (rev [1..<?k])"
  obtain st1 st2 st3 ts where 1: "?loop (close_sink st) = (Inr (), st1)"
    and 2: "whenA (sk_active st1 \<noteq> None) (file_op env roll_active) st1 = (Inr (), st2)"
    and 3: "open_sink env a st2 = (Inr (), st3)" and 4: "clock env st3 = (Inr ts, st')"
    and ev: "ev = rotation_event a ts"
    using assms(1) by (auto simp: rotate_segments_def bindA_Inr_iff)
  have w0: "wf_sink t (close_sink st)" using assms(2) by (simp add: wf_sink_def close_sink_def)
  have w1: "wf_sink t st1" by (rule keepsD [OF keeps_roll w0 1])
  have a1: "sk_active st1 = Some seg" "\<not> sk_open st1" using roll_all [OF 1] assms(3) by (auto simp: close_sink_def)
  have r1: "dict_get (sk_rolled st1) = shifted ?k (dict_get (sk_rolled st))" using roll_loop [OF 1] by (simp add: close_sink_def)
  have s2: "sk_active st2 = None" "wf_sink t st2" "sk_rolled st2 = dict_set (sk_rolled st1) 1 seg"
    using 2 a1 w1 by (auto simp: whenA_def roll_active_def wf_sink_def distinct_dict_set dest!: file_op_Inr)
  have r2: "dict_get (sk_rolled st2) n = history ?k (dict_get (sk_rolled st)) seg n" for n
    by (simp add: s2(3) history_def r1)
  have w3: "wf_sink t st3" using keepsD [OF keeps_open _ 3] s2 by auto
  obtain now m started where o: "reading env t now" "reading env t m"
    "sk_rolled st3 = filter (\<lambda>p. \<not> expired a (now - max_age_us a) p) (sk_rolled st2)" "sk_open st3"
    "sk_active st3 = sk_active (create m st2)" "sk_started st3 = started"
    "io_first_ts env [] = None \<longrightarrow> sk_active st2 = None \<longrightarrow> reading env t started"
    using open_sink_Inr [OF 3, of t] s2 by auto
  have "distinct_keys (sk_rolled st2)" using s2(2) by (simp add: wf_sink_def)
  from dict_get_filter [OF this] have "dict_get (sk_rolled st3) n = (case history ?k (dict_get (sk_rolled st)) seg n of
         None \<Rightarrow> None | Some s \<Rightarrow> if expired a (now - max_age_us a) (n, s) then None else Some s)" for n
    unfolding o(3) r2 [symmetric] by (simp split: option.splits)
  moreover have "st' = st3 \<lparr> sk_tick := Suc (sk_tick st3) \<rparr>" using 4 by (simp add: clock_def)
  ultimately show ?thesis
    using o ev s2 w3
    by (intro exI [of _ ts] exI [of _ now] exI [of _ m]) (auto simp: create_def wf_sink_def)
qed

section \<open>Writing returns, or does not\<close>

text \<open>Records that rotation writes fit in a segment of their own.\<close>

definition rotation_fits :: "sink_env \<Rightarrow> audit_config \<Rightarrow> bool" where
  "rotation_fits env a \<longleftrightarrow>
     (\<forall>ts line. io_dump env (rotation_event a ts) = Some line \<longrightarrow> int (utf8_size (line @ [10])) \<le> aud_max_bytes a)"

text \<open>From tick \<open>t\<close> on the clock advances by at most the age limit.\<close>

definition calm :: "sink_env \<Rightarrow> audit_config \<Rightarrow> nat \<Rightarrow> bool" where
  "calm env a t \<longleftrightarrow> (\<forall>x y. reading env t x \<longrightarrow> reading env t y \<longrightarrow> y - x \<le> max_age_us a)"

lemma calm_not_expired:
  "calm env a t \<Longrightarrow> reading env t now \<Longrightarrow> reading env t m \<Longrightarrow> 1 \<le> aud_rotate_keep a \<Longrightarrow>
     \<not> expired a (now - max_age_us a) (1, \<lparr> sg_text = s, sg_mtime = m \<rparr>)"
  by (force simp: calm_def expired_def)

lemma rotated_append:
  assumes "append_record env a (rotation_event a ts) st = (Inr again, st')" "wf_sink t st" "sk_open st"
    and "sk_active st = Some \<lparr> sg_text = [], sg_mtime = m \<rparr>" "reading env t (sk_started st)"
    and "calm env a t" "rotation_fits env a"
  shows "\<not> again \<and> sk_rolled st' = sk_rolled st
    \<and> (\<exists>line. io_dump env (rotation_event a ts) = Some line \<and> active_text st' = line @ [10])"
proof -
  obtain line where line: "io_dump env (rotation_event a ts) = Some line"
    and text': "active_text st' = active_text st @ line @ [10]"
    and again: "again \<longrightarrow> aud_max_bytes a < int (utf8_size (active_text st @ line @ [10]))
        \<or> (\<exists>now. reading env t now \<and> max_age_us a < now - sk_started st')"
    and kept: "sk_open st \<longrightarrow> sk_rolled st' = sk_rolled st \<and> sk_started st' = sk_started st"
    using append_Inr [OF assms(1,2)] unfolding active_text_def by force
  have keep: "sk_rolled st' = sk_rolled st" "sk_started st' = sk_started st" "active_text st = []"
    using kept assms(3,4) by (auto simp: active_text_def)
  have "\<not> max_age_us a < now - sk_started st" if "reading env t now" for now
    using assms(5,6) that unfolding calm_def by (metis not_less)
  moreover have "\<not> aud_max_bytes a < int (utf8_size (line @ [10]))"
    using assms(7) line unfolding rotation_fits_def by (meson not_less)
  ultimately show ?thesis using again keep line text' by auto
qed

text \<open>Actions that end in a value whatever the state.\<close>

definition raises_not :: "('w, 'a) act \<Rightarrow> bool" where
  "raises_not m \<longleftrightarrow> (\<forall>w. \<exists>x w'. m w = (Inr x, w'))"

named_theorems raises_not_intros "actions that do not raise"

lemma raises_not_simple [raises_not_intros]:
  "raises_not (retA x)" "raises_not (getA f)" "raises_not (modA g)" "raises_not (clock env)"
  by (simp_all add: raises_not_def clock_def)

lemma raises_not_bind [raises_not_intros]:
  "raises_not m \<Longrightarrow> (\<And>x. raises_not (f x)) \<Longrightarrow> raises_not (bindA m f)"
  by (simp add: raises_not_def bindA_def split: prod.splits sum.splits) (metis Inl_not_Inr fst_conv sum.inject(2) prod.inject)

lemma raises_not_try [raises_not_intros]: "raises_not m \<Longrightarrow> raises_not (tryA m h)"
  by (simp add: raises_not_def tryA_def split: prod.splits sum.splits) (metis Inl_not_Inr prod.inject)

lemma raises_not_when [raises_not_intros]: "raises_not m \<Longrightarrow> raises_not (whenA c m)"
  by (simp add: whenA_def raises_not_simple)

lemma raises_not_for [raises_not_intros]: "(\<And>x. raises_not (f x)) \<Longrightarrow> raises_not (forA f xs)"
  by (induction xs) (auto intro!: raises_not_intros)

lemma raises_not_if [raises_not_intros]: "raises_not m \<Longrightarrow> raises_not m' \<Longrightarrow> raises_not (if c then m else m')"
  by simp

lemma raises_not_file_op: "\<forall>n. \<not> io_fails env n \<Longrightarrow> raises_not (file_op env f)"
  by (simp add: raises_not_def file_op_def Let_def)

lemma raises_not_open: "\<forall>n. \<not> io_fails env n \<Longrightarrow> raises_not (open_sink env a)"
  unfolding open_sink_def oldest_record_ts_def prune_def prune_file_def unlink_def
  by (intro raises_not_intros raises_not_file_op)

lemma raises_not_append: "\<forall>n. \<not> io_fails env n \<Longrightarrow> io_dump env ev = Some line \<Longrightarrow> raises_not (append_record env a ev)"
  unfolding append_record_def should_rotate_def
  by simp (intro raises_not_intros raises_not_file_op raises_not_open)

lemma raises_not_rotate: "\<forall>n. \<not> io_fails env n \<Longrightarrow> raises_not (rotate_segments env a)"
  unfolding rotate_segments_def roll_step_def by (intro raises_not_intros raises_not_file_op raises_not_open)

text \<open>What an action raises, whatever the state.\<close>

definition raises_only :: "exc set \<Rightarrow> ('w, 'a) act \<Rightarrow> bool" where
  "raises_only E m \<longleftrightarrow> (\<forall>w e w'. m w = (Inl e, w') \<longrightarrow> e \<in> E)"

lemma raises_only_simple:
  "raises_only E (retA x)" "raises_only E (getA f)" "raises_only E (modA g)" "raises_only E (clock env)"
  by (simp_all add: raises_only_def clock_def)

lemma raises_only_raise: "e \<in> E \<Longrightarrow> raises_only E (raiseA e)" "OSError \<in> E \<Longrightarrow> raises_only E (file_op env h)"
  by (auto simp: raises_only_def file_op_def Let_def)

lemma raises_only_bind: "raises_only E m \<Longrightarrow> (\<And>x. raises_only E (f x)) \<Longrightarrow> raises_only E (bindA m f)"
  unfolding raises_only_def by (simp add: bindA_Inl_iff) blast

lemma raises_only_try: "(\<And>e. raises_only E (h e)) \<Longrightarrow> raises_only E (tryA m h)"
  unfolding raises_only_def tryA_def by (auto split: prod.splits sum.splits)

lemma raises_only_when: "raises_only E m \<Longrightarrow> raises_only E (whenA c m)"
  by (simp add: whenA_def raises_only_simple)

lemma raises_only_if: "raises_only E m \<Longrightarrow> raises_only E m' \<Longrightarrow> raises_only E (if c then m else m')"
  by simp

lemma raises_only_for: "(\<And>x. raises_only E (f x)) \<Longrightarrow> raises_only E (forA f xs)"
  by (induction xs) (auto intro!: raises_only_simple raises_only_bind)

lemmas raises_only_intros = raises_only_simple raises_only_raise raises_only_bind raises_only_try raises_only_when raises_only_if raises_only_for

lemma open_raises: "OSError \<in> E \<Longrightarrow> raises_only E (open_sink env a)"
  unfolding open_sink_def oldest_record_ts_def prune_def prune_file_def unlink_def by (intro raises_only_intros)

lemma rotate_raises: "OSError \<in> E \<Longrightarrow> raises_only E (rotate_segments env a)"
  unfolding rotate_segments_def roll_step_def by (intro raises_only_intros open_raises)

definition sink_errors :: "exc set" where
  "sink_errors = {OSError, audit_deny AUDIT_WRITE_FAILED, PyError ''PydanticSerializationError''}"

lemma sink_errors [simp]:
  "OSError \<in> sink_errors" "audit_deny AUDIT_WRITE_FAILED \<in> sink_errors" "PyError ''PydanticSerializationError'' \<in> sink_errors"
  by (simp_all add: sink_errors_def)

lemma append_raises: "raises_only sink_errors (append_record env a ev)"
proof (cases "io_dump env ev")
  case None
  then show ?thesis by (simp add: append_record_def raises_only_raise)
next
  case (Some line)
  show ?thesis
    unfolding append_record_def should_rotate_def Some option.case by (intro raises_only_intros open_raises sink_errors)
qed

lemma write_sync_raises:
  assumes "write_sync env a ev st = Some (Inl e, st')"
  shows "e \<in> sink_errors"
proof -
  have "case y of (r, st') \<Rightarrow> \<forall>e. r = Inl e \<longrightarrow> e \<in> sink_errors" if "write_sync env a ev st = Some y" for env a ev st y
  proof (rule write_sync.raw_induct [OF _ that])
    fix f env a ev st y
    assume IH: "\<And>env a ev st y. f env a ev st = Some y \<Longrightarrow> case y of (r, st') \<Rightarrow> \<forall>e. r = Inl e \<longrightarrow> e \<in> sink_errors"
      and step: "(case append_record env a ev st of
        (Inl e, st') \<Rightarrow> Some (Inl e, st')
      | (Inr again, st') \<Rightarrow>
          (if \<not> again then Some (Inr (), st')
           else case rotate_segments env a st' of
                  (Inl e, st'') \<Rightarrow> Some (Inl e, st'')
                | (Inr ev', st'') \<Rightarrow> f env a ev' st'')) = Some y"
    show "case y of (r, st') \<Rightarrow> \<forall>e. r = Inl e \<longrightarrow> e \<in> sink_errors"
    proof (cases "append_record env a ev st")
      case app: (Pair r1 st1)
      show ?thesis
      proof (cases r1)
        case (Inl e)
        then show ?thesis using step app append_raises [of env a ev] by (auto simp: raises_only_def)
      next
        case (Inr again)
        show ?thesis
        proof (cases "rotate_segments env a st1")
          case rot: (Pair r2 st2)
          have "r2 = Inl e \<Longrightarrow> e \<in> sink_errors" for e
            using rot rotate_raises [OF sink_errors(1), of env a] by (auto simp: raises_only_def)
          then show ?thesis using step app Inr rot IH by (auto split: if_splits sum.splits)
        qed
      qed
    qed
  qed
  from this [OF assms] show ?thesis by simp
qed

text \<open>A serialization error is that of the record, or of the rotation record after it.\<close>

lemma append_serializes:
  "append_record env a ev st = (Inl (PyError ''PydanticSerializationError''), st') \<Longrightarrow> io_dump env ev = None"
proof (rule ccontr)
  assume r: "append_record env a ev st = (Inl (PyError ''PydanticSerializationError''), st')" and "io_dump env ev \<noteq> None"
  then obtain line where Some: "io_dump env ev = Some line" by blast
  have "raises_only {OSError, audit_deny AUDIT_WRITE_FAILED} (append_record env a ev)"
    unfolding append_record_def should_rotate_def Some option.case by (intro raises_only_intros open_raises) simp_all
  then show False using r by (auto simp: raises_only_def)
qed

lemma write_sync_serializes:
  assumes "write_sync env a ev st = Some (Inl (PyError ''PydanticSerializationError''), st')"
  shows "io_dump env ev = None \<or> (\<exists>ts. io_dump env (rotation_event a ts) = None)"
proof -
  let ?S = "PyError ''PydanticSerializationError''"
  have "case y of (r, st') \<Rightarrow> r = Inl ?S \<longrightarrow> io_dump env ev = None \<or> (\<exists>ts. io_dump env (rotation_event a ts) = None)"
    if "write_sync env a ev st = Some y" for env a ev st y
  proof (rule write_sync.raw_induct [OF _ that])
    fix f env a ev st y
    assume IH: "\<And>env a ev st y. f env a ev st = Some y \<Longrightarrow>
          case y of (r, st') \<Rightarrow> r = Inl ?S \<longrightarrow> io_dump env ev = None \<or> (\<exists>ts. io_dump env (rotation_event a ts) = None)"
      and step: "(case append_record env a ev st of
        (Inl e, st') \<Rightarrow> Some (Inl e, st')
      | (Inr again, st') \<Rightarrow>
          (if \<not> again then Some (Inr (), st')
           else case rotate_segments env a st' of
                  (Inl e, st'') \<Rightarrow> Some (Inl e, st'')
                | (Inr ev', st'') \<Rightarrow> f env a ev' st'')) = Some y"
    show "case y of (r, st') \<Rightarrow> r = Inl ?S \<longrightarrow> io_dump env ev = None \<or> (\<exists>ts. io_dump env (rotation_event a ts) = None)"
    proof (cases "append_record env a ev st")
      case app: (Pair r1 st1)
      show ?thesis
      proof (cases r1)
        case (Inl e)
        then show ?thesis using step app append_serializes [of env a ev st st1] by auto
      next
        case (Inr again)
        show ?thesis
        proof (cases "rotate_segments env a st1")
          case rot: (Pair r2 st2)
          show ?thesis
          proof (cases r2)
            case (Inl e)
            then have "e \<noteq> ?S" using rot rotate_raises [of "{OSError}" env a] by (auto simp: raises_only_def)
            then show ?thesis using step app Inr rot Inl by (auto split: if_splits)
          next
            case r2: (Inr ev')
            then obtain ts where "ev' = rotation_event a ts" using rot by (auto simp: rotate_segments_def bindA_Inr_iff)
            then show ?thesis using step app Inr rot r2 IH [of env a ev' st2 y] by (cases again) auto
          qed
        qed
      qed
    qed
  qed
  from this [OF assms] show ?thesis by simp
qed

text \<open>What the sink's \<open>write\<close> can raise, and why.\<close>

lemma sink_write_fails:
  assumes "sink_write env a ev st = (Inl e, st')"
  shows "e = audit_deny AUDIT_WRITE_FAILED
    \<or> e = PyError ''PydanticSerializationError'' \<and> (io_dump env ev = None \<or> (\<exists>ts. io_dump env (rotation_event a ts) = None))
    \<or> e = PyError ''RecursionError'' \<and> write_sync env a ev st = None"
proof (cases "write_sync env a ev st")
  case None
  then show ?thesis using assms by (simp add: sink_write_def)
next
  case (Some x)
  obtain r st1 where x: "x = (r, st1)" by (cases x)
  show ?thesis
  proof (cases r)
    case (Inl e')
    then have w: "write_sync env a ev st = Some (Inl e', st1)" using Some x by simp
    show ?thesis
      using assms write_sync_raises [OF w] write_sync_serializes [of env a ev st st1] w
      by (auto simp: sink_write_def sink_errors_def split: if_splits)
  qed (use assms Some x in \<open>simp add: sink_write_def\<close>)
qed

text \<open>
  The line was appended to the active segment, or that segment was then rolled and the new one
  holds the rotation record alone.
\<close>

definition persisted :: "sink_env \<Rightarrow> audit_config \<Rightarrow> ustr \<Rightarrow> ustr \<Rightarrow> sink \<Rightarrow> bool" where
  "persisted env a old line st' \<longleftrightarrow>
     active_text st' = old @ line @ [10]
   \<or> (\<exists>m ts rl. dict_get (sk_rolled st') 1 = Some \<lparr> sg_text = old @ line @ [10], sg_mtime = m \<rparr>
        \<and> io_dump env (rotation_event a ts) = Some rl \<and> active_text st' = rl @ [10])"

text \<open>Nothing outside stops a write: no file operation fails, and the records serialize.\<close>

definition working :: "sink_env \<Rightarrow> audit_config \<Rightarrow> audit_record \<Rightarrow> bool" where
  "working env a ev \<longleftrightarrow>
     (\<forall>n. \<not> io_fails env n) \<and> io_dump env ev \<noteq> None \<and> (\<forall>ts. io_dump env (rotation_event a ts) \<noteq> None)"

lemma working_append:
  assumes "working env a ev" "append_record env a ev st = (r, st')"
  shows "\<exists>x. r = Inr x"
  using assms raises_not_append [of env ev _ a] by (auto simp: working_def raises_not_def) (metis prod.inject)

lemma working_rotation: "working env a ev \<Longrightarrow> working env a (rotation_event a ts)"
  by (simp add: working_def)

lemma write_sync_returns:
  assumes w: "wf_sink t st" and calm: "calm env a t" and fits: "rotation_fits env a"
    and k: "1 \<le> aud_rotate_keep a" and e: "io_first_ts env [] = None"
  shows "\<exists>r st'. write_sync env a ev st = Some (r, st')
    \<and> (r = Inr () \<longrightarrow> (\<exists>line. io_dump env ev = Some line \<and> persisted env a (active_text st) line st'))
    \<and> (working env a ev \<longrightarrow> r = Inr ())"
proof (cases "append_record env a ev st")
  case app: (Pair r st1)
  show ?thesis
  proof (cases r)
    case (Inl x)
    then show ?thesis using app working_append [of env a ev st r st1] by (auto simp: write_sync.simps)
  next
    case (Inr again)
    then obtain line m where line: "io_dump env ev = Some line" and m: "reading env t m"
      and act: "sk_active st1 = Some \<lparr> sg_text = active_text st @ line @ [10], sg_mtime = m \<rparr>" and w1: "wf_sink t st1"
      using append_Inr [OF _ w, of env a ev again st1] app by auto
    show ?thesis
    proof (cases again)
      case False
      then show ?thesis using app Inr line act by (simp add: write_sync.simps persisted_def active_text_def)
    next
      case True
      obtain r2 st2 where rot: "rotate_segments env a st1 = (r2, st2)" by (cases "rotate_segments env a st1")
      show ?thesis
      proof (cases r2)
        case (Inl x)
        have "\<not> working env a ev" using raises_not_rotate [of env a] rot Inl by (auto simp: working_def raises_not_def) (metis Inl_Inr_False prod.inject)
        then show ?thesis using rot Inl True app \<open>r = Inr again\<close> by (simp add: write_sync.simps)
      next
        case r2: (Inr ev')
        from rotate_Inr [OF _ w1 act, of env a ev' st2] rot r2 obtain ts now m2
          where ev': "ev' = rotation_event a ts" and now: "reading env t now" "reading env t m2"
            and st2: "sk_open st2" "wf_sink t st2" "sk_active st2 = Some \<lparr> sg_text = [], sg_mtime = m2 \<rparr>"
              "reading env t (sk_started st2)"
            and one: "dict_get (sk_rolled st2) 1 = Some \<lparr> sg_text = active_text st @ line @ [10], sg_mtime = m \<rparr>"
          using calm_not_expired [OF calm _ m k] e by (auto simp: history_def)
        obtain r3 st3 where app2: "append_record env a ev' st2 = (r3, st3)" by (cases "append_record env a ev' st2")
        have w2: "write_sync env a ev st = write_sync env a ev' st2"
          using app Inr True rot r2 by (simp add: write_sync.simps [of env a ev st])
        show ?thesis
        proof (cases r3)
          case (Inl x)
          then have "\<not> working env a ev" using working_append [OF working_rotation app2 [unfolded ev']] by auto
          then show ?thesis using w2 app2 Inl by (simp add: write_sync.simps [of env a ev' st2])
        next
          case r3: (Inr again')
          have "\<not> again' \<and> sk_rolled st3 = sk_rolled st2
              \<and> (\<exists>rl. io_dump env (rotation_event a ts) = Some rl \<and> active_text st3 = rl @ [10])"
            using rotated_append [of env a ts st2 again' st3 t m2] app2 r3 ev' st2 calm fits by simp
          then show ?thesis
            using w2 app2 r3 one line by (auto simp: write_sync.simps [of env a ev' st2] persisted_def)
        qed
      qed
    qed
  qed
qed

text \<open>A record that alone exceeds the size limit.\<close>

definition oversize :: "sink_env \<Rightarrow> audit_config \<Rightarrow> audit_record \<Rightarrow> bool" where
  "oversize env a ev \<longleftrightarrow>
     (case io_dump env ev of None \<Rightarrow> False | Some line \<Rightarrow> aud_max_bytes a < int (utf8_size (line @ [10])))"

lemma utf8_size_append: "utf8_size (s @ t) = utf8_size s + utf8_size t"
  by (simp add: utf8_size_def)

lemma oversize_append:
  assumes "\<forall>n. \<not> io_fails env n" "oversize env a ev" "wf_sink t st"
  shows "\<exists>st' seg. append_record env a ev st = (Inr True, st') \<and> sk_active st' = Some seg \<and> wf_sink t st'"
proof -
  obtain line where line: "io_dump env ev = Some line" "aud_max_bytes a < int (utf8_size (line @ [10]))"
    using assms(2) by (auto simp: oversize_def split: option.splits)
  obtain again st' where run: "append_record env a ev st = (Inr again, st')"
    using raises_not_append [OF assms(1) line(1), of a] unfolding raises_not_def by blast
  obtain line' m where a: "io_dump env ev = Some line'"
    "sk_active st' = Some \<lparr> sg_text = active_text st @ line' @ [10], sg_mtime = m \<rparr>" "wf_sink t st'"
    "aud_max_bytes a < int (utf8_size (active_text st @ line' @ [10])) \<longrightarrow> again"
    using append_Inr [OF run assms(3)] by blast
  have "aud_max_bytes a < int (utf8_size (active_text st @ line' @ [10]))"
    using line a(1) by (simp add: utf8_size_append)
  then have again using a(4) by blast
  with a(2,3) run show ?thesis by simp
qed

lemma write_sync_diverges:
  assumes "write_sync env a ev st = Some y"
  shows "\<not> ((\<forall>n. \<not> io_fails env n) \<and> (\<forall>ts. oversize env a (rotation_event a ts))
     \<and> wf_sink 0 st \<and> oversize env a ev)"
proof (rule write_sync.raw_induct [OF _ assms], rule notI)
  fix f env a ev st y
  assume IH: "\<And>env a ev st y. f env a ev st = Some y \<Longrightarrow>
      \<not> ((\<forall>n. \<not> io_fails env n) \<and> (\<forall>ts. oversize env a (rotation_event a ts)) \<and> wf_sink 0 st \<and> oversize env a ev)"
    and step: "(case append_record env a ev st of
        (Inl e, st') \<Rightarrow> Some (Inl e, st')
      | (Inr again, st') \<Rightarrow>
          (if \<not> again then Some (Inr (), st')
           else case rotate_segments env a st' of
                  (Inl e, st'') \<Rightarrow> Some (Inl e, st'')
                | (Inr ev', st'') \<Rightarrow> f env a ev' st'')) = Some y"
    and a: "(\<forall>n. \<not> io_fails env n) \<and> (\<forall>ts. oversize env a (rotation_event a ts)) \<and> wf_sink 0 st \<and> oversize env a ev"
  obtain st1 seg where app: "append_record env a ev st = (Inr True, st1)"
    and s1: "sk_active st1 = Some seg" "wf_sink 0 st1"
    using oversize_append [of env a ev 0 st] a by blast
  obtain ev' st2 where rot: "rotate_segments env a st1 = (Inr ev', st2)"
    using raises_not_rotate [of env a] a unfolding raises_not_def by blast
  obtain ts where ev': "ev' = rotation_event a ts" and w2: "wf_sink 0 st2"
    using rotate_Inr [OF rot s1(2,1)] by blast
  have "f env a ev' st2 = Some y" using step app rot by simp
  then show False using IH [of env a ev' st2 y] a w2 ev' by blast
qed

section \<open>Reading back\<close>

lemma splitlines_line:
  "list_all (\<lambda>c. \<not> line_break c) l \<Longrightarrow> splitlines (l @ 10 # s) = l # splitlines s"
proof (induction l)
  case Nil
  then show ?case by (simp add: line_break_def)
next
  case (Cons c l)
  then show ?case by (auto simp: line_break_def)
qed

text \<open>The text of a segment the sink wrote.\<close>

definition segment_text :: "ustr list \<Rightarrow> ustr" where
  "segment_text ls = concat (map (\<lambda>l. l @ [10]) ls)"

lemma splitlines_segment:
  "\<forall>l \<in> set ls. list_all (\<lambda>c. \<not> line_break c) l \<Longrightarrow> splitlines (segment_text ls) = ls"
  by (induction ls) (simp_all add: segment_text_def splitlines_line)

lemma splitlines_newline: "splitlines ((s @ [10]) @ t) = splitlines (s @ [10]) @ splitlines t"
proof (induction s rule: splitlines.induct)
  case 1
  then show ?case by (simp add: line_break_def)
next
  case (2 c s)
  show ?case
  proof (cases "c = 13")
    case True
    show ?thesis
    proof (cases s)
      case Nil
      then show ?thesis using True by (simp add: line_break_def)
    next
      case (Cons d s')
      then show ?thesis using True "2.IH" by (auto simp: line_break_def)
    qed
  next
    case False
    have "splitlines (s @ [10]) \<noteq> []" by (cases s) (auto simp: line_break_def split: list.splits)
    then show ?thesis using False "2.IH"(2,3) by (auto split: list.splits)
  qed
qed

lemma splitlines_append: "s = [] \<or> last s = 10 \<Longrightarrow> splitlines (s @ t) = splitlines s @ splitlines t"
  using splitlines_newline [of "butlast s" t] by (metis append_Nil append_butlast_last_id splitlines.simps(1))

lemma read_lines_append:
  "read_lines env ls = (old, False) \<Longrightarrow> read_lines env (ls @ ls') = map_prod (\<lambda>rs. old @ rs) id (read_lines env ls')"
  by (induction ls arbitrary: old) (auto simp: map_prod_def split: prod.splits if_splits option.splits)

section \<open>Properties\<close>

text \<open>
  C23: a write returns, and what it reports is so (AUDIT-001, AUDIT-009). With room for the rotation
  record in a segment, at least one rolled segment and a clock that does not jump over the
  retention age, \<open>write\<close> ends after at most one rotation, whatever file operations fail on the
  way. When it succeeds the serialized record is the last line of the text the active segment
  had, in the active segment or, after a rotation, in number 1. When no file operation fails and
  the records serialize it does succeed; otherwise it raises \<open>AUDIT_WRITE_FAILED\<close> or the
  serialization error, never \<open>RecursionError\<close>.
\<close>

theorem write_returns_and_persists:
  assumes "wf_sink t st" and "calm env a t" and "rotation_fits env a"
    and "1 \<le> aud_rotate_keep a" and "io_first_ts env [] = None"
  shows "\<exists>r st'. sink_write env a ev st = (r, st')
    \<and> (r = Inr () \<longrightarrow> (\<exists>line. io_dump env ev = Some line \<and> persisted env a (active_text st) line st'))
    \<and> (working env a ev \<longrightarrow> r = Inr ())
    \<and> (\<forall>e. r = Inl e \<longrightarrow> e \<in> {audit_deny AUDIT_WRITE_FAILED, PyError ''PydanticSerializationError''})"
proof -
  obtain r st' where w: "write_sync env a ev st = Some (r, st')"
    "r = Inr () \<longrightarrow> (\<exists>line. io_dump env ev = Some line \<and> persisted env a (active_text st) line st')"
    "working env a ev \<longrightarrow> r = Inr ()"
    using write_sync_returns [OF assms] by blast
  then show ?thesis using write_sync_raises [of env a ev st] by (auto simp: sink_write_def sink_errors_def)
qed

text \<open>
  C24: without that room writing never returns. When the rotation record itself exceeds
  \<open>max_bytes\<close> (the configuration sets no lower bound), every rotation writes a record that
  triggers the next one; CPython ends this with a \<open>RecursionError\<close>, and each round moves the
  history one segment closer to being pruned.
\<close>

theorem oversize_rotation_never_returns:
  assumes "\<forall>n. \<not> io_fails env n" and "\<forall>ts. oversize env a (rotation_event a ts)"
    and "wf_sink 0 st" and "oversize env a ev"
  shows "write_sync env a ev st = None"
  using write_sync_diverges [of env a ev st] assms by (cases "write_sync env a ev st") auto


lemma write_appends:
  assumes "\<forall>n. \<not> io_fails env n" "wf_sink t st" "sk_open st" "io_dump env r = Some l"
    and "int (utf8_size (active_text st @ l @ [10])) \<le> aud_max_bytes a"
    and "\<forall>x. reading env t x \<longrightarrow> x - sk_started st \<le> max_age_us a"
  shows "\<exists>st'. sink_write env a r st = (Inr (), st') \<and> active_text st' = active_text st @ l @ [10]
    \<and> wf_sink t st' \<and> sk_open st' \<and> sk_started st' = sk_started st"
proof -
  obtain again st' where run: "append_record env a r st = (Inr again, st')"
    using raises_not_append [OF assms(1,4), of a] unfolding raises_not_def by blast
  from append_Inr [OF run assms(2)] obtain line m where st': "sk_active st' = Some \<lparr> sg_text = active_text st @ line @ [10], sg_mtime = m \<rparr>"
    "sk_open st'" "wf_sink t st'" "sk_open st \<longrightarrow> sk_started st' = sk_started st" "io_dump env r = Some line"
    "again \<longrightarrow> aud_max_bytes a < int (utf8_size (active_text st @ line @ [10])) \<or> (\<exists>now. reading env t now \<and> max_age_us a < now - sk_started st')"
    by blast
  have l: "line = l" "sk_started st' = sk_started st" using st'(4,5) assms(3,4) by simp_all
  have "\<not> again" using st'(6) assms(5,6) unfolding l by (metis not_less)
  then show ?thesis using run st'(1-3) l by (simp add: sink_write_def write_sync.simps active_text_def)
qed

lemma writes_append:
  assumes "\<forall>n. \<not> io_fails env n"
  shows "list_all2 (\<lambda>r l. io_dump env r = Some l) rs ls \<Longrightarrow> wf_sink t st \<Longrightarrow> sk_open st
    \<Longrightarrow> int (utf8_size (active_text st @ segment_text ls)) \<le> aud_max_bytes a
    \<Longrightarrow> \<forall>x. reading env t x \<longrightarrow> x - sk_started st \<le> max_age_us a
    \<Longrightarrow> \<exists>st'. forA (sink_write env a) rs st = (Inr (), st') \<and> active_text st' = active_text st @ segment_text ls"
proof (induction rs ls arbitrary: st rule: list_all2_induct)
  case Nil
  then show ?case by (simp add: segment_text_def)
next
  case (Cons r rs l ls)
  have seg: "segment_text (l # ls) = l @ [10] @ segment_text ls" by (simp add: segment_text_def)
  have "int (utf8_size (active_text st @ l @ [10])) \<le> aud_max_bytes a"
    using Cons.prems(3) by (simp add: seg utf8_size_def)
  from write_appends [OF assms Cons.prems(1,2) Cons.hyps(1) this Cons.prems(4)] obtain st1 where
    st1: "sink_write env a r st = (Inr (), st1)" "active_text st1 = active_text st @ l @ [10]" "wf_sink t st1" "sk_open st1"
      "sk_started st1 = sk_started st" by blast
  have "\<exists>st'. forA (sink_write env a) rs st1 = (Inr (), st') \<and> active_text st' = active_text st1 @ segment_text ls"
    by (rule Cons.IH) (use Cons.prems(3,4) st1 in \<open>simp_all add: seg\<close>)
  then show ?case using st1(1,2) by (auto simp: seg)
qed

text \<open>
  C26: what is written is read back (AUDIT-013, AUDIT-014). Records that \<open>write\<close> appends to an open
  segment they fit in, one after the other, are what the strict reader then yields, in order and
  after the records that were there, when the JSON form of each parses to it and holds no line
  boundary of \<open>str.splitlines\<close>.
\<close>

theorem audit_log_roundtrip:
  assumes "wf_sink t st" "sk_open st" "\<forall>n. \<not> io_fails env n"
    and "list_all2 (\<lambda>r l. io_dump env r = Some l \<and> io_parse env l = Some r
        \<and> list_all (\<lambda>c. \<not> line_break c) l \<and> \<not> list_all white l) rs ls"
    and "int (utf8_size (active_text st @ segment_text ls)) \<le> aud_max_bytes a"
    and "\<forall>x. reading env t x \<longrightarrow> x - sk_started st \<le> max_age_us a"
    and "read_events env (Some (active_text st)) = (old, False)" "active_text st = [] \<or> last (active_text st) = 10"
  shows "\<exists>st'. forA (sink_write env a) rs st = (Inr (), st')
    \<and> read_events env (Some (active_text st')) = (old @ rs, False)"
proof -
  have "list_all2 (\<lambda>r l. io_dump env r = Some l) rs ls" using assms(4) by (rule list_all2_mono) simp
  from writes_append [OF assms(3) this assms(1,2,5,6)] obtain st' where
    st': "forA (sink_write env a) rs st = (Inr (), st')" "active_text st' = active_text st @ segment_text ls" by blast
  have "read_lines env ls = (rs, False)" using assms(4) by (induction rule: list_all2_induct) simp_all
  moreover have "splitlines (segment_text ls) = ls"
    using assms(4) by (intro splitlines_segment) (auto simp: list_all2_conv_all_nth in_set_conv_nth)
  ultimately have "read_lines env (splitlines (active_text st') ) = (old @ rs, False)"
    using assms(7) by (simp add: st'(2) splitlines_append [OF assms(8)] read_events_def read_lines_append)
  then show ?thesis using st'(1) by (auto simp: read_events_def)
qed

text \<open>
  JSON leaves U+2028, U+2029 and U+0085 unescaped and \<open>splitlines\<close> breaks lines there. A record
  whose JSON form holds one, as a canonical path taken from a request can, makes the reader stop
  with \<open>CorruptAuditLog\<close> at that record, although it was written intact.
\<close>

lemma line_separator_corrupts:
  assumes "sep \<in> {133, 8232, 8233}" and "list_all (\<lambda>c. \<not> line_break c) pre" and "\<not> list_all white pre"
    and "io_parse env pre = None"
  shows "read_events env (Some (segment_text ((pre @ sep # post) # ls))) = ([], True)"
proof -
  have s: "line_break sep" "sep \<noteq> 13" using assms(1) by (auto simp: line_break_def)
  have "splitlines (pre @ sep # rest) = pre # splitlines rest" for rest
    using assms(2) s by (induction pre) (auto simp: line_break_def)
  then show ?thesis
    using assms(3,4) by (simp add: read_events_def segment_text_def)
qed

text \<open>
  a completeness ratio of one means what it says (AUDIT-004). If the identifiers in the log are
  among those of the issued requests, the ratio is defined exactly when the log is readable and no
  request has two events, and it is 1 exactly when in addition every issued request has one.
\<close>

lemma completeness_measures:
  assumes "issued = card ids" "0 < issued" and "read_events env file = (rs, corrupt)"
    and "set (request_ids rs) \<subseteq> ids" "finite ids"
  shows "(completeness env file issued = None \<longleftrightarrow> corrupt \<or> \<not> distinct (request_ids rs))
    \<and> (completeness env file issued = Some (issued, issued) \<longleftrightarrow>
        \<not> corrupt \<and> distinct (request_ids rs) \<and> set (request_ids rs) = ids)"
proof -
  have "distinct (request_ids rs) \<Longrightarrow> length (request_ids rs) = card ids \<longleftrightarrow> set (request_ids rs) = ids"
    using assms(4,5) by (metis card_subset_eq distinct_card)
  then show ?thesis
    using assms(1-3) by (cases corrupt) (auto simp: completeness_def Let_def)
qed

section \<open>Examples\<close>

definition demo_env :: sink_env where
  "demo_env = \<lparr> io_now = (\<lambda>n. 0), io_fails = (\<lambda>n. False), io_dump = (\<lambda>r. Some [123, 125]),
     io_first_ts = (\<lambda>s. None), io_parse = (\<lambda>s. if s = [123, 125] then Some (ready_event 0) else None) \<rparr>"

definition demo_sink :: sink where
  "demo_sink = \<lparr> sk_open = True, sk_active = Some \<lparr> sg_text = [120], sg_mtime = 0 \<rparr>, sk_rolled = [], sk_started = 0,
     sk_tick = 0 \<rparr>"

definition small_audit :: "int \<Rightarrow> audit_config" where
  "small_audit n = (cfg_audit demo_config) \<lparr> aud_max_bytes := n \<rparr>"

lemma demo_sink_wf: "wf_sink 0 demo_sink"
  by (simp add: wf_sink_def demo_sink_def)

theorem write_returns_and_persists_witness:
  "\<exists>st'. sink_write demo_env (small_audit 3) (ready_event 0) demo_sink = (Inr (), st')
     \<and> persisted demo_env (small_audit 3) [120] [123, 125] st'"
proof -
  have c: "calm demo_env (small_audit 3) 0"
    by (simp add: calm_def reading_def demo_env_def max_age_us_def small_audit_def demo_config_def)
  have f: "rotation_fits demo_env (small_audit 3)"
    by (simp add: rotation_fits_def demo_env_def small_audit_def utf8_size_def utf8_char_def)
  have w: "working demo_env (small_audit 3) (ready_event 0)" by (simp add: working_def demo_env_def)
  have "1 \<le> aud_rotate_keep (small_audit 3)" "io_first_ts demo_env [] = None" by code_simp+
  from write_returns_and_persists [OF demo_sink_wf c f this, of "ready_event 0"] w show ?thesis
    by (auto simp: demo_env_def demo_sink_def active_text_def)
qed

theorem oversize_rotation_never_returns_witness:
  "write_sync demo_env (small_audit 2) (ready_event 0) demo_sink = None"
proof -
  have o: "oversize demo_env (small_audit 2) ev" for ev
    by (simp add: oversize_def demo_env_def small_audit_def utf8_size_def utf8_char_def)
  have "\<forall>n. \<not> io_fails demo_env n" by (simp add: demo_env_def)
  moreover have "\<forall>ts. oversize demo_env (small_audit 2) (rotation_event (small_audit 2) ts)" using o by blast
  ultimately show ?thesis by (rule oversize_rotation_never_returns [OF _ _ demo_sink_wf o])
qed


theorem audit_log_roundtrip_witness:
  "\<exists>st'. forA (sink_write demo_env (small_audit 9)) [ready_event 0, ready_event 0] (demo_sink \<lparr> sk_active := Some \<lparr> sg_text = [], sg_mtime = 0 \<rparr> \<rparr>)
       = (Inr (), st')
     \<and> read_events demo_env (Some (active_text st')) = ([ready_event 0, ready_event 0], False)"
proof -
  let ?st = "demo_sink \<lparr> sk_active := Some \<lparr> sg_text = [], sg_mtime = 0 \<rparr> \<rparr>"
  let ?rs = "[ready_event 0, ready_event 0]" and ?ls = "[[123, 125], [123, 125]] :: ustr list"
  have w: "wf_sink 0 ?st" "sk_open ?st" and n: "\<forall>n. \<not> io_fails demo_env n" by (simp_all add: wf_sink_def demo_sink_def demo_env_def)
  have l: "list_all2 (\<lambda>r l. io_dump demo_env r = Some l \<and> io_parse demo_env l = Some r
        \<and> list_all (\<lambda>c. \<not> line_break c) l \<and> \<not> list_all white l) ?rs ?ls"
    by (simp add: demo_env_def line_break_def white_def)
  have z: "int (utf8_size (active_text ?st @ segment_text ?ls)) \<le> aud_max_bytes (small_audit 9)" by code_simp
  have a: "\<forall>x. reading demo_env 0 x \<longrightarrow> x - sk_started ?st \<le> max_age_us (small_audit 9)"
    by (simp add: reading_def demo_env_def demo_sink_def max_age_us_def small_audit_def demo_config_def)
  have r: "read_events demo_env (Some (active_text ?st)) = ([], False)" "active_text ?st = [] \<or> last (active_text ?st) = 10"
    by (simp_all add: active_text_def read_events_def)
  from audit_log_roundtrip [OF w n l z a r] show ?thesis by simp
qed

lemma line_separator_corrupts_witness:
  "read_events demo_env (Some [123, 8232, 125, 10]) = ([], True)"
proof -
  have "list_all (\<lambda>c. \<not> line_break c) [123]" "\<not> list_all white [123]" "io_parse demo_env [123] = None"
    by (simp_all add: line_break_def white_def demo_env_def)
  from line_separator_corrupts [OF _ this, of 8232 "[125]" "[]"] show ?thesis by (simp add: segment_text_def)
qed

lemma completeness_measures_witness:
  "completeness demo_env (Some [123, 125, 10]) 1 \<noteq> Some (1, 1)"
proof -
  have "read_events demo_env (Some [123, 125, 10]) = ([ready_event 0], False)" by code_simp
  from completeness_measures [OF _ _ this, of 1 "{u ''r''}"] show ?thesis
    by (simp add: request_ids_def ready_event_def)
qed

end
