(* ===== verification/Audited_Requests.thy ===== *)
theory Audited_Requests
  imports Request_Lifecycle Audit_Sink
begin

text \<open>
  \<open>gateway/pipeline.py\<close> on \<open>gateway/audit.py\<close>: a request whose record goes to the modelled sink,
  so that every way \<open>handle\<close> can fail is one the code has.
\<close>

section \<open>Properties\<close>

text \<open>
  C5: every failure is a coded denial or a cancellation, but for two ways the sink itself can fail
  (BRIDGE-006, AUDIT-002). Whatever exception a stage raises, on the audit sink of the gateway the
  caller sees a reason code, AUDIT_WRITE_FAILED when the files refuse the record, or a cancellation,
  and when the deadline has expired never a bare one. What is left is the request's own record: it
  or the rotation record after it cannot be serialized, or its write rotates for ever and ends in a
  RecursionError.
\<close>

theorem failures_are_coded:
  assumes "g_write p = sink_write env a" "handle p raw w = (Inl e, w')"
  shows "(\<exists>st c. e = Denial st c) \<or> e = Cancelled \<and> \<not> g_deadline p
    \<or> (\<exists>ev s. rv_request_id ev = raw_request_id raw
        \<and> (e = PyError ''PydanticSerializationError''
             \<and> (io_dump env (Request_event ev) = None \<or> (\<exists>ts. io_dump env (rotation_event a ts) = None))
          \<or> e = PyError ''RecursionError'' \<and> write_sync env a (Request_event ev) s = None))"
  using handle_failures [OF assms(2)]
proof (elim disjE exE conjE)
  fix ev s s' assume ev: "rv_request_id ev = raw_request_id raw" and "g_write p (Request_event ev) s = (Inl e, s')"
  then have "sink_write env a (Request_event ev) s = (Inl e, s')" by (simp add: assms(1))
  from sink_write_fails [OF this] ev show ?thesis by blast
qed blast+

section \<open>Examples\<close>

text \<open>
  The gateway of the other examples on the sink, and a request without the headers that mirror its
  body: denied with the code of stage 02, or with the sink's own error when no record serializes.
\<close>

definition sink_pipeline :: "sink_env \<Rightarrow> sink pipeline_env" where
  "sink_pipeline env =
     (let p = demo_pipeline True False in
      \<lparr> g_py = g_py p, g_clock = g_clock p, g_config = g_config p, g_registry = g_registry p, g_opa = g_opa p,
        g_write = sink_write env (small_audit 9), g_call = g_call p, g_list = g_list p, g_interrupt = g_interrupt p,
        g_ver = g_ver p, g_fs0 = g_fs0 p, g_fs = g_fs p, g_cwd = g_cwd p, g_sdk = g_sdk p, g_lib = g_lib p,
        g_prescan_ns = g_prescan_ns p, g_deadline = g_deadline p \<rparr>)"

definition sink_world :: "sink world" where
  "sink_world = \<lparr> w_sink = demo_sink, w_builder = AuditBuilder [] 0 0, w_tick = 0, w_alive = True, w_trace = [] \<rparr>"

definition mute_env :: sink_env where
  "mute_env = demo_env \<lparr> io_dump := \<lambda>_. None \<rparr>"

lemma sink_pipeline_runs:
  "fst (handle (sink_pipeline demo_env) (read_raw ''a/f'' \<lparr> raw_metadata := [] \<rparr>) sink_world) = Inl (Denial PROTOCOL PROTO_METADATA_MISSING)"
  "fst (handle (sink_pipeline mute_env) (read_raw ''a/f'' \<lparr> raw_metadata := [] \<rparr>) sink_world) = Inl (PyError ''PydanticSerializationError'')"
  by code_simp+

theorem failures_are_coded_witness:
  "\<exists>w' ev. handle (sink_pipeline mute_env) (read_raw ''a/f'' \<lparr> raw_metadata := [] \<rparr>) sink_world
       = (Inl (PyError ''PydanticSerializationError''), w')
     \<and> rv_request_id ev = u ''r7'' \<and> io_dump mute_env (Request_event ev) = None"
proof -
  let ?raw = "read_raw ''a/f'' \<lparr> raw_metadata := [] \<rparr>"
  obtain w' where h: "handle (sink_pipeline mute_env) ?raw sink_world = (Inl (PyError ''PydanticSerializationError''), w')"
    using sink_pipeline_runs(2) by (metis prod.collapse)
  have "g_write (sink_pipeline mute_env) = sink_write mute_env (small_audit 9)" by (simp add: sink_pipeline_def Let_def)
  from failures_are_coded [OF this h] h show ?thesis by (auto simp: read_raw_def mute_env_def)
qed

end
