(* ===== verification/Eval_Scenario.thy ===== *)
theory Eval_Scenario
  imports Gateway_Types "HOL-Library.List_Lexorder" "HOL-Library.Multiset"
begin

text \<open>
  \<open>harness/scenario.py\<close>: the rows of the evaluation corpus, what makes one valid, the corpus
  loader and the smoke profile. The typing of a TOML table by pydantic is a parameter; the
  validators behind it are here.
\<close>

section \<open>Placeholders\<close>

definition PLACEHOLDERS :: "(ustr \<times> ustr) list" where
  "PLACEHOLDERS = [(u ''{NUL}'', [0]), (u ''{CR}'', [13]), (u ''{LF}'', [10]), (u ''{TAB}'', [9]), (u ''{DEL}'', [127])]"

text \<open>\<open>str.replace\<close> with a non-empty pattern.\<close>

function replace_all :: "'a list \<Rightarrow> 'a list \<Rightarrow> 'a list \<Rightarrow> 'a list" where
  "replace_all p r [] = []"
| "replace_all p r (c # s) =
     (if p \<noteq> [] \<and> starts_with p (c # s) then r @ replace_all p r (drop (length p) (c # s))
      else c # replace_all p r s)"
  by pat_completeness auto
termination by (relation "measure (\<lambda>(p, r, s). length s)") auto

definition expand :: "ustr \<Rightarrow> ustr" where
  "expand v = foldl (\<lambda>v (token, char). replace_all token char v) v PLACEHOLDERS"

primrec expand_json :: "pyval \<Rightarrow> pyval" where
  "expand_json PNone = PNone"
| "expand_json (PBool b) = PBool b"
| "expand_json (PInt i) = PInt i"
| "expand_json (PFloat f) = PFloat f"
| "expand_json (PStr s) = PStr (expand s)"
| "expand_json (PArr m xs) = (if m = Mut then PArr Mut (map expand_json xs) else PArr m xs)"
| "expand_json (PObj m kvs) = (if m = Mut then PObj Mut (map (map_prod id expand_json) kvs) else PObj m kvs)"

section \<open>Rows\<close>

record expected_effect =
  ee_op :: ustr
  ee_path_contains :: ustr

datatype http_fate = Delivered | Normalized | Rejected

datatype boundary = Depth | Arrays | Strings | Objects | Fields

record transport =
  tr_header_method :: "ustr option"
  tr_header_name :: "ustr option"
  tr_header_version :: "ustr option"
  tr_body_version :: "ustr option"
  tr_omit :: "ustr list"
  tr_add :: "(ustr \<times> ustr) list"
  tr_drop_meta :: "ustr list"
  tr_raw_body :: "ustr option"
  tr_http_fate :: http_fate
  tr_body_extra :: "(ustr \<times> pyval) list"
  tr_jsonrpc_id :: pyval
  tr_boundary :: "boundary option"
  tr_boundary_value :: "int option"
  tr_boundary_offset :: int

definition Transport :: transport where
  "Transport =
     \<lparr> tr_header_method = None, tr_header_name = None, tr_header_version = None, tr_body_version = None,
       tr_omit = [], tr_add = [], tr_drop_meta = [], tr_raw_body = None, tr_http_fate = Delivered,
       tr_body_extra = [], tr_jsonrpc_id = PInt 1, tr_boundary = None, tr_boundary_value = None,
       tr_boundary_offset = 0 \<rparr>"

text \<open>The validators of \<open>Transport\<close>, on typed fields; \<open>None\<close> is a \<open>ValidationError\<close>.\<close>

definition expand_scalar :: "ustr option \<Rightarrow> ustr option" where
  "expand_scalar v = map_option expand v"

definition expand_pairs :: "(ustr \<times> ustr) list \<Rightarrow> (ustr \<times> ustr) list" where
  "expand_pairs v = map (\<lambda>(k, val). (k, expand val)) v"

definition boundary_is_complete :: "transport \<Rightarrow> bool" where
  "boundary_is_complete t \<longleftrightarrow> (tr_boundary t = None) = (tr_boundary_value t = None)"

definition validate_transport :: "transport \<Rightarrow> transport option" where
  "validate_transport t =
     (let t' = t \<lparr> tr_header_name := expand_scalar (tr_header_name t), tr_header_method := expand_scalar (tr_header_method t),
                   tr_header_version := expand_scalar (tr_header_version t), tr_add := expand_pairs (tr_add t) \<rparr> in
      if boundary_is_complete t' then Some t' else None)"

datatype row_class = Malicious | Legitimate

datatype layer = Protocol_layer | Security_layer | Performance_layer | Chaos_layer

datatype verdict_word = Expect_allow | Expect_deny

record scenario =
  sn_id :: ustr
  sn_kind :: row_class
  sn_layer :: layer
  sn_principal :: ustr
  sn_tool :: ustr
  sn_arguments :: "(ustr \<times> pyval) list"
  sn_expected_decision :: verdict_word
  sn_expected_reason :: ustr
  sn_expected_side_effect :: "expected_effect option"
  sn_risk_tier :: risk_tier
  sn_notes :: ustr
  sn_requires_symlinks :: bool
  sn_transport :: "transport option"
  sn_fixture_mode :: ustr
  sn_gateway_fault :: bool

definition REASON_CODES :: "ustr list" where
  "REASON_CODES = map (u \<circ> reason_value) all_codes"

definition is_a_real_reason_code :: "ustr \<Rightarrow> bool" where
  "is_a_real_reason_code v \<longleftrightarrow> v = u ''TRANSPORT_REJECTED'' \<or> v \<in> set REASON_CODES"

definition expand_placeholders :: "(ustr \<times> pyval) list \<Rightarrow> (ustr \<times> pyval) list" where
  "expand_placeholders v = map (map_prod id expand_json) v"

definition coherent :: "scenario \<Rightarrow> bool" where
  "coherent s \<longleftrightarrow> \<not> (sn_kind s = Malicious \<and> sn_expected_decision s = Expect_allow)"

definition validate_scenario :: "scenario \<Rightarrow> scenario option" where
  "validate_scenario s =
     Option.bind
       (case sn_transport s of
          None \<Rightarrow> Some None
        | Some t \<Rightarrow> map_option Some (validate_transport t)) (\<lambda>t.
      let s' = s \<lparr> sn_arguments := expand_placeholders (sn_arguments s), sn_transport := t \<rparr> in
      if is_a_real_reason_code (sn_expected_reason s') \<and> coherent s' then Some s' else None)"

text \<open>\<open>gateway_fault\<close> has one value, \<open>opa_killed\<close>; the empty fixture mode is none.\<close>

definition deployment_key :: "scenario \<Rightarrow> ustr" where
  "deployment_key s =
     (if sn_fixture_mode s = [] \<and> \<not> sn_gateway_fault s then sn_principal s
      else join_with [124]
        [sn_principal s,
         u ''fixture='' @ (if sn_fixture_mode s = [] then u ''normal'' else sn_fixture_mode s),
         u ''fault='' @ (if sn_gateway_fault s then u ''opa_killed'' else u ''none'')])"

section \<open>The smoke profile\<close>

definition SMOKE_BUDGET :: nat where
  "SMOKE_BUDGET = 50"

type_synonym smoke_key = "layer \<times> ustr \<times> ustr \<times> bool"

definition smoke_key :: "scenario \<Rightarrow> smoke_key" where
  "smoke_key s = (sn_layer s, sn_expected_reason s, sn_fixture_mode s, sn_gateway_fault s)"

fun first_of_each :: "smoke_key list \<Rightarrow> scenario list \<Rightarrow> scenario list" where
  "first_of_each seen [] = []"
| "first_of_each seen (s # ss) =
     (if smoke_key s \<in> set seen then first_of_each seen ss
      else s # first_of_each (smoke_key s # seen) ss)"

text \<open>One pass of the filling loop; \<open>picked\<close> are the ids taken.\<close>

fun fill :: "nat \<Rightarrow> row_class \<Rightarrow> scenario list \<Rightarrow> scenario list \<Rightarrow> ustr list \<Rightarrow> scenario list \<times> ustr list" where
  "fill budget want [] chosen picked = (chosen, picked)"
| "fill budget want (s # ss) chosen picked =
     (if budget \<le> length chosen then (chosen, picked)
      else if sn_id s \<notin> set picked \<and> sn_kind s = want
      then fill budget want ss (chosen @ [s]) (sn_id s # picked)
      else fill budget want ss chosen picked)"

definition smoke :: "scenario list \<Rightarrow> nat \<Rightarrow> scenario list" where
  "smoke scenarios budget =
     (let ordered = sort_key sn_id scenarios;
          chosen = first_of_each [] ordered;
          (chosen, picked) = fill budget Legitimate ordered chosen (map sn_id chosen);
          (chosen, picked) = fill budget Malicious ordered chosen picked
      in sort_key sn_id chosen)"

section \<open>The corpus\<close>

record corpus =
  cp_version :: ustr
  cp_scenarios :: "scenario list"

definition malicious :: "corpus \<Rightarrow> scenario list" where
  "malicious c = filter (\<lambda>s. sn_kind s = Malicious) (cp_scenarios c)"

definition legitimate :: "corpus \<Rightarrow> scenario list" where
  "legitimate c = filter (\<lambda>s. sn_kind s = Legitimate) (cp_scenarios c)"

text \<open>A file, in sorted order: its version and its tables; \<open>typed\<close> is pydantic's reading of one.\<close>

record corpus_file =
  cf_version :: ustr
  cf_entries :: "pyval list"

fun load_entries ::
    "(pyval \<Rightarrow> scenario option) \<Rightarrow> pyval list \<Rightarrow> scenario list \<times> ustr list \<Rightarrow> (scenario list \<times> ustr list) option" where
  "load_entries typed [] acc = Some acc"
| "load_entries typed (x # xs) (scenarios, seen) =
     (case Option.bind (typed x) validate_scenario of
        None \<Rightarrow> None
      | Some s \<Rightarrow>
          if sn_id s \<in> set seen then None else load_entries typed xs (scenarios @ [s], sn_id s # seen))"

fun load_files ::
    "(pyval \<Rightarrow> scenario option) \<Rightarrow> corpus_file list \<Rightarrow> scenario list \<times> ustr list \<Rightarrow> (scenario list \<times> ustr list) option" where
  "load_files typed [] acc = Some acc"
| "load_files typed (f # fs) acc = Option.bind (load_entries typed (cf_entries f) acc) (load_files typed fs)"

definition load_corpus :: "(pyval \<Rightarrow> scenario option) \<Rightarrow> corpus_file list \<Rightarrow> corpus option" where
  "load_corpus typed files =
     (if files = [] then None
      else Option.bind (load_files typed files ([], [])) (\<lambda>(scenarios, seen).
        case remdups (map cf_version files) of
          [v] \<Rightarrow> Some \<lparr> cp_version = v, cp_scenarios = scenarios \<rparr>
        | _ \<Rightarrow> None))"

section \<open>Loading\<close>

lemma validate_scenarioD:
  "validate_scenario s = Some s' \<Longrightarrow> sn_id s' = sn_id s \<and> is_a_real_reason_code (sn_expected_reason s') \<and> coherent s'
    \<and> (case sn_transport s' of None \<Rightarrow> True | Some t \<Rightarrow> boundary_is_complete t)"
  by (auto simp: validate_scenario_def validate_transport_def Let_def bind_eq_Some_conv split: option.splits if_splits)

text \<open>What loading has gathered so far.\<close>

definition gathered :: "(pyval \<Rightarrow> scenario option) \<Rightarrow> pyval list \<Rightarrow> scenario list \<times> ustr list \<Rightarrow> bool" where
  "gathered typed xs acc \<longleftrightarrow>
     map Some (fst acc) = map (\<lambda>x. Option.bind (typed x) validate_scenario) xs
   \<and> set (snd acc) = sn_id ` set (fst acc) \<and> distinct (map sn_id (fst acc))"

lemma load_entries_gathers:
  "load_entries typed xs acc = Some acc' \<Longrightarrow> gathered typed ys acc \<Longrightarrow> gathered typed (ys @ xs) acc'"
proof (induction typed xs acc arbitrary: ys rule: load_entries.induct)
  case (2 typed x xs scenarios seen)
  obtain s where s: "Option.bind (typed x) validate_scenario = Some s" "sn_id s \<notin> set seen"
    "load_entries typed xs (scenarios @ [s], sn_id s # seen) = Some acc'"
    using "2.prems"(1) by (auto split: option.splits if_splits)
  moreover have "gathered typed (ys @ [x]) (scenarios @ [s], sn_id s # seen)"
    using "2.prems"(2) s(1,2) by (auto simp: gathered_def)
  ultimately show ?case using "2.IH" [OF s, of "ys @ [x]"] by simp
qed simp

lemma load_files_gathers:
  "load_files typed fs acc = Some acc' \<Longrightarrow> gathered typed ys acc \<Longrightarrow>
   gathered typed (ys @ concat (map cf_entries fs)) acc'"
proof (induction typed fs acc arbitrary: ys rule: load_files.induct)
  case (2 typed f fs acc)
  then obtain acc1 where 1: "load_entries typed (cf_entries f) acc = Some acc1" "load_files typed fs acc1 = Some acc'"
    by (auto simp: bind_eq_Some_conv)
  from "2.IH" [OF 1 load_entries_gathers [OF 1(1) "2.prems"(2)]] show ?case by simp
qed simp

lemma load_entries_append:
  "load_entries typed (xs @ ys) acc = Option.bind (load_entries typed xs acc) (load_entries typed ys)"
  by (induction typed xs acc rule: load_entries.induct) (simp_all split: option.split)

lemma load_files_entries: "load_files typed fs acc = load_entries typed (concat (map cf_entries fs)) acc"
  by (induction typed fs acc rule: load_files.induct) (simp_all add: load_entries_append, metis option.exhaust bind.simps)

lemma load_entries_complete:
  "map Some ss = map (\<lambda>x. Option.bind (typed x) validate_scenario) xs \<Longrightarrow> distinct (map sn_id (sc @ ss))
   \<Longrightarrow> set seen = sn_id ` set sc \<Longrightarrow> \<exists>seen'. load_entries typed xs (sc, seen) = Some (sc @ ss, seen')"
proof (induction xs arbitrary: ss sc seen)
  case Nil
  then show ?case by simp
next
  case (Cons x xs)
  then obtain s ss' where ss: "ss = s # ss'" "Option.bind (typed x) validate_scenario = Some s"
    "map Some ss' = map (\<lambda>x. Option.bind (typed x) validate_scenario) xs" by (cases ss) auto
  have "sn_id s \<notin> set seen" using Cons.prems(2,3) ss(1) by auto
  moreover have "\<exists>seen'. load_entries typed xs (sc @ [s], sn_id s # seen) = Some ((sc @ [s]) @ ss', seen')"
    by (rule Cons.IH [OF ss(3)]) (use Cons.prems(2,3) ss(1) in auto)
  ultimately show ?case using ss by simp
qed

lemma single_version_Some:
  "(case vs of [v] \<Rightarrow> Some \<lparr> cp_version = v, cp_scenarios = ss \<rparr> | _ \<Rightarrow> None) = Some \<lparr> cp_version = w, cp_scenarios = ts \<rparr>
   \<longleftrightarrow> vs = [w] \<and> ts = ss"
  by (cases vs; cases "tl vs") auto

lemma one_version: "fs \<noteq> [] \<Longrightarrow> remdups (map cf_version fs) = [v] \<longleftrightarrow> (\<forall>f \<in> set fs. cf_version f = v)"
proof
  assume "remdups (map cf_version fs) = [v]"
  then show "\<forall>f \<in> set fs. cf_version f = v" by (metis image_eqI set_map set_remdups singletonD list.set(1,2))
next
  assume "\<forall>f \<in> set fs. cf_version f = v" and "fs \<noteq> []"
  then show "remdups (map cf_version fs) = [v]"
  proof (induction fs)
    case (Cons f fs)
    then show ?case by (cases "fs = []") (auto simp: image_iff)
  qed simp
qed

text \<open>
  C40: what the corpus loader accepts, exactly (HARN-003, HARN-021). It accepts a directory when there
  is a file, the files agree on one version, every table of every file is a valid row and the ids
  are unique, and only then; the corpus holds the rows in order and nothing else. So every expected
  reason in it is one the gateway can emit, no attack expects to be allowed, and every structural
  boundary row says which boundary and where.
\<close>

theorem load_corpus_sound:
  "(load_corpus typed files = Some c \<longleftrightarrow>
      files \<noteq> [] \<and> (\<forall>f \<in> set files. cf_version f = cp_version c)
    \<and> map Some (cp_scenarios c) = map (\<lambda>x. Option.bind (typed x) validate_scenario) (concat (map cf_entries files))
    \<and> distinct (map sn_id (cp_scenarios c)))
   \<and> (load_corpus typed files = Some c \<longrightarrow>
      (\<forall>s \<in> set (cp_scenarios c). is_a_real_reason_code (sn_expected_reason s) \<and> coherent s
        \<and> (case sn_transport s of None \<Rightarrow> True | Some t \<Rightarrow> boundary_is_complete t)))"
proof -
  have loaded: "load_corpus typed files = Some c \<longleftrightarrow> files \<noteq> [] \<and> (\<forall>f \<in> set files. cf_version f = cp_version c)
      \<and> (\<exists>seen. load_entries typed (concat (map cf_entries files)) ([], []) = Some (cp_scenarios c, seen))"
  proof (cases "files = []")
    case False
    have "load_corpus typed files = Some c \<longleftrightarrow> remdups (map cf_version files) = [cp_version c]
      \<and> (\<exists>seen. load_entries typed (concat (map cf_entries files)) ([], []) = Some (cp_scenarios c, seen))"
      using False unfolding load_corpus_def load_files_entries
      by (cases c; cases "load_entries typed (concat (map cf_entries files)) ([], [])")
        (auto simp: single_version_Some simp del: remdups_eq_nil_iff)
    then show ?thesis using False one_version [OF False] by blast
  qed (simp add: load_corpus_def)
  have start: "gathered typed [] ([], [])" by (simp add: gathered_def)
  have g: "map Some (cp_scenarios c) = map (\<lambda>x. Option.bind (typed x) validate_scenario) (concat (map cf_entries files))
      \<and> distinct (map sn_id (cp_scenarios c))" if "load_corpus typed files = Some c"
    using that load_entries_gathers [OF _ start] unfolding loaded by (auto simp: gathered_def)
  have valid: "is_a_real_reason_code (sn_expected_reason s) \<and> coherent s
      \<and> (case sn_transport s of None \<Rightarrow> True | Some t \<Rightarrow> boundary_is_complete t)"
    if it: "load_corpus typed files = Some c" and s: "s \<in> set (cp_scenarios c)" for s
  proof -
    have "Some s \<in> set (map Some (cp_scenarios c))" using s by simp
    then have "Some s \<in> set (map (\<lambda>x. Option.bind (typed x) validate_scenario) (concat (map cf_entries files)))"
      using g [OF it] by metis
    then obtain x where "Option.bind (typed x) validate_scenario = Some s" by auto
    then show ?thesis using validate_scenarioD by (auto simp: bind_eq_Some_conv)
  qed
  have complete: "\<exists>seen. load_entries typed (concat (map cf_entries files)) ([], []) = Some (cp_scenarios c, seen)"
    if "map Some (cp_scenarios c) = map (\<lambda>x. Option.bind (typed x) validate_scenario) (concat (map cf_entries files))"
      "distinct (map sn_id (cp_scenarios c))"
    using load_entries_complete [OF that(1), of "[]" "[]"] that(2) by simp
  show ?thesis using g valid complete loaded by blast
qed

section \<open>The smoke profile covers\<close>

lemma first_of_each_props:
  "set (first_of_each seen ss) \<subseteq> set ss"
  "smoke_key ` set (first_of_each seen ss) = smoke_key ` set ss - set seen"
  "distinct (map smoke_key (first_of_each seen ss))"
  by (induction seen ss rule: first_of_each.induct) auto

lemma first_of_each_subseq: "distinct (map sn_id ss) \<Longrightarrow> distinct (map sn_id (first_of_each seen ss))"
  by (induction seen ss rule: first_of_each.induct) (use first_of_each_props(1) in auto)

lemma length_first_of_each: "length (first_of_each [] ss) = card (smoke_key ` set ss)"
  using first_of_each_props(2,3) [of "[]" ss] distinct_card [of "map smoke_key (first_of_each [] ss)"] by simp

text \<open>The filling loop takes rows of the wanted class that are not there yet, as long as there is room.\<close>

lemma fill_props:
  assumes "fill b want ss chosen picked = (chosen', picked')" "set picked = sn_id ` set chosen" "distinct (map sn_id chosen)"
  shows "\<exists>more. chosen' = chosen @ more \<and> set picked' = sn_id ` set chosen' \<and> distinct (map sn_id chosen')
    \<and> set more \<subseteq> {s \<in> set ss. sn_kind s = want} \<and> (length chosen' \<le> max b (length chosen))
    \<and> (length chosen' < b \<longrightarrow> (\<forall>s \<in> set ss. sn_kind s = want \<longrightarrow> sn_id s \<in> sn_id ` set chosen'))"
  using assms
proof (induction b want ss chosen picked rule: fill.induct)
  case (2 b want s ss chosen picked)
  consider (full) "b \<le> length chosen" | (take) "\<not> b \<le> length chosen" "sn_id s \<notin> set picked \<and> sn_kind s = want"
    | (skip) "\<not> b \<le> length chosen" "\<not> (sn_id s \<notin> set picked \<and> sn_kind s = want)" by blast
  then show ?case
  proof cases
    case full
    then show ?thesis using "2.prems" by auto
  next
    case take
    from "2.prems" take have IH: "\<exists>more. chosen' = (chosen @ [s]) @ more \<and> set picked' = sn_id ` set chosen' \<and> distinct (map sn_id chosen')
      \<and> set more \<subseteq> {s \<in> set ss. sn_kind s = want} \<and> (length chosen' \<le> max b (length (chosen @ [s])))
      \<and> (length chosen' < b \<longrightarrow> (\<forall>s \<in> set ss. sn_kind s = want \<longrightarrow> sn_id s \<in> sn_id ` set chosen'))"
      by (intro "2.IH"(1)) auto
    then obtain more where m: "chosen' = chosen @ s # more" "set picked' = sn_id ` set chosen'" "distinct (map sn_id chosen')"
      "set more \<subseteq> {s \<in> set ss. sn_kind s = want}" "length chosen' \<le> max b (length (chosen @ [s]))"
      "length chosen' < b \<longrightarrow> (\<forall>s \<in> set ss. sn_kind s = want \<longrightarrow> sn_id s \<in> sn_id ` set chosen')" by auto
    have "length chosen' \<le> max b (length chosen)" using m(5) take by simp
    moreover have "sn_id s \<in> sn_id ` set chosen'" using m(1) by simp
    moreover have "set (s # more) \<subseteq> {s' \<in> set (s # ss). sn_kind s' = want}" using m(4) take by auto
    ultimately show ?thesis using m(1-3,6) by (intro exI [of _ "s # more"] conjI) simp_all
  next
    case skip
    then show ?thesis using "2.IH"(2) "2.prems" by fastforce
  qed
qed auto

lemma sort_by_id_unique:
  assumes "mset ss = mset ss'" "distinct (map sn_id ss)"
  shows "sort_key sn_id ss = sort_key sn_id ss'"
  by (rule sort_key_inj_key_eq) (use assms in \<open>simp_all add: distinct_map\<close>)

text \<open>
  the fast lane tests everything the corpus tests. With unique ids, the smoke profile is a
  set of corpus rows in id order that has a row for every combination of layer, expected reason,
  fixture mode and gateway fault; it fills its budget, and exceeds it only when the combinations
  alone do; a legitimate row is left out only when no attack was added beyond the combinations.
  It does not depend on the order of the corpus.
\<close>

lemma smoke_covers_corpus:
  assumes "distinct (map sn_id ss)"
  shows "set (smoke ss b) \<subseteq> set ss \<and> distinct (map sn_id (smoke ss b)) \<and> sorted (map sn_id (smoke ss b))
    \<and> smoke_key ` set (smoke ss b) = smoke_key ` set ss
    \<and> length (smoke ss b) = max (card (smoke_key ` set ss)) (min b (length ss))
    \<and> (\<forall>l \<in> set ss - set (smoke ss b). sn_kind l = Legitimate \<longrightarrow>
         (\<forall>m \<in> set (smoke ss b). sn_kind m = Malicious \<longrightarrow> m \<in> set (first_of_each [] (sort_key sn_id ss))))
    \<and> (\<forall>ss'. mset ss' = mset ss \<longrightarrow> smoke ss' b = smoke ss b)"
proof -
  let ?o = "sort_key sn_id ss"
  let ?c = "first_of_each [] ?o"
  have o: "set ?o = set ss" "distinct (map sn_id ?o)"
    using assms by (simp_all add: distinct_map)
  have c: "set ?c \<subseteq> set ss" "smoke_key ` set ?c = smoke_key ` set ss" "distinct (map sn_id ?c)"
    "length ?c = card (smoke_key ` set ss)"
    using first_of_each_props(1,2) [of "[]" ?o] first_of_each_subseq [OF o(2)] length_first_of_each [of ?o] o(1) by auto
  obtain c1 p1 where f1: "fill b Legitimate ?o ?c (map sn_id ?c) = (c1, p1)" by fastforce
  obtain c2 p2 where f2: "fill b Malicious ?o c1 p1 = (c2, p2)" by fastforce
  have sm: "smoke ss b = sort_key sn_id c2" using f1 f2 by (simp add: smoke_def Let_def)
  obtain m1 where 1: "c1 = ?c @ m1" "set p1 = sn_id ` set c1" "distinct (map sn_id c1)" "length c1 \<le> max b (length ?c)"
    "set m1 \<subseteq> {s \<in> set ?o. sn_kind s = Legitimate}"
    "length c1 < b \<longrightarrow> (\<forall>s \<in> set ?o. sn_kind s = Legitimate \<longrightarrow> sn_id s \<in> sn_id ` set c1)"
    using fill_props [OF f1] c(3) by auto
  obtain m2 where 2: "c2 = c1 @ m2" "distinct (map sn_id c2)" "length c2 \<le> max b (length c1)"
    "set m2 \<subseteq> {s \<in> set ?o. sn_kind s = Malicious}"
    "length c2 < b \<longrightarrow> (\<forall>s \<in> set ?o. sn_kind s = Malicious \<longrightarrow> sn_id s \<in> sn_id ` set c2)"
    using fill_props [OF f2 1(2,3)] by auto
  have sub: "set c2 \<subseteq> set ss" using 1(1,5) 2(1,4) c(1) o(1) by auto
  have inj: "inj_on sn_id (set ss)" using assms by (simp add: distinct_map)
  have same: "s \<in> set c" if "s \<in> set ss" "sn_id s \<in> sn_id ` set c" "set c \<subseteq> set ss" for s c
    using that inj by (auto dest: inj_onD)
  have sub1: "set c1 \<subseteq> set ss" using 2(1) sub by auto
  have sizes: "length c2 = card (set c2)" "length ss = card (set ss)"
    using 2(2) assms by (metis distinct_card distinct_map)+
  have le: "length c2 \<le> length ss" unfolding sizes using sub by (simp add: card_mono)
  have complete: "length c2 = length ss" if "length c2 < b"
  proof -
    have "length c1 < b" using that 2(1) by simp
    have "set ss \<subseteq> set c2"
    proof
      fix s assume s: "s \<in> set ss"
      show "s \<in> set c2"
      proof (cases "sn_kind s")
        case Malicious
        then show ?thesis using 2(5) that same [OF s _ sub] s o(1) by auto
      next
        case Legitimate
        then have "s \<in> set c1" using 1(6) \<open>length c1 < b\<close> same [OF s _ sub1] s o(1) by auto
        then show ?thesis using 2(1) by simp
      qed
    qed
    then show ?thesis unfolding sizes using sub by (simp add: card_mono le_antisym)
  qed
  have keys: "smoke_key ` set c2 = smoke_key ` set ss" using c(2) 1(1) 2(1) sub by auto
  have size_c2: "length c2 = max (card (smoke_key ` set ss)) (min b (length ss))"
    using complete le 1(1,4) 2(1,3) c(4) by (cases "length c2 < b") auto
  have legit: "m \<in> set ?c" if "l \<in> set ss - set c2" "sn_kind l = Legitimate" "m \<in> set c2" "sn_kind m = Malicious" for l m
  proof -
    have "l \<notin> set c1" using that(1) 2(1) by auto
    have "\<not> length c1 < b"
    proof
      assume "length c1 < b"
      then have "sn_id l \<in> sn_id ` set c1" using 1(6) that(1,2) o(1) by simp
      then show False using same [OF _ _ sub1] that(1) \<open>l \<notin> set c1\<close> by simp
    qed
    then have "m2 = []" using f2 2(1) by (cases ?o) auto
    then show ?thesis using that(3,4) 1(1,5) 2(1) by auto
  qed
  have "smoke ss' b = smoke ss b" if "mset ss' = mset ss" for ss'
    using sort_by_id_unique [OF that [symmetric] assms] by (simp add: smoke_def)
  then show ?thesis
    unfolding sm using sub 2(2) keys size_c2 legit by (simp add: distinct_map)
qed

section \<open>Examples\<close>

definition demo_row :: "string \<Rightarrow> row_class \<Rightarrow> string \<Rightarrow> scenario" where
  "demo_row i k reason =
     \<lparr> sn_id = u i, sn_kind = k, sn_layer = Security_layer, sn_principal = u ''intern'', sn_tool = u ''read_file'',
       sn_arguments = [(u ''path'', PStr (u ''a/b''))],
       sn_expected_decision = (if k = Malicious then Expect_deny else Expect_allow), sn_expected_reason = u reason,
       sn_expected_side_effect = None, sn_risk_tier = R1, sn_notes = [], sn_requires_symlinks = False,
       sn_transport = None, sn_fixture_mode = [], sn_gateway_fault = False \<rparr>"

definition demo_files :: "corpus_file list" where
  "demo_files = [\<lparr> cf_version = u ''1'', cf_entries = [PInt 0, PInt 1] \<rparr>, \<lparr> cf_version = u ''1'', cf_entries = [PInt 2] \<rparr>]"

definition demo_typed :: "pyval \<Rightarrow> scenario option" where
  "demo_typed v =
     (case v of
        PInt i \<Rightarrow> Some (if i = 2 then demo_row ''a'' Legitimate ''POLICY_SCOPED_READ''
          else demo_row (if i = 0 then ''b'' else ''c'') Malicious ''CANON_OUTSIDE_ROOT'')
      | _ \<Rightarrow> None)"

lemma demo_row_valid: "is_a_real_reason_code (u r) \<Longrightarrow> validate_scenario (demo_row i k r) = Some (demo_row i k r)"
proof -
  have "expand (u ''a/b'') = u ''a/b''" by code_simp
  then show "is_a_real_reason_code (u r) \<Longrightarrow> ?thesis"
    by (cases k) (simp_all add: validate_scenario_def demo_row_def expand_placeholders_def coherent_def Let_def)
qed

lemma emitted_codes_real: "is_a_real_reason_code (u (reason_value c))"
  by (simp add: is_a_real_reason_code_def REASON_CODES_def all_codes_complete)

lemma demo_rows_valid:
  "validate_scenario (demo_row i k ''POLICY_SCOPED_READ'') = Some (demo_row i k ''POLICY_SCOPED_READ'')"
  "validate_scenario (demo_row i k ''CANON_OUTSIDE_ROOT'') = Some (demo_row i k ''CANON_OUTSIDE_ROOT'')"
  using demo_row_valid [OF emitted_codes_real [of POLICY_SCOPED_READ]]
    demo_row_valid [OF emitted_codes_real [of CANON_OUTSIDE_ROOT]] by simp_all

lemma demo_ids: "sn_id (demo_row i k r) = u i"
  by (simp add: demo_row_def)

lemma demo_corpus: "\<exists>c. load_corpus demo_typed demo_files = Some c"
  by (simp add: load_corpus_def demo_files_def demo_typed_def demo_rows_valid demo_ids)

theorem load_corpus_sound_witness:
  "\<exists>c. load_corpus demo_typed demo_files = Some c \<and> distinct (map sn_id (cp_scenarios c))"
proof -
  obtain c where "load_corpus demo_typed demo_files = Some c" using demo_corpus by blast
  with load_corpus_sound [of demo_typed demo_files c] show ?thesis by blast
qed

lemma smoke_covers_corpus_witness:
  "length (smoke [demo_row ''c'' Malicious ''CANON_OUTSIDE_ROOT'', demo_row ''b'' Malicious ''CANON_OUTSIDE_ROOT'',
      demo_row ''a'' Legitimate ''POLICY_SCOPED_READ''] 2) = 2"
proof -
  let ?ss = "[demo_row ''c'' Malicious ''CANON_OUTSIDE_ROOT'', demo_row ''b'' Malicious ''CANON_OUTSIDE_ROOT'',
      demo_row ''a'' Legitimate ''POLICY_SCOPED_READ'']"
  have "distinct (map sn_id ?ss)" by (simp add: demo_ids)
  from smoke_covers_corpus [OF this, of 2] have "length (smoke ?ss 2) = max (card (smoke_key ` set ?ss)) (min 2 (length ?ss))" by blast
  moreover have "card (smoke_key ` set ?ss) = 2" by (simp add: demo_row_def smoke_key_def)
  ultimately show ?thesis by simp
qed

end
