(* ===== verification/Eval_Client.thy ===== *)
theory Eval_Client
  imports Edge Eval_Scenario Audit_Event
begin

text \<open>
  \<open>harness/clients.py\<close>, the protected client: how the gateway's HTTP reply is read as a claim, and
  how the claim is joined to the audit records the call appended. Error texts, which only a person
  reads, are left out.
\<close>

section \<open>Claims\<close>

definition TRANSPORT_REJECTED :: ustr where "TRANSPORT_REJECTED = u ''TRANSPORT_REJECTED''"
definition HTTP_FAILURE :: ustr where "HTTP_FAILURE = u ''HTTP_FAILURE''"
definition GATEWAY_RESPONSE_INVALID :: ustr where "GATEWAY_RESPONSE_INVALID = u ''GATEWAY_RESPONSE_INVALID''"
definition NO_RESPONSE :: ustr where "NO_RESPONSE = u ''NO_RESPONSE''"

definition CLIENT_CODES :: "ustr list" where
  "CLIENT_CODES = [TRANSPORT_REJECTED, HTTP_FAILURE, GATEWAY_RESPONSE_INVALID, NO_RESPONSE]"

record audit_join =
  aj_count :: nat
  aj_request_id :: "ustr option"
  aj_reason_code :: "ustr option"
  aj_stage_latency :: "(ustr \<times> pyfloat) list"
  aj_upstream_latency :: "pyval option"

datatype claim = Claim_allow | Claim_deny | Claim_error

record call_outcome =
  co_decision :: claim
  co_reason_code :: "ustr option"
  co_result :: pyval
  co_audit :: "audit_join option"

abbreviation refused :: "claim \<Rightarrow> ustr option \<Rightarrow> call_outcome" where
  "refused d code \<equiv> \<lparr> co_decision = d, co_reason_code = code, co_result = PNone, co_audit = None \<rparr>"

section \<open>Reading a reply\<close>

record http_response =
  hr_status :: int
  hr_body :: bytes
  hr_timed_out :: bool

text \<open>\<open>Response.json()\<close>; a \<open>RecursionError\<close> is no \<open>ValueError\<close>.\<close>

definition response_json :: "pyenv \<Rightarrow> http_response \<Rightarrow> pyval result" where
  "response_json env r =
     (if hr_body r = [] then Inr PNone
      else case loads (recursion_limit env) (hr_body r) of
        Inl RecursionError \<Rightarrow> Inl (PyError ''RecursionError'')
      | Inl _ \<Rightarrow> Inr PNone
      | Inr v \<Rightarrow> Inr v)"

definition as_obj :: "pyval \<Rightarrow> (ustr \<times> pyval) list" where
  "as_obj v = (case v of PObj Mut kvs \<Rightarrow> kvs | _ \<Rightarrow> [])"

definition value_at :: "(ustr \<times> pyval) list \<Rightarrow> string \<Rightarrow> pyval" where
  "value_at d k = (case dict_get d (u k) of None \<Rightarrow> PNone | Some v \<Rightarrow> v)"

definition is_int :: "pyval \<Rightarrow> bool" where
  "is_int v = (case v of PInt _ \<Rightarrow> True | PBool _ \<Rightarrow> True | _ \<Rightarrow> False)"

text \<open>\<open>sent\<close> is the id of the request; \<open>None\<close> is \<open>_UNKNOWN_ID\<close>.\<close>

definition id_differs :: "(ustr \<times> pyval) list \<Rightarrow> pyval option \<Rightarrow> bool" where
  "id_differs doc sent = (case sent of None \<Rightarrow> False | Some i \<Rightarrow> \<not> py_eq (value_at doc ''id'') i)"

definition malformed :: "(ustr \<times> pyval) list \<Rightarrow> int \<Rightarrow> pyval option \<Rightarrow> bool" where
  "malformed doc status sent =
     (let has_result = dict_has doc (u ''result''); has_error = dict_has doc (u ''error'') in
      if \<not> py_eq (value_at doc ''jsonrpc'') (PStr (u ''2.0'')) then True
      else if \<not> dict_has doc (u ''id'') then True
      else if has_result = has_error then True
      else if has_error then
        (let err = as_obj (value_at doc ''error'') in
         \<not> is_int (value_at err ''code'') \<or> \<not> is_str (value_at err ''message'')
       \<or> \<not> (400 \<le> status \<and> status < 600) \<or> id_differs doc sent)
      else status \<noteq> 200 \<or> id_differs doc sent)"

definition outcome_of_response :: "pyenv \<Rightarrow> http_response \<Rightarrow> pyval option \<Rightarrow> call_outcome result" where
  "outcome_of_response env r sent =
     (if hr_timed_out r then Inr (refused Claim_error (Some NO_RESPONSE))
      else if hr_status r = 0 then Inr (refused Claim_error (Some NO_RESPONSE))
      else bindR (response_json env r) (\<lambda>parsed.
        case parsed of
          PObj Mut doc \<Rightarrow>
            if malformed doc (hr_status r) sent then Inr (refused Claim_error (Some GATEWAY_RESPONSE_INVALID))
            else if dict_has doc (u ''error'') then
              (let code = value_at (as_obj (value_at (as_obj (value_at doc ''error'')) ''data'')) ''reason_code'' in
               Inr (refused Claim_deny (case code of PNone \<Rightarrow> None | PStr s \<Rightarrow> Some s | _ \<Rightarrow> Some (str_of env code))))
            else Inr \<lparr> co_decision = Claim_allow, co_reason_code = None, co_result = value_at doc ''result'', co_audit = None \<rparr>
        | _ \<Rightarrow>
            Inr (if 500 \<le> hr_status r then refused Claim_error (Some HTTP_FAILURE)
                 else if 400 \<le> hr_status r then refused Claim_deny (Some TRANSPORT_REJECTED)
                 else refused Claim_error (Some GATEWAY_RESPONSE_INVALID))))"

definition sent_jsonrpc_id :: "pyenv \<Rightarrow> bytes \<Rightarrow> pyval option result" where
  "sent_jsonrpc_id env b =
     (case loads (recursion_limit env) b of
        Inl RecursionError \<Rightarrow> Inl (PyError ''RecursionError'')
      | Inl _ \<Rightarrow> Inr None
      | Inr v \<Rightarrow> Inr (case v of PObj Mut kvs \<Rightarrow> dict_get kvs (u ''id'') | _ \<Rightarrow> None))"

section \<open>Joining the record\<close>

definition join_events :: "audit_record list \<Rightarrow> audit_join" where
  "join_events events =
     (case concat (map (\<lambda>e. case e of Request_event ev \<Rightarrow> [ev] | _ \<Rightarrow> []) events) of
        [ev] \<Rightarrow>
          \<lparr> aj_count = 1, aj_request_id = Some (rv_request_id ev),
            aj_reason_code = (case dict_get (rv_fields ev) (u ''reason_code'') of Some (PStr s) \<Rightarrow> Some s | _ \<Rightarrow> None),
            aj_stage_latency = rv_stage_latency ev,
            aj_upstream_latency = dict_get (rv_fields ev) (u ''upstream_latency_ms'') \<rparr>
      | reqs \<Rightarrow>
          \<lparr> aj_count = length reqs, aj_request_id = None, aj_reason_code = None, aj_stage_latency = [],
            aj_upstream_latency = None \<rparr>)"

definition with_audit :: "call_outcome \<Rightarrow> audit_join \<Rightarrow> call_outcome" where
  "with_audit out join =
     (if co_decision out = Claim_allow \<and> co_reason_code out = None
      then out \<lparr> co_reason_code := aj_reason_code join, co_audit := Some join \<rparr>
      else out \<lparr> co_audit := Some join \<rparr>)"

text \<open>The events of the log after those already seen: \<open>_AuditTail.take\<close>.\<close>

definition take_new :: "'a list \<Rightarrow> nat \<Rightarrow> 'a list \<times> nat" where
  "take_new events seen = (drop seen events, length events)"

section \<open>What the edge writes, the client reads\<close>

lemma scalar_u [simp]: "list_all scalar (u s)"
proof -
  have "scalar (of_char c)" for c :: char
    using nat_of_char_less_256 [of c] unfolding scalar_def by linarith
  then show ?thesis by (simp add: u_def list_all_iff)
qed

lemma wire_code_dumpable: "dumpable (PInt (snd (wire_shape c)))"
  by (rule all_codesI [of "\<lambda>c. dumpable (PInt (snd (wire_shape c)))"]) code_simp

lemma error_doc_dumpable: "dumpable i \<Longrightarrow> list_all scalar rid \<Longrightarrow> dumpable (error_doc code rid i)"
  using wire_code_dumpable [of code] by (simp add: error_doc_def)

lemma error_doc_depth: "container_depth (error_doc code rid i) = max 3 (Suc (container_depth i))"
  by (simp add: error_doc_def)

lemma dumpable_not_frozen: "dumpable v \<Longrightarrow> \<not> has_frozen_map v"
proof (induction v)
  case (PArr m xs)
  then show ?case by (auto simp: list_ex_iff)
next
  case (PObj m kvs)
  then show ?case by (fastforce simp: list_ex_iff)
qed auto

lemma py_eq_refl: "dumpable v \<Longrightarrow> py_eq v v"
proof (induction v)
  case (PArr m xs)
  then show ?case by (auto simp: list_all2_conv_all_nth)
next
  case (PObj m kvs)
  have "dict_get kvs k = Some v \<and> py_eq v v" if "(k, v) \<in> set kvs" for k v
    using that PObj.prems PObj.IH [of "(k, v)" v] by (auto simp: dict_get_def)
  then show ?case by (auto simp: list_all_iff split: option.splits)
qed (auto simp: number_eq_def as_number_def)

text \<open>The error document under an error status: a denial with its code, when the ids agree.\<close>

lemma error_read:
  assumes "dumpable i" "list_all scalar rid" "max 3 (Suc (container_depth i)) \<le> recursion_limit env"
  shows "outcome_of_response env
      \<lparr> hr_status = fst (wire_shape c), hr_body = map of_nat (ascii_text env (error_doc c rid i)), hr_timed_out = False \<rparr> (Some j)
    = Inr (if py_eq i j then refused Claim_deny (Some (u (reason_value c))) else refused Claim_error (Some GATEWAY_RESPONSE_INVALID))"
proof -
  let ?b = "map of_nat (ascii_text env (error_doc c rid i)) :: bytes"
  have "json_dumps env (error_doc c rid i) = Inr ?b"
    using dumpable_not_frozen [OF assms(1)] by (simp add: error_doc_dumps)
  from loads_dumps [OF error_doc_dumpable [OF assms(1,2)] _ this, of "recursion_limit env"] assms(3)
  have "loads (recursion_limit env) ?b = Inr (error_doc c rid i)" by (simp add: error_doc_depth)
  moreover have "?b \<noteq> []" by (simp add: error_doc_def)
  ultimately have "response_json env \<lparr> hr_status = fst (wire_shape c), hr_body = ?b, hr_timed_out = False \<rparr> = Inr (error_doc c rid i)"
    by (simp add: response_json_def)
  then show ?thesis
    using wire_shape_bounds [of c]
    by (auto simp: outcome_of_response_def error_doc_def malformed_def Let_def value_at_def as_obj_def dict_get_def dict_has_def
        is_int_def is_str_def id_differs_def)
qed


text \<open>
  a denial the edge makes on its own is not read as one. The edge answers an over-long body
  with a null id, as JSON-RPC allows and \<open>_malformed\<close> documents; but \<open>_malformed\<close> then compares
  the null with the id that was sent, so the harness records no decision at all.
\<close>

lemma transport_denial_misread:
  assumes "sc_type sc = ''http''" "sc_method sc = u ''POST''" "sc_path sc = Some (edge_mcp_path (e_cfg e))"
    and "origin_ok (e_cfg e) (pairs (sc_headers sc))" "ew_incoming w = Chunk b cont # ms"
    and "edge_max_message_bytes (e_cfg e) < int (length b)" "accepting e" "list_all scalar (e_rid e)"
    and "sent_jsonrpc_id (e_py e) b = Inr (Some i)" "i \<noteq> PNone" "3 \<le> recursion_limit (e_py e)"
  shows "\<exists>w' status body. edge_call e sc w = (Some (Inr ()), w') \<and> ew_sent w' = ew_sent w @ [Start status, Body body]
    \<and> status = fst (wire_shape PROTO_MESSAGE_TOO_LARGE)
    \<and> outcome_of_response (e_py e) \<lparr> hr_status = status, hr_body = body, hr_timed_out = False \<rparr> (Some i)
        = Inr (refused Claim_error (Some GATEWAY_RESPONSE_INVALID))"
proof -
  let ?b = "map of_nat (ascii_text (e_py e) (error_doc PROTO_MESSAGE_TOO_LARGE (e_rid e) PNone)) :: bytes"
  have "within (read_body e) w = (Some (Inl (transport_deny PROTO_MESSAGE_TOO_LARGE)), w \<lparr> ew_incoming := ms \<rparr>)"
    using assms(5,6) by (simp add: within_def read_body_def)
  then have "dispatch e sc w = (Some (Inl (transport_deny PROTO_MESSAGE_TOO_LARGE)), w \<lparr> ew_incoming := ms \<rparr>)"
    using assms(2-4) by (simp add: dispatch_def bindW_def)
  then have "edge_call e sc w = (Some (Inr ()), w \<lparr> ew_incoming := ms, ew_sent := ew_sent w @ [Start (fst (wire_shape PROTO_MESSAGE_TOO_LARGE)), Body ?b] \<rparr>)"
    using assms(1) by (simp add: edge_call_def edge_handle_def tryW_def giveW_def error_reply_accepted [OF assms(7)])
  moreover have "\<not> py_eq PNone i" using assms(10) by simp
  ultimately show ?thesis
    using error_read [of PNone "e_rid e" "e_py e" PROTO_MESSAGE_TOO_LARGE i] assms(8,11) by auto
qed

section \<open>Examples\<close>

definition id_body :: bytes where
  "id_body = map of_nat (u ''{\"id\":7}'')"

definition client_edge :: "unit edge" where
  "client_edge = demo_edge True True \<lparr> e_py := plain_env \<rparr>"

lemma client_edge_facts:
  "accepting client_edge" "\<not> e_gone client_edge" "list_all scalar (e_rid client_edge)" "e_py client_edge = plain_env"
  "arrives client_edge demo_scope id_body (demo_ew id_body)" "sent_jsonrpc_id plain_env id_body = Inr (Some (PInt 7))"
  "dumpable (PInt 7)" "3 \<le> recursion_limit plain_env"
proof -
  show "sent_jsonrpc_id plain_env id_body = Inr (Some (PInt 7))" "dumpable (PInt 7)" "3 \<le> recursion_limit plain_env" by code_simp+
  have "arrives (demo_edge True True) demo_scope id_body (demo_ew id_body)"
    by (rule demo_edge_facts(3)) (simp add: id_body_def)
  then show "arrives client_edge demo_scope id_body (demo_ew id_body)" by (simp add: client_edge_def arrives_def)
qed (auto simp: client_edge_def accepting_def demo_edge_def)


lemma transport_denial_misread_witness:
  "\<exists>w' status body. edge_call (client_edge \<lparr> e_cfg := (e_cfg client_edge) \<lparr> edge_max_message_bytes := 1 \<rparr> \<rparr>) demo_scope (demo_ew id_body)
       = (Some (Inr ()), w')
     \<and> outcome_of_response plain_env \<lparr> hr_status = status, hr_body = body, hr_timed_out = False \<rparr> (Some (PInt 7))
         = Inr (refused Claim_error (Some GATEWAY_RESPONSE_INVALID))"
proof -
  let ?e = "client_edge \<lparr> e_cfg := (e_cfg client_edge) \<lparr> edge_max_message_bytes := 1 \<rparr> \<rparr>"
  note f = client_edge_facts
  have "\<exists>w' status body. edge_call ?e demo_scope (demo_ew id_body) = (Some (Inr ()), w')
     \<and> ew_sent w' = ew_sent (demo_ew id_body) @ [Start status, Body body]
     \<and> status = fst (wire_shape PROTO_MESSAGE_TOO_LARGE)
     \<and> outcome_of_response (e_py ?e) \<lparr> hr_status = status, hr_body = body, hr_timed_out = False \<rparr> (Some (PInt 7))
         = Inr (refused Claim_error (Some GATEWAY_RESPONSE_INVALID))"
    using f by (intro transport_denial_misread [where b = id_body and cont = False and ms = "[]"])
      (auto simp: arrives_def demo_ew_def id_body_def accepting_def demo_scope_def origin_ok_def pairs_def)
  then show ?thesis using f(4) by auto
qed

end
