(* ===== verification/Eval_Wire.thy ===== *)
theory Eval_Wire
  imports Eval_Client
begin

text \<open>
  \<open>harness/wire.py\<close>: the request a row is sent as, with the one thing it damages, the structural
  boundary probes, and the reading of the raw response bytes. The constants and the header encoding
  of the MCP SDK are parameters; the socket is outside.
\<close>

section \<open>The request\<close>

record wire_lib =
  wl_py :: pyenv
  wl_version_key :: ustr
  wl_capabilities_key :: ustr
  wl_client_info_key :: ustr
  wl_name_bearing :: "ustr \<Rightarrow> bool"
  wl_encode_header :: "ustr \<Rightarrow> ustr"

text \<open>\<open>a or b\<close> on optional strings: the empty string counts as absent.\<close>

definition or_default :: "ustr option \<Rightarrow> ustr \<Rightarrow> ustr" where
  "or_default a b = (case a of Some s \<Rightarrow> if s = [] then b else s | None \<Rightarrow> b)"

definition PROTOCOL_VERSION :: ustr where
  "PROTOCOL_VERSION = u ''2026-07-28''"

primrec field_count :: "pyval \<Rightarrow> nat" where
  "field_count PNone = 0"
| "field_count (PBool b) = 0"
| "field_count (PInt i) = 0"
| "field_count (PFloat f) = 0"
| "field_count (PStr s) = 0"
| "field_count (PArr m xs) = (if m = Mut then sum_list (map field_count xs) else 0)"
| "field_count (PObj m kvs) = (if m = Mut then length kvs + sum_list (map snd (map (map_prod id field_count) kvs)) else 0)"

text \<open>\<open>{f"k{i}": 0 for i in range(n)}\<close>\<close>

definition numbered :: "nat \<Rightarrow> pyval" where
  "numbered n = PObj Mut (map (\<lambda>i. (107 # nat_text i, PInt 0)) [0..<n])"

definition nested :: "nat \<Rightarrow> pyval" where
  "nested n = ((\<lambda>p. PObj Mut [(u ''n'', p)]) ^^ n) (PObj Mut [])"

function field_chunks :: "nat \<Rightarrow> pyval list" where
  "field_chunks remaining =
     (if 0 < remaining then (let width = min 500 remaining in numbered width # field_chunks (remaining - width)) else [])"
  by pat_completeness auto
termination by (relation "measure id") (auto simp: min_def)

declare field_chunks.simps [simp del]

text \<open>The request body around its parameters.\<close>

definition body_of :: "ustr \<Rightarrow> pyval \<Rightarrow> (ustr \<times> pyval) list \<Rightarrow> pyval" where
  "body_of method i params =
     PObj Mut [(u ''jsonrpc'', PStr (u ''2.0'')), (u ''id'', i), (u ''method'', PStr method), (u ''params'', PObj Mut params)]"

definition with_probe :: "(ustr \<times> pyval) list \<Rightarrow> (ustr \<times> pyval) list \<Rightarrow> pyval \<Rightarrow> (ustr \<times> pyval) list" where
  "with_probe params arguments probe = dict_set params (u ''arguments'') (PObj Mut (dict_set arguments (u ''probe'') probe))"

text \<open>\<open>_add_boundary_probe\<close>, on the parameters; \<open>wrap\<close> puts them into the body.\<close>

definition add_boundary_probe ::
    "((ustr \<times> pyval) list \<Rightarrow> pyval) \<Rightarrow> (ustr \<times> pyval) list \<Rightarrow> boundary \<Rightarrow> int \<Rightarrow> (ustr \<times> pyval) list result" where
  "add_boundary_probe wrap params kind target =
     (case dict_get params (u ''arguments'') of
        Some (PObj Mut arguments) \<Rightarrow>
          (case kind of
             Depth \<Rightarrow> Inr (with_probe params arguments (nested (nat (target - 4))))
           | Arrays \<Rightarrow> Inr (with_probe params arguments (PArr Mut (replicate (nat target) (PInt 0))))
           | Strings \<Rightarrow> Inr (with_probe params arguments (PStr (replicate (nat target) 120)))
           | Objects \<Rightarrow> Inr (with_probe params arguments (numbered (nat target)))
           | Fields \<Rightarrow>
               let remaining = target - int (field_count (wrap (with_probe params arguments (PArr Mut [])))) in
               if remaining < 0 then Inl (PyError ''ValueError'')
               else Inr (with_probe params arguments (PArr Mut (field_chunks (nat remaining)))))
      | _ \<Rightarrow> Inl (PyError ''TypeError''))"

text \<open>The parameters before the probe; \<open>body_extra\<close> may replace any of the three.\<close>

definition meta_of :: "wire_lib \<Rightarrow> transport \<Rightarrow> pyval" where
  "meta_of L t =
     PObj Mut (filter (\<lambda>(k, v). k \<notin> set (tr_drop_meta t)) (dict_of
       [(wl_version_key L, PStr (or_default (tr_body_version t) PROTOCOL_VERSION)), (wl_capabilities_key L, PObj Mut []),
        (wl_client_info_key L, PObj Mut [(u ''name'', PStr (u ''ztmg-harness'')), (u ''version'', PStr (u ''1''))])]))"

definition params_of :: "wire_lib \<Rightarrow> scenario \<Rightarrow> transport \<Rightarrow> (ustr \<times> pyval) list" where
  "params_of L s t =
     dict_of ([(u ''_meta'', meta_of L t), (u ''name'', PStr (sn_tool s)), (u ''arguments'', PObj Mut (sn_arguments s))] @ tr_body_extra t)"

definition request_body :: "wire_lib \<Rightarrow> scenario \<Rightarrow> transport \<Rightarrow> pyval result" where
  "request_body L s t =
     (let wrap = body_of (u ''tools/call'') (tr_jsonrpc_id t); params = params_of L s t in
      case (tr_boundary t, tr_boundary_value t) of
        (Some kind, Some n) \<Rightarrow> mapR wrap (add_boundary_probe wrap params kind (n + tr_boundary_offset t))
      | (Some kind, None) \<Rightarrow> Inl (PyError ''TypeError'')
      | (None, _) \<Rightarrow> Inr (wrap params))"

definition request_headers :: "wire_lib \<Rightarrow> scenario \<Rightarrow> transport \<Rightarrow> (ustr \<times> ustr) list" where
  "request_headers L s t =
     (let method = or_default (tr_header_method t) (u ''tools/call'') in
      filter (\<lambda>(k, v). k \<notin> set (tr_omit t))
        ([(u ''mcp-protocol-version'', or_default (tr_header_version t) PROTOCOL_VERSION), (u ''mcp-method'', method)]
         @ (if wl_name_bearing L method
            then [(u ''mcp-name'', wl_encode_header L (or_default (tr_header_name t) (sn_tool s)))] else []))
      @ tr_add t)"

text \<open>\<open>build_envelope\<close>: the bytes of the body and the headers.\<close>

definition build_envelope :: "wire_lib \<Rightarrow> scenario \<Rightarrow> (bytes \<times> (ustr \<times> ustr) list) result" where
  "build_envelope L s =
     (let t = (case sn_transport s of Some t \<Rightarrow> t | None \<Rightarrow> Transport) in
      bindR (request_body L s t) (\<lambda>b.
      bindR (case tr_raw_body t of
               Some raw \<Rightarrow> (case encode_utf8 raw of Some e \<Rightarrow> Inr e | None \<Rightarrow> Inl (PyError ''UnicodeEncodeError''))
             | None \<Rightarrow> json_dumps (wl_py L) b) (\<lambda>raw.
      Inr (raw, request_headers L s t))))"

section \<open>The response\<close>

text \<open>\<open>int(b, base)\<close> on bytes: spaces around, a sign, \<open>0x\<close> for base 16, single underscores between digits.\<close>

definition byte_space :: "nat \<Rightarrow> bool" where
  "byte_space c \<longleftrightarrow> c = 32 \<or> 9 \<le> c \<and> c \<le> 13"

definition strip_space :: "nat list \<Rightarrow> nat list" where
  "strip_space s = rev (dropWhile byte_space (rev (dropWhile byte_space s)))"

definition digit_in :: "nat \<Rightarrow> nat \<Rightarrow> nat option" where
  "digit_in base c =
     (let v = if 48 \<le> c \<and> c \<le> 57 then c - 48 else if 65 \<le> c \<and> c \<le> 70 then c - 55 else if 97 \<le> c \<and> c \<le> 102 then c - 87 else 16 in
      if v < base then Some v else None)"

text \<open>\<open>sep\<close>: an underscore may come next.\<close>

fun int_digits :: "nat \<Rightarrow> bool \<Rightarrow> nat \<Rightarrow> nat list \<Rightarrow> nat option" where
  "int_digits base sep acc [] = (if sep then Some acc else None)"
| "int_digits base sep acc (c # s) =
     (if c = 95 then (if sep then int_digits base False acc s else None)
      else case digit_in base c of None \<Rightarrow> None | Some v \<Rightarrow> int_digits base True (base * acc + v) s)"

definition unprefixed :: "nat list \<Rightarrow> nat list" where
  "unprefixed s =
     (case s of
        c # x # r \<Rightarrow> if c = 48 \<and> (x = 120 \<or> x = 88) then (case r of d # r' \<Rightarrow> if d = 95 then r' else r | [] \<Rightarrow> r) else s
      | _ \<Rightarrow> s)"

definition py_int_bytes :: "nat \<Rightarrow> nat list \<Rightarrow> int option" where
  "py_int_bytes base b =
     (let s = strip_space b;
          (neg, s) = (case s of c # r \<Rightarrow> if c = 45 then (True, r) else if c = 43 then (False, r) else (False, s) | [] \<Rightarrow> (False, s));
          s = (if base = 16 then unprefixed s else s) in
      if base \<noteq> 16 \<and> INT_MAX_STR_DIGITS < length (filter (\<lambda>c. c \<noteq> 95) s) then None
      else map_option (\<lambda>n. if neg then - int n else int n) (int_digits base False 0 s))"

text \<open>\<open>b.partition(sep)\<close>, without the separator found.\<close>

fun partition_at :: "'a list \<Rightarrow> 'a list \<Rightarrow> 'a list \<times> 'a list" where
  "partition_at sep [] = ([], [])"
| "partition_at sep (c # s) =
     (if starts_with sep (c # s) then ([], drop (length sep) (c # s))
      else case partition_at sep s of (a, b) \<Rightarrow> (c # a, b))"

lemma partition_at_shorter: "sep \<noteq> [] \<Longrightarrow> s \<noteq> [] \<Longrightarrow> length (snd (partition_at sep s)) < length s"
proof (induction sep s rule: partition_at.induct)
  case (2 sep c s)
  show ?case
  proof (cases "starts_with sep (c # s)")
    case True
    then show ?thesis using "2.prems" by simp
  next
    case False
    then show ?thesis using 2 by (cases "s = []") (auto split: prod.splits intro: less_SucI)
  qed
qed simp

text \<open>\<open>b[:n]\<close> and \<open>b[n:]\<close>; a negative bound counts from the end.\<close>

definition slice_to :: "int \<Rightarrow> 'a list \<Rightarrow> 'a list" where
  "slice_to n s = take (if n < 0 then length s - nat (- n) else nat n) s"

definition slice_from :: "int \<Rightarrow> 'a list \<Rightarrow> 'a list" where
  "slice_from n s = drop (if n < 0 then length s - nat (- n) else nat n) s"

definition CRLF :: "nat list" where
  "CRLF = [13, 10]"

function dechunk :: "nat list \<Rightarrow> nat list" where
  "dechunk payload =
     (if payload = [] then []
      else case partition_at CRLF payload of (size_line, rest) \<Rightarrow>
        (case py_int_bytes 16 (hd (split_on 59 size_line)) of
           None \<Rightarrow> []
         | Some n \<Rightarrow> if n = 0 then [] else slice_to n rest @ dechunk (slice_from (n + 2) rest)))"
  by pat_completeness auto
termination
proof (relation "measure length")
  fix payload size_line rest n
  assume "payload \<noteq> []" and p: "(size_line, rest) = partition_at CRLF payload"
  then have "length rest < length payload" using partition_at_shorter [of CRLF payload]
    unfolding p [symmetric] snd_conv by (simp add: CRLF_def)
  then show "(slice_from (n + 2) rest, payload) \<in> measure length" by (simp add: slice_from_def)
qed simp

declare dechunk.simps [simp del]

definition lower_ascii :: "nat list \<Rightarrow> nat list" where
  "lower_ascii s = map (\<lambda>c. if 65 \<le> c \<and> c \<le> 90 then c + 32 else c) s"

text \<open>The end of \<open>post_raw\<close>: the bytes received, up to the end of the stream.\<close>

definition read_response :: "nat list \<Rightarrow> http_response" where
  "read_response raw =
     (case partition_at (CRLF @ CRLF) raw of (head, payload) \<Rightarrow>
        if head = [] then \<lparr> hr_status = 0, hr_body = [], hr_timed_out = False \<rparr>
        else
          (let words = split_on 32 (fst (partition_at CRLF head)) in
           case (if length words \<le> 1 then None else py_int_bytes 10 (words ! 1)) of
             None \<Rightarrow> \<lparr> hr_status = 0, hr_body = map of_nat payload, hr_timed_out = False \<rparr>
           | Some status \<Rightarrow>
               \<lparr> hr_status = status,
                 hr_body = map of_nat (if contains_sub (u ''transfer-encoding: chunked'') (lower_ascii head) then dechunk payload else payload),
                 hr_timed_out = False \<rparr>))"

section \<open>A probe is on its boundary\<close>

lemma field_count_total: "all_mut Mut v \<Longrightarrow> field_count v = total_fields v"
proof (induction v)
  case (PArr m xs)
  then show ?case by (auto simp: list_all_iff intro!: arg_cong [of _ _ sum_list])
next
  case (PObj m kvs)
  have "map (\<lambda>kv. field_count (snd kv)) kvs = map (\<lambda>kv. total_fields (snd kv)) kvs"
    using PObj by (fastforce simp: list_all_iff)
  from arg_cong [OF this, of sum_list] show ?case using PObj.prems by (simp add: comp_def)
qed auto

lemma total_numbered [simp]: "field_count (numbered n) = n"
  by (simp add: numbered_def comp_def sum_list_0)

lemma field_count_chunks: "sum_list (map field_count (field_chunks n)) = n"
proof (induction n rule: field_chunks.induct)
  case (1 n)
  then show ?case by (subst field_chunks.simps) (simp add: Let_def min_def)
qed

lemma nat_text_inj: "nat_text m = nat_text n \<longleftrightarrow> m = n"
  by (metis nat_of_digits_text)

lemma depth_nested: "container_depth (nested n) = Suc n"
  by (induction n) (simp_all add: nested_def)

text \<open>Setting one member changes a sum or a maximum over the members by that member only.\<close>

lemma sum_dict_set: "\<exists>c. \<forall>v. sum_list (map (\<lambda>kv. f (snd kv)) (dict_set d k v)) = c + (f v :: nat)"
proof (induction d)
  case (Cons kv d)
  then obtain c where c: "\<forall>v. sum_list (map (\<lambda>kv. f (snd kv)) (dict_set d k v)) = c + f v" by blast
  show ?case
  proof (cases "fst kv = k")
    case True
    have "sum_list (map (\<lambda>kv. f (snd kv)) (dict_set (kv # d) k v)) = sum_list (map (\<lambda>kv. f (snd kv)) d) + f v" for v
      using True by (cases kv) simp
    then show ?thesis by blast
  next
    case False
    have "sum_list (map (\<lambda>kv. f (snd kv)) (dict_set (kv # d) k v)) = (f (snd kv) + c) + f v" for v
      using False c by (cases kv) simp
    then show ?thesis by blast
  qed
qed simp

lemma max_dict_set: "\<exists>c. \<forall>v. foldr max (map (\<lambda>kv. f (snd kv)) (dict_set d k v)) 0 = max c (f v :: nat)"
proof (induction d)
  case (Cons kv d)
  then obtain c where c: "\<forall>v. foldr max (map (\<lambda>kv. f (snd kv)) (dict_set d k v)) 0 = max c (f v)" by blast
  show ?case
  proof (cases "fst kv = k")
    case True
    have "foldr max (map (\<lambda>kv. f (snd kv)) (dict_set (kv # d) k v)) 0 = max (foldr max (map (\<lambda>kv. f (snd kv)) d) 0) (f v)" for v
      using True by (cases kv) (simp add: max.commute)
    then show ?thesis by blast
  next
    case False
    have "foldr max (map (\<lambda>kv. f (snd kv)) (dict_set (kv # d) k v)) 0 = max (max (f (snd kv)) c) (f v)" for v
      using False c by (cases kv) (simp add: max.assoc)
    then show ?thesis by blast
  qed
qed (auto intro: exI [of _ 0])

lemma length_dict_set: "length (dict_set d k v) = length (dict_set d k w)"
  by (induction d) auto

text \<open>The fields and the depth of the whole request, as functions of the probe.\<close>

lemma probe_fields:
  "\<exists>c. \<forall>probe. field_count (body_of method i (with_probe params arguments probe)) = c + field_count probe"
proof -
  obtain a where a: "\<And>p. sum_list (map (\<lambda>kv. field_count (snd kv)) (dict_set arguments (u ''probe'') p)) = a + field_count p"
    using sum_dict_set [of field_count arguments "u ''probe''"] by blast
  obtain b where b: "\<And>p. sum_list (map (\<lambda>kv. field_count (snd kv)) (dict_set params (u ''arguments'') p)) = b + field_count p"
    using sum_dict_set [of field_count params "u ''arguments''"] by blast
  have la: "length (dict_set arguments (u ''probe'') p) = length (dict_set arguments (u ''probe'') PNone)" for p
    by (rule length_dict_set)
  have lb: "length (dict_set params (u ''arguments'') p) = length (dict_set params (u ''arguments'') PNone)" for p
    by (rule length_dict_set)
  have "field_count (body_of method i (with_probe params arguments p)) =
      (4 + field_count i + length (dict_set params (u ''arguments'') PNone) + b + length (dict_set arguments (u ''probe'') PNone) + a)
      + field_count p" for p
    by (simp add: body_of_def with_probe_def comp_def a b la [of p] lb [of "PObj Mut _"])
  then show ?thesis by blast
qed

lemma probe_depth:
  "\<exists>c. \<forall>probe. container_depth (body_of method i (with_probe params arguments probe)) = max c (3 + container_depth probe)"
proof -
  obtain a where a: "\<And>p. foldr max (map (\<lambda>kv. container_depth (snd kv)) (dict_set arguments (u ''probe'') p)) 0 = max a (container_depth p)"
    using max_dict_set [of container_depth arguments "u ''probe''"] by blast
  obtain b where b: "\<And>p. foldr max (map (\<lambda>kv. container_depth (snd kv)) (dict_set params (u ''arguments'') p)) 0 = max b (container_depth p)"
    using max_dict_set [of container_depth params "u ''arguments''"] by blast
  have "container_depth (body_of method i (with_probe params arguments p)) =
      max (max (Suc (container_depth i)) (max (2 + b) (3 + a))) (3 + container_depth p)" for p
    by (simp add: body_of_def with_probe_def comp_def a b)
  then show ?thesis by blast
qed

text \<open>
  C37: a boundary row sits exactly where it says. Whatever else the row sends, the request it builds
  has, counted the way the gateway's own guard counts, exactly \<open>boundary_value + boundary_offset\<close>
  fields; or a nesting depth of exactly that much, when that is at least 4 and nothing else in it is
  deeper; or one array, string or object of exactly that length. So a row below, at and above a
  limit tests the limit.
\<close>

theorem boundary_probe_exact:
  assumes "request_body L s t = Inr b" "tr_boundary t = Some kind" "tr_boundary_value t = Some n" "all_mut Mut b"
  shows "\<exists>params arguments probe.
      b = body_of (u ''tools/call'') (tr_jsonrpc_id t) (with_probe params arguments probe)
    \<and> (case kind of
         Fields \<Rightarrow> int (total_fields b) = n + tr_boundary_offset t
       | Depth \<Rightarrow> \<exists>c. container_depth b = max c (max 4 (nat (n + tr_boundary_offset t)))
                  \<and> container_depth (body_of (u ''tools/call'') (tr_jsonrpc_id t) (with_probe params arguments (PObj Mut []))) = max c 4
       | Arrays \<Rightarrow> \<exists>xs. probe = PArr Mut xs \<and> length xs = nat (n + tr_boundary_offset t)
       | Strings \<Rightarrow> \<exists>xs. probe = PStr xs \<and> length xs = nat (n + tr_boundary_offset t)
       | Objects \<Rightarrow> \<exists>kvs. probe = PObj Mut kvs \<and> distinct_keys kvs \<and> length kvs = nat (n + tr_boundary_offset t))"
proof -
  let ?m = "u ''tools/call''" and ?i = "tr_jsonrpc_id t" and ?n = "n + tr_boundary_offset t"
  obtain params where p: "add_boundary_probe (body_of ?m ?i) (params_of L s t) kind ?n = Inr params" "b = body_of ?m ?i params"
    using assms(1-3) by (auto simp: request_body_def Let_def mapR_Inr_iff)
  obtain args where a: "dict_get (params_of L s t) (u ''arguments'') = Some (PObj Mut args)"
    using p(1) by (auto simp: add_boundary_probe_def split: option.splits pyval.splits mutability.splits)
  note p1 = p(1) [unfolded add_boundary_probe_def a option.case pyval.case mutability.case]
  show ?thesis
  proof (cases kind)
    case Fields
    let ?r = "?n - int (field_count (body_of ?m ?i (with_probe (params_of L s t) args (PArr Mut []))))"
    have r: "0 \<le> ?r" and q: "params = with_probe (params_of L s t) args (PArr Mut (field_chunks (nat ?r)))"
      using p1 Fields by (auto simp: Let_def split: if_splits)
    obtain c where c: "\<forall>probe. field_count (body_of ?m ?i (with_probe (params_of L s t) args probe)) = c + field_count probe"
      using probe_fields by blast
    have "int (field_count b) = ?n" using r c by (simp add: p(2) q field_count_chunks)
    then show ?thesis using Fields p(2) q field_count_total [OF assms(4)] by auto
  next
    case Depth
    have q: "params = with_probe (params_of L s t) args (nested (nat (?n - 4)))" using p1 Depth by simp
    obtain c where c: "\<forall>probe. container_depth (body_of ?m ?i (with_probe (params_of L s t) args probe)) = max c (3 + container_depth probe)"
      using probe_depth by blast
    have "3 + Suc (nat (?n - 4)) = max 4 (nat ?n)" by linarith
    then have "container_depth b = max c (max 4 (nat ?n))" using c by (simp only: p(2) q depth_nested)
    moreover have "container_depth (body_of ?m ?i (with_probe (params_of L s t) args (PObj Mut []))) = max c 4" using c by simp
    ultimately show ?thesis using Depth p(2) q by auto
  next
    case Arrays
    then have "params = with_probe (params_of L s t) args (PArr Mut (replicate (nat ?n) (PInt 0)))" using p1 by simp
    with p(2) show ?thesis unfolding Arrays
      by - (rule exI [of _ "params_of L s t"], rule exI [of _ args], rule exI [of _ "PArr Mut (replicate (nat ?n) (PInt 0))"], simp)
  next
    case Strings
    then have "params = with_probe (params_of L s t) args (PStr (replicate (nat ?n) 120))" using p1 by simp
    with p(2) show ?thesis unfolding Strings
      by - (rule exI [of _ "params_of L s t"], rule exI [of _ args], rule exI [of _ "PStr (replicate (nat ?n) 120)"], simp)
  next
    case Objects
    then have "params = with_probe (params_of L s t) args (numbered (nat ?n))" using p1 by simp
    moreover have "distinct_keys (map (\<lambda>i. (107 # nat_text i, PInt 0)) [0..<nat ?n])"
      by (simp add: comp_def distinct_map inj_on_def nat_text_inj)
    ultimately show ?thesis using p(2) unfolding Objects
      by - (rule exI [of _ "params_of L s t"], rule exI [of _ args], rule exI [of _ "numbered (nat ?n)"], simp add: numbered_def)
  qed
qed

section \<open>Chunks\<close>

fun hex_rev :: "nat \<Rightarrow> nat list" where
  "hex_rev n = (if n < 16 then [hex_digit n] else hex_digit (n mod 16) # hex_rev (n div 16))"

declare hex_rev.simps [simp del]

text \<open>A chunk as an HTTP/1.1 server frames it, and the last chunk.\<close>

definition hex_text :: "nat \<Rightarrow> nat list" where
  "hex_text n = rev (hex_rev n)"

definition chunk :: "nat list \<Rightarrow> nat list" where
  "chunk c = hex_text (length c) @ CRLF @ c @ CRLF"

definition last_chunk :: "nat list" where
  "last_chunk = [48] @ CRLF @ CRLF"

definition hex_char :: "nat \<Rightarrow> bool" where
  "hex_char c \<longleftrightarrow> 48 \<le> c \<and> c \<le> 57 \<or> 97 \<le> c \<and> c \<le> 102"

lemma hex_digit_char: "v < 16 \<Longrightarrow> hex_char (hex_digit v) \<and> digit_in 16 (hex_digit v) = Some v"
  by (auto simp: hex_digit_def hex_char_def digit_in_def Let_def)

lemma hex_text_chars: "c \<in> set (hex_text n) \<Longrightarrow> hex_char c"
  unfolding hex_text_def
proof (induction n rule: hex_rev.induct)
  case (1 n)
  then show ?case using hex_digit_char [of n] hex_digit_char [of "n mod 16"]
    by (auto simp: hex_rev.simps [of n] split: if_splits)
qed

lemma hex_text_not_Nil [simp]: "hex_text n \<noteq> []"
  by (simp add: hex_text_def hex_rev.simps [of n])

lemma hex_char_digit: "hex_char c \<Longrightarrow> c \<noteq> 95 \<and> (\<exists>d. digit_in 16 c = Some d)"
  unfolding hex_char_def digit_in_def Let_def by (elim disjE; simp; linarith)

lemma int_digits_snoc:
  "(\<forall>c \<in> set s. hex_char c) \<Longrightarrow> v < 16 \<Longrightarrow> int_digits 16 sep acc s = Some m \<or> s = [] \<and> m = acc \<Longrightarrow>
   int_digits 16 sep acc (s @ [hex_digit v]) = Some (16 * m + v)"
proof (induction s arbitrary: sep acc)
  case Nil
  then show ?case using hex_digit_char [OF Nil(2)] by (auto simp: hex_char_def split: if_splits)
next
  case (Cons c s)
  have "hex_char c" using Cons.prems(1) by simp
  then obtain d where d: "c \<noteq> 95" "digit_in 16 c = Some d" using hex_char_digit by blast
  then have "int_digits 16 True (16 * acc + d) s = Some m" using Cons.prems(3) by simp
  with Cons d show ?case by simp
qed

lemma int_digits_hex: "int_digits 16 False 0 (hex_text n) = Some n"
proof (induction n rule: hex_rev.induct)
  case (1 n)
  show ?case
  proof (cases "n < 16")
    case True
    then show ?thesis using hex_digit_char [OF True] by (auto simp: hex_text_def hex_rev.simps [of n] hex_char_def)
  next
    case False
    then have "hex_text n = hex_text (n div 16) @ [hex_digit (n mod 16)]" by (simp add: hex_text_def hex_rev.simps [of n])
    with int_digits_snoc [of "hex_text (n div 16)" "n mod 16" False 0 "n div 16"] 1 False hex_text_chars show ?thesis by auto
  qed
qed

lemma py_int_hex: "py_int_bytes 16 (hex_text n) = Some (int n)"
proof -
  obtain c s where s: "hex_text n = c # s" using hex_text_not_Nil [of n] by (cases "hex_text n") auto
  have h: "\<forall>x \<in> set (hex_text n). hex_char x" using hex_text_chars by blast
  then have "\<forall>x \<in> set (hex_text n). \<not> byte_space x" by (auto simp: hex_char_def byte_space_def)
  then have "dropWhile byte_space (hex_text n) = hex_text n" "dropWhile byte_space (rev (hex_text n)) = rev (hex_text n)"
    by (cases "rev (hex_text n)"; simp add: dropWhile_eq_self_iff; metis hd_in_set set_rev hex_text_not_Nil hd_rev last_in_set)+
  then have "strip_space (hex_text n) = hex_text n" by (simp add: strip_space_def)
  moreover have "c \<noteq> 45" "c \<noteq> 43" using h s by (auto simp: hex_char_def)
  moreover have "unprefixed (hex_text n) = hex_text n"
    using h s by (auto simp: unprefixed_def hex_char_def split: list.splits)
  ultimately show ?thesis using int_digits_hex [of n] by (simp add: py_int_bytes_def s Let_def)
qed

lemma partition_at_crlf: "13 \<notin> set s \<Longrightarrow> partition_at CRLF (s @ CRLF @ r) = (s, r)"
  by (induction s) (auto simp: CRLF_def starts_with_Cons)

lemma dechunk_chunk: "c \<noteq> [] \<Longrightarrow> dechunk (chunk c @ r) = c @ dechunk r"
proof -
  assume c: "c \<noteq> []"
  have h: "13 \<notin> set (hex_text (length c))" "59 \<notin> set (hex_text (length c))"
    using hex_text_chars [of 13 "length c"] hex_text_chars [of 59 "length c"] by (auto simp: hex_char_def)
  have p: "partition_at CRLF (chunk c @ r) = (hex_text (length c), c @ CRLF @ r)"
    using partition_at_crlf [OF h(1), of "c @ CRLF @ r"] by (simp add: chunk_def)
  have "nat (2 + int (length c)) = Suc (Suc (length c))" by simp
  then show ?thesis
    using c p h(2) by (subst dechunk.simps)
      (simp add: chunk_def split_on_single py_int_hex slice_to_def slice_from_def CRLF_def add.commute)
qed

lemma dechunk_last: "dechunk last_chunk = []"
  by code_simp

text \<open>
  C38: a chunked reply is read back whole. Whatever nonempty chunks, without extensions, the server
  splits a body into, the harness recovers the body byte for byte; and it always comes to an end, on
  any bytes at all.
\<close>

theorem dechunk_roundtrip:
  assumes "\<forall>c \<in> set cs. c \<noteq> []"
  shows "dechunk (concat (map chunk cs) @ last_chunk) = concat cs"
  using assms by (induction cs) (simp_all add: dechunk_last dechunk_chunk)

theorem dechunk_roundtrip_witness:
  "dechunk (chunk (u ''Wiki'') @ chunk (u ''pedia'') @ last_chunk) = u ''Wikipedia''"
  using dechunk_roundtrip [of "[u ''Wiki'', u ''pedia'']"] by (simp add: u_append [symmetric])

section \<open>Examples\<close>

definition demo_lib :: wire_lib where
  "demo_lib =
     \<lparr> wl_py = plain_env, wl_version_key = u ''version'', wl_capabilities_key = u ''capabilities'', wl_client_info_key = u ''client'',
       wl_name_bearing = (\<lambda>m. m = u ''tools/call''), wl_encode_header = id \<rparr>"

definition boundary_row :: scenario where
  "boundary_row =
     \<lparr> sn_id = u ''fields-above'', sn_kind = Malicious, sn_layer = Protocol_layer, sn_principal = u ''intern'', sn_tool = u ''read_file'',
       sn_arguments = [(u ''path'', PStr (u ''a''))], sn_expected_decision = Expect_deny,
       sn_expected_reason = u ''PROTO_LIMIT_EXCEEDED'', sn_expected_side_effect = None, sn_risk_tier = R1, sn_notes = [],
       sn_requires_symlinks = False, sn_transport = None, sn_fixture_mode = [], sn_gateway_fault = False \<rparr>"

definition boundary_transport :: transport where
  "boundary_transport = Transport \<lparr> tr_boundary := Some Fields, tr_boundary_value := Some 19, tr_boundary_offset := 1 \<rparr>"

theorem boundary_probe_exact_witness:
  "\<exists>b. request_body demo_lib boundary_row boundary_transport = Inr b \<and> int (total_fields b) = 20"
proof -
  have "(case request_body demo_lib boundary_row boundary_transport of Inr b \<Rightarrow> all_mut Mut b | Inl _ \<Rightarrow> False)" by code_simp
  then obtain b where b: "request_body demo_lib boundary_row boundary_transport = Inr b" "all_mut Mut b"
    by (auto split: sum.splits)
  have "tr_boundary boundary_transport = Some Fields" "tr_boundary_value boundary_transport = Some 19"
    "tr_boundary_offset boundary_transport = 1" by (simp_all add: boundary_transport_def)
  from boundary_probe_exact [OF b(1) this(1,2) b(2)] this(3) b(1) show ?thesis by auto
qed

end
