(* ===== verification/Eval_Oplog.thy ===== *)
theory Eval_Oplog
  imports Eval_Fixture Eval_Client
begin

text \<open>
  What the operation log of the fixture proves: nothing happens that is not in it, unless the tool
  reaches the log itself; and what the reader makes of the lines.
\<close>

section \<open>What leaves the log alone\<close>

definition untouched :: "('s files, 'a) wait \<Rightarrow> bool" where
  "untouched m \<longleftrightarrow> (\<forall>s. snd (snd (m s)) = snd s)"

lemma untouchedD: "untouched m \<Longrightarrow> m s = (r, s') \<Longrightarrow> snd s' = snd s"
  by (metis untouched_def snd_conv)

lemma untouched_give [simp]: "untouched (giveW r)"
  by (simp add: untouched_def giveW_def)

lemma untouched_bind:
  assumes "untouched m" "\<And>x. untouched (f x)"
  shows "untouched (bindW m f)"
  unfolding untouched_def
proof
  fix s
  obtain r s' where m: "m s = (r, s')" by (cases "m s")
  with untouchedD [OF assms(1)] have s': "snd s' = snd s" by simp
  have "snd (snd (f x s')) = snd s'" for x using assms(2) [of x] unfolding untouched_def by blast
  with m s' show "snd (snd (bindW m f s)) = snd s" by (auto simp: bindW_def split: option.splits sum.splits)
qed

lemma untouched_keeping: "untouched m \<Longrightarrow> untouched (keeping d m)"
  by (auto simp: untouched_def keeping_def split: prod.splits option.splits) (metis snd_conv)+

text \<open>The path of a call, and its parent, are not the log's.\<close>

definition leaves_log :: "'s fixture_env \<Rightarrow> ustr list \<Rightarrow> bool" where
  "leaves_log e p \<longleftrightarrow>
     untouched (fx_read_text e p) \<and> untouched (fx_names e p) \<and> untouched (fx_stat e p) \<and> untouched (fx_is_dir e p)
   \<and> untouched (fx_exists e p) \<and> untouched (fx_mkdirs e (butlast p)) \<and> (\<forall>t. untouched (fx_write_text e p t))
   \<and> untouched (fx_open_append e p) \<and> (\<forall>t. untouched (fx_append_text e p t)) \<and> untouched (fx_unlink e p)"

definition plain_details :: "details \<Rightarrow> bool" where
  "plain_details d \<longleftrightarrow>
     distinct (map fst d) \<and> set (map fst d) \<subseteq> u ` {''bytes'', ''count'', ''size'', ''existed''}
   \<and> list_all (\<lambda>v. case v of PInt i \<Rightarrow> \<bar>i\<bar> \<le> 2 ^ 63 | PBool _ \<Rightarrow> True | _ \<Rightarrow> False) (map snd d)"

definition details_plain :: "('s files, pyval result \<times> details) wait \<Rightarrow> bool" where
  "details_plain m \<longleftrightarrow> (\<forall>s r d s'. m s = (Some (Inr (r, d)), s') \<longrightarrow> plain_details d)"

lemma details_plain_bind:
  "(\<And>s x s'. m s = (Some (Inr x), s') \<Longrightarrow> details_plain (f x)) \<Longrightarrow> details_plain (bindW m f)"
  unfolding details_plain_def bindW_def by (auto split: prod.splits option.splits sum.splits)

lemma give_len [simp]:
  "giveW (py_len xs) s = (Some (Inr n), s') \<longleftrightarrow> s' = s \<and> length xs < 2 ^ 63 \<and> n = int (length xs)"
  by (auto simp: giveW_def py_len_def)

lemma details_plain_give [simp]:
  "details_plain (giveW (Inl ex))" "plain_details d \<Longrightarrow> details_plain (giveW (Inr (r, d)))"
  by (simp_all add: details_plain_def giveW_def)

lemma details_plain_keeping: "plain_details d \<Longrightarrow> details_plain (keeping d m)"
  by (auto simp: details_plain_def keeping_def split: prod.splits option.splits)

lemma plain_details_ones [simp]:
  "plain_details []"
  "\<bar>i\<bar> \<le> 2 ^ 63 \<Longrightarrow> plain_details [(u ''bytes'', PInt i)]"
  "\<bar>i\<bar> \<le> 2 ^ 63 \<Longrightarrow> plain_details [(u ''count'', PInt i)]"
  "\<bar>i\<bar> \<le> 2 ^ 63 \<Longrightarrow> plain_details [(u ''size'', PInt i)]"
  "\<bar>i\<bar> \<le> 2 ^ 63 \<Longrightarrow> plain_details [(u ''existed'', PBool b), (u ''bytes'', PInt i)]"
  by (simp_all add: plain_details_def)

lemma sint_size [simp]: "\<bar>sint (x :: 64 word)\<bar> \<le> 9223372036854775808"
  using sint_ge [of x] sint_lt [of x] by simp

section \<open>Every operation is logged\<close>

definition attempt_line :: "'s fixture_env \<Rightarrow> string \<Rightarrow> ustr \<Rightarrow> 's fixture_world \<Rightarrow> bytes" where
  "attempt_line e op req w =
     entry_line (fx_py e) (base_entry e (fw_seq w + 1) (u op) req Attempt (u ''attempted'')) [] (fx_now e (fw_log w))"

definition end_line :: "'s fixture_env \<Rightarrow> string \<Rightarrow> ustr \<Rightarrow> ustr \<Rightarrow> details \<Rightarrow> 's fixture_world \<Rightarrow> bytes" where
  "end_line e op req out d w =
     entry_line (fx_py e) (base_entry e (fw_seq w + 1) (u op) req Ended out) d
       (fx_now e (fw_log w @ attempt_line e op req w))"

definition succeeds :: "'a result option \<Rightarrow> bool" where
  "succeeds r \<longleftrightarrow> (\<exists>x. r = Some (Inr x))"

lemma succeeds_simps [simp]:
  "succeeds (Some (Inr x))" "\<not> succeeds (Some (Inl ex))" "\<not> succeeds None"
  by (simp_all add: succeeds_def)

text \<open>
  What a call leaves: the attempt could not be written, and nothing was done; the process died in
  the operation; the end could not be written; or the attempt and its end, which says how it went.
\<close>

definition logged :: "'s fixture_env \<Rightarrow> string \<Rightarrow> ustr \<Rightarrow> 's fixture_world \<Rightarrow> 'a result option \<Rightarrow> 's fixture_world \<Rightarrow> bool" where
  "logged e op req w r w' \<longleftrightarrow>
     (\<exists>k q. fx_commit e (fw_log w) (attempt_line e op req w) = (k, q) \<and> \<not> succeeds q
        \<and> fw_log w' = fw_log w @ take k (attempt_line e op req w)) \<and> fw_disk w' = fw_disk w \<and> \<not> succeeds r
   \<or> fw_log w' = fw_log w @ attempt_line e op req w \<and> r = None
   \<or> (\<exists>out d k q. fx_commit e (fw_log w @ attempt_line e op req w) (end_line e op req out d w) = (k, q) \<and> \<not> succeeds q
        \<and> fw_log w' = fw_log w @ attempt_line e op req w @ take k (end_line e op req out d w) \<and> plain_details d)
       \<and> \<not> succeeds r
   \<or> (\<exists>out d. fw_log w' = fw_log w @ attempt_line e op req w @ end_line e op req out d w \<and> plain_details d
        \<and> (out = u ''ok'' \<longleftrightarrow> succeeds r))"

lemma error_outcome_not_ok: "error_outcome ex \<noteq> u ''ok''"
  by (simp add: error_outcome_def u_def)

lemma append_entry_outcomes:
  assumes "append_entry e g d w = (r, w')"
  shows "(\<exists>k. fx_commit e (fw_log w) (entry_line (fx_py e) g d (fx_now e (fw_log w))) = (k, r)
        \<and> w' = w \<lparr> fw_log := fw_log w @ take k (entry_line (fx_py e) g d (fx_now e (fw_log w))) \<rparr>) \<and> \<not> succeeds r
    \<or> r = Some (Inr ()) \<and> w' = w \<lparr> fw_log := fw_log w @ entry_line (fx_py e) g d (fx_now e (fw_log w)) \<rparr>"
  using assms unfolding append_entry_def Let_def by (auto split: prod.splits option.splits sum.splits)

lemma oplog_logged:
  assumes run: "oplog e op (PStr req) run w = (r, w')"
    and log: "untouched (run (pure_join (fx_root e) req))" "details_plain (run (pure_join (fx_root e) req))"
  shows "logged e op req w r w'"
proof -
  let ?w = "w \<lparr> fw_seq := fw_seq w + 1 \<rparr>" and ?p = "pure_join (fx_root e) req"
  let ?a = "attempt_line e op req w"
  let ?g = "base_entry e (fw_seq w + 1) (u op) req Attempt (u ''attempted'')"
  obtain r1 w1 where a: "append_entry e ?g [] ?w = (r1, w1)" by force
  show ?thesis
  proof (cases "r1 = Some (Inr ())")
    case False
    then obtain k where w1: "w1 = ?w \<lparr> fw_log := fw_log w @ take k ?a \<rparr>" "fx_commit e (fw_log w) ?a = (k, r1)" "\<not> succeeds r1"
      using append_entry_outcomes [OF a] by (auto simp: attempt_line_def)
    have "\<not> succeeds r \<and> w' = w1"
      using run a False by (auto simp: oplog_def next_seq_def bindW_def split: option.splits sum.splits)
    then show ?thesis using w1 unfolding logged_def by (intro disjI1) auto
  next
    case True
    have w1: "w1 = ?w \<lparr> fw_log := fw_log w @ ?a \<rparr>"
      using append_entry_outcomes [OF a] True by (auto simp: attempt_line_def)
    obtain q w2 where m: "on_files (run ?p) w1 = (q, w2)" by force
    obtain s l where f: "run ?p (fw_disk w1, fw_log w1) = (q, s, l)" "w2 = w1 \<lparr> fw_disk := s, fw_log := l \<rparr>"
      using m by (auto simp: on_files_def split: prod.splits)
    have l: "fw_log w2 = fw_log w @ ?a" using untouchedD [OF log(1) f(1)] f(2) w1 by simp
    have r: "(r, w') = (case q of
        None \<Rightarrow> (None, w2)
      | Some (Inr (Inr x, d)) \<Rightarrow> bindW (append_entry e (base_entry e (fw_seq w + 1) (u op) req Ended (u ''ok'')) d) (\<lambda>_. giveW (Inr x)) w2
      | Some (Inr (Inl ex, d)) \<Rightarrow> bindW (append_entry e (base_entry e (fw_seq w + 1) (u op) req Ended (error_outcome ex)) d) (\<lambda>_. giveW (Inl ex)) w2
      | Some (Inl ex) \<Rightarrow> bindW (append_entry e (base_entry e (fw_seq w + 1) (u op) req Ended (error_outcome ex)) []) (\<lambda>_. giveW (Inl ex)) w2)"
      using run a True m by (auto simp: oplog_def next_seq_def bindW_def split: option.splits sum.splits prod.splits)
    have ending: "logged e op req w r w'"
      if "(r, w') = bindW (append_entry e (base_entry e (fw_seq w + 1) (u op) req Ended out) d) (\<lambda>_. giveW res) w2"
        "plain_details d" "out = u ''ok'' \<longleftrightarrow> \<not> isl res" for out d res
    proof -
      obtain r3 w3 where e3: "append_entry e (base_entry e (fw_seq w + 1) (u op) req Ended out) d w2 = (r3, w3)" by force
      from append_entry_outcomes [OF e3] show ?thesis
      proof
        let ?l = "entry_line (fx_py e) (base_entry e (fw_seq w + 1) (u op) req Ended out) d (fx_now e (fw_log w2))"
        assume "(\<exists>k. fx_commit e (fw_log w2) ?l = (k, r3) \<and> w3 = w2 \<lparr> fw_log := fw_log w2 @ take k ?l \<rparr>) \<and> \<not> succeeds r3"
        moreover have "?l = end_line e op req out d w" by (simp add: end_line_def l)
        ultimately obtain k where k: "fx_commit e (fw_log w @ ?a) (end_line e op req out d w) = (k, r3)" "\<not> succeeds r3"
          and "w3 = w2 \<lparr> fw_log := fw_log w @ ?a @ take k (end_line e op req out d w) \<rparr>"
          using l by auto
        then have "fw_log w' = fw_log w @ ?a @ take k (end_line e op req out d w)" "\<not> succeeds r"
          using that(1) e3 by (auto simp: bindW_def split: option.splits sum.splits)
        then show ?thesis using that(2) k unfolding logged_def by blast
      next
        assume x: "r3 = Some (Inr ()) \<and> w3 = w2 \<lparr> fw_log := fw_log w2 @ entry_line (fx_py e) (base_entry e (fw_seq w + 1) (u op) req Ended out) d (fx_now e (fw_log w2)) \<rparr>"
        then have "r = Some res \<and> fw_log w' = fw_log w @ ?a @ end_line e op req out d w"
          using that(1) e3 l by (simp add: bindW_def giveW_def end_line_def)
        then show ?thesis using that(2,3) by (cases res) (auto simp: logged_def)
      qed
    qed
    show ?thesis
    proof (cases q)
      case None
      then show ?thesis using r l by (simp add: logged_def)
    next
      case (Some v)
      show ?thesis
      proof (cases v)
        case (Inl ex)
        then show ?thesis using r Some ending [of "error_outcome ex" "[]" "Inl ex"] error_outcome_not_ok by simp
      next
        case (Inr y)
        obtain res d where y: "y = (res, d)" by force
        have d: "plain_details d" using log(2) f(1) unfolding Some Inr y details_plain_def by blast
        show ?thesis
          using r Some Inr y d ending [of "u ''ok''" d res] ending [of "error_outcome (projl res)" d res] error_outcome_not_ok
          by (cases res) simp_all
      qed
    qed
  qed
qed

text \<open>The word of the log for a tool, and the path it is called with.\<close>

definition op_word :: "ustr \<Rightarrow> string" where
  "op_word name =
     (if name = u ''read_file'' then ''read'' else if name = u ''list_directory'' then ''list''
      else if name = u ''stat_file'' then ''stat'' else if name = u ''write_file'' then ''write''
      else if name = u ''append_file'' then ''append'' else ''delete'')"

definition path_argument :: "(ustr \<times> pyval) list \<Rightarrow> pyval" where
  "path_argument arguments = (case dict_get arguments (u ''path'') of Some v \<Rightarrow> v | None \<Rightarrow> PStr (u ''.''))"

text \<open>A tool that logs what it does, whatever state it starts in.\<close>

definition logs :: "'s fixture_env \<Rightarrow> string \<Rightarrow> ustr \<Rightarrow> ('s fixture_world, 'a) wait \<Rightarrow> bool" where
  "logs e op req m \<longleftrightarrow> (\<forall>w. logged e op req w (fst (m w)) (snd (m w)))"

lemma logs_oplog:
  "untouched (run (pure_join (fx_root e) req)) \<Longrightarrow> details_plain (run (pure_join (fx_root e) req)) \<Longrightarrow>
   logs e op req (oplog e op (PStr req) run)"
  by (simp add: logs_def oplog_logged)

lemmas tool_intros = logs_oplog untouched_bind untouched_keeping details_plain_bind details_plain_keeping

lemma readers_log:
  assumes "leaves_log e (pure_join (fx_root e) req)"
  shows "logs e ''read'' req (read_file e (PStr req))"
    "logs e ''list'' req (list_directory e (PStr req))"
    "logs e ''stat'' req (stat_file e (PStr req))"
    "logs e ''delete'' req (delete_file e (PStr req))"
  using assms unfolding leaves_log_def read_file_def list_directory_def stat_file_def delete_file_def
  by (auto intro!: tool_intros)

lemma writers_log:
  assumes "leaves_log e (pure_join (fx_root e) req)"
  shows "logs e ''write'' req (write_file e (PStr req) content)"
    "logs e ''append'' req (append_file e (PStr req) content)"
  using assms unfolding leaves_log_def write_file_def append_file_def
  by (cases content; auto intro!: tool_intros)+

lemma run_tool_logs:
  "leaves_log e (pure_join (fx_root e) req) \<Longrightarrow> logs e (op_word name) req (run_tool e name (PStr req # vals))"
  by (simp add: run_tool_def op_word_def Let_def readers_log writers_log)

lemma run_tool_no_path:
  "\<forall>req. p \<noteq> PStr req \<Longrightarrow> run_tool e name (p # vals) w = (Some (Inl type_error), w \<lparr> fw_seq := fw_seq w + 1 \<rparr>)"
  by (cases p) (simp_all add: run_tool_def Let_def read_file_def list_directory_def stat_file_def write_file_def
    append_file_def delete_file_def oplog_def next_seq_def bindW_def giveW_def)

lemma call_params_path:
  assumes "dict_get TOOLS name = Some ps" "call_params ps args = Inr vals"
  shows "\<exists>vs. vals = path_argument args # vs"
proof -
  obtain d ps' where ps: "ps = (u ''path'', d) # ps'" "d = None \<or> d = Some (PStr (u ''.''))"
    using assms(1) by (auto simp: TOOLS_def dict_get_def split: if_splits)
  show ?thesis
    using assms(2) ps by (auto simp: call_params_def path_argument_def mapR_Inr_iff split: if_splits option.splits)
qed

lemma call_logged:
  assumes "call e name args w = (r, w')"
    and "\<And>req. path_argument args = PStr req \<Longrightarrow> leaves_log e (pure_join (fx_root e) req)"
  shows "fw_log w' = fw_log w \<and> fw_disk w' = fw_disk w \<and> \<not> succeeds r
    \<or> (\<exists>req. path_argument args = PStr req \<and> logged e (op_word name) req w r w')"
proof (cases "dict_get TOOLS name")
  case None
  then show ?thesis using assms(1) by (auto simp: call_def giveW_def)
next
  case (Some ps)
  show ?thesis
  proof (cases "call_params ps args")
    case (Inl ex)
    then show ?thesis using assms(1) Some by (auto simp: call_def bindW_def giveW_def)
  next
    case (Inr vals)
    then obtain vs where v: "vals = path_argument args # vs" using call_params_path [OF Some] by blast
    have t: "run_tool e name (path_argument args # vs) w = (r, w')"
      using assms(1) Some Inr v by (simp add: call_def bindW_def giveW_def)
    show ?thesis
    proof (cases "\<exists>req. path_argument args = PStr req")
      case False
      then have "run_tool e name (path_argument args # vs) w = (Some (Inl type_error), w \<lparr> fw_seq := fw_seq w + 1 \<rparr>)"
        using run_tool_no_path by blast
      then show ?thesis using t by auto
    next
      case True
      then obtain req where q: "path_argument args = PStr req" by blast
      from run_tool_logs [OF assms(2) [OF q], of name vs] t q show ?thesis
        unfolding logs_def by (metis fst_conv snd_conv)
    qed
  qed
qed

text \<open>
  C34: the fixture does nothing that its log does not show (FIX-008), on any path that is not the
  log's own. A call that is refused before it is recorded leaves disk and log alone. Otherwise the
  attempt comes first: when it cannot be written and synced, what got to the file is all that
  changed and the call fails. With the attempt in the log, either the process died in the
  operation, or the end could not be written and the call fails, with what got to the file after
  the attempt, or the end stands whole after the attempt and says \<open>ok\<close> exactly when the call
  succeeds. Nothing is removed from the log.
\<close>

theorem operation_is_logged:
  assumes "call e name args w = (r, w')"
    and "\<And>req. path_argument args = PStr req \<Longrightarrow> leaves_log e (pure_join (fx_root e) req)"
  shows "fw_log w' = fw_log w \<and> fw_disk w' = fw_disk w \<and> \<not> succeeds r
    \<or> (\<exists>req a. path_argument args = PStr req \<and> a = attempt_line e (op_word name) req w \<and>
        ((\<exists>k q. fx_commit e (fw_log w) a = (k, q) \<and> \<not> succeeds q \<and> fw_log w' = fw_log w @ take k a)
            \<and> fw_disk w' = fw_disk w \<and> \<not> succeeds r
       \<or> fw_log w' = fw_log w @ a \<and> r = None
       \<or> (\<exists>out d k q. fx_commit e (fw_log w @ a) (end_line e (op_word name) req out d w) = (k, q) \<and> \<not> succeeds q
            \<and> fw_log w' = fw_log w @ a @ take k (end_line e (op_word name) req out d w) \<and> plain_details d) \<and> \<not> succeeds r
       \<or> (\<exists>out d. fw_log w' = fw_log w @ a @ end_line e (op_word name) req out d w
            \<and> plain_details d \<and> (out = u ''ok'' \<longleftrightarrow> succeeds r))))"
proof -
  from call_logged [OF assms(1)] assms(2) consider "fw_log w' = fw_log w \<and> fw_disk w' = fw_disk w \<and> \<not> succeeds r"
    | req where "path_argument args = PStr req" "logged e (op_word name) req w r w'" by blast
  then show ?thesis
  proof cases
    case 2
    show ?thesis
      by (rule disjI2, rule exI [of _ req], rule exI [of _ "attempt_line e (op_word name) req w"])
        (use 2 in \<open>simp only: logged_def simp_thms\<close>)
  qed (rule disjI1)
qed

section \<open>Reading the log back\<close>

definition doc_line :: "pyenv \<Rightarrow> pyval \<Rightarrow> bytes" where
  "doc_line env v = map of_nat (ascii_text env v) @ [10]"

text \<open>An object the log can hold: written and read without loss.\<close>

definition storable :: "pyenv \<Rightarrow> pyval \<Rightarrow> bool" where
  "storable env v \<longleftrightarrow> dumpable v \<and> container_depth v \<le> recursion_limit env \<and> (\<exists>kvs. v = PObj Mut kvs)"

lemma loads_str_text: "storable env v \<Longrightarrow> loads_str env (ascii_text env v) = Inr v"
proof -
  assume s: "storable env v"
  then have d: "dumpable v" "container_depth v \<le> recursion_limit env" by (auto simp: storable_def)
  have hook: "distinct_keys ps \<Longrightarrow> Inr (PObj Mut (dict_of ps)) = (Inr (PObj Mut ps) :: unit + pyval)" for ps
    by (simp add: dict_of_distinct)
  have t: "Json_Ascii.text_of (ascii_text env v) v" by (rule ascii_is_text [OF d(1)])
  have "scan_once (\<lambda>ps. Inr (PObj Mut (dict_of ps)) :: unit + pyval) constant_value (recursion_limit env)
      (2 * length (ascii_text env v) + 2) 0 (ascii_text env v @ []) = Inr (v, [])"
    using scan_text(1) [OF hook t, of "recursion_limit env" constant_value] d(2) by (simp add: term_ok_def)
  moreover have "\<not> starts_with [0xFEFF] (ascii_text env v)"
    using ascii_text_ascii [OF d(1), of env] by (auto simp: starts_with_iff)
  ultimately show ?thesis using skip_text(1) [OF t, of "[]"] by (simp add: loads_str_def json_decode_def skip_ws_def)
qed

lemma text_no_break: "all_ascii s \<Longrightarrow> list_all (\<lambda>c. \<not> line_break c) s"
  by (fastforce simp: all_ascii_def list_all_iff line_break_def)

lemma parse_docs: "list_all (storable env) vs \<Longrightarrow> parse_lines env (map (ascii_text env) vs) = Inr vs"
proof (induction vs)
  case (Cons v vs)
  then have "\<not> list_all white (ascii_text env v)" by (auto simp: storable_def white_def line_break_def)
  then show ?case using Cons by (simp add: loads_str_text)
qed simp

lemma read_ops_docs:
  assumes "list_all (storable env) vs"
  shows "read_ops env (old @ concat (map (doc_line env) vs)) (length old) = Inr vs"
proof -
  let ?ls = "map (ascii_text env) vs"
  have a: "\<forall>l \<in> set ?ls. all_ascii l" using assms ascii_text_ascii by (auto simp: storable_def list_all_iff)
  have b: "concat (map (doc_line env) vs) = map of_nat (segment_text ?ls)"
    by (simp add: doc_line_def [abs_def] segment_text_def map_concat comp_def)
  have c: "\<forall>c \<in> set (segment_text ?ls). 0 < c \<and> c < 128"
  proof
    fix c assume "c \<in> set (segment_text ?ls)"
    then have "(\<exists>l \<in> set ?ls. c \<in> set l) \<or> c = 10" by (auto simp: segment_text_def split: if_splits)
    with a have "32 \<le> c \<and> c < 128 \<or> c = 10" unfolding all_ascii_def by blast
    then show "0 < c \<and> c < 128" by auto
  qed
  have "map unat (map of_nat (segment_text ?ls) :: bytes) = segment_text ?ls"
    using c by (intro bytes_of_nats) (auto simp: list_all_iff)
  moreover have "utf8_dec False (segment_text ?ls) = Some (segment_text ?ls)"
    using c by (intro utf8_dec_ascii) auto
  moreover have "splitlines (segment_text ?ls) = ?ls"
    by (rule splitlines_segment) (use a text_no_break in blast)
  ultimately show ?thesis by (simp add: read_ops_def b parse_docs [OF assms])
qed

lemma short_number: "n < 10 ^ k \<Longrightarrow> 0 < k \<Longrightarrow> length (nat_text n) \<le> k"
proof (induction k arbitrary: n)
  case (Suc k)
  show ?case
  proof (cases "n < 10")
    case True
    then show ?thesis by (simp add: nat_text_def digits_rev.simps)
  next
    case False
    then have "n div 10 < 10 ^ k" "0 < k" using Suc.prems by (auto intro: gr0I)
    with Suc.IH have "length (nat_text (n div 10)) \<le> k" by blast
    with False show ?thesis by (simp add: nat_text_def digits_rev.simps [of n])
  qed
qed simp

lemma short_int: "\<bar>i\<bar> \<le> 2 ^ 63 \<Longrightarrow> dumpable (PInt i)"
proof -
  assume "\<bar>i\<bar> \<le> 2 ^ 63"
  then have "nat \<bar>i\<bar> < 10 ^ 20" by simp
  from short_number [OF this] show ?thesis by (simp add: INT_MAX_STR_DIGITS_def)
qed

text \<open>The entry of a call with plain details is an object the log can hold.\<close>

definition entry_pairs :: "log_entry \<Rightarrow> details \<Rightarrow> ustr \<Rightarrow> details" where
  "entry_pairs g detail ts =
     [(u ''seq'', PInt (lg_seq g)), (u ''op'', PStr (lg_op g)), (u ''requested'', PStr (lg_requested g)),
      (u ''pid'', PInt (lg_pid g)), (u ''resolved'', PStr (lg_resolved g))] @ detail @
     [(u ''outcome'', PStr (lg_outcome g)), (u ''phase'', PStr (phase_value (lg_phase g))), (u ''ts'', PStr ts)]"

lemma entry_pairs_distinct: "plain_details d \<Longrightarrow> distinct_keys (entry_pairs g d ts)"
  by (auto simp: entry_pairs_def plain_details_def)

lemma entry_doc_pairs: "plain_details d \<Longrightarrow> entry_doc g d ts = sort_keys (PObj Mut (entry_pairs g d ts))"
  using entry_pairs_distinct [of d g ts] by (simp add: entry_doc_def entry_pairs_def dict_of_distinct)

lemma entry_get:
  assumes "plain_details d" "u k \<notin> u ` {''bytes'', ''count'', ''size'', ''existed''}"
  shows "dict_get (items (entry_doc g d ts)) (u k) = map_option sort_keys (dict_get (entry_pairs g [] ts) (u k))"
proof -
  have "map_of d (u k) = None" using assms by (auto simp: plain_details_def map_of_eq_None_iff)
  then have "dict_get (entry_pairs g d ts) (u k) = dict_get (entry_pairs g [] ts) (u k)"
    by (simp add: dict_get_def entry_pairs_def map_add_def)
  then show ?thesis
    unfolding entry_doc_pairs [OF assms(1)] dict_get_sort_keys [OF entry_pairs_distinct [OF assms(1)]] by (rule arg_cong)
qed

lemma entry_fields:
  assumes "plain_details d"
  shows "dict_get (items (entry_doc g d ts)) (u ''seq'') = Some (PInt (lg_seq g))"
    "dict_get (items (entry_doc g d ts)) (u ''op'') = Some (PStr (lg_op g))"
    "dict_get (items (entry_doc g d ts)) (u ''requested'') = Some (PStr (lg_requested g))"
    "dict_get (items (entry_doc g d ts)) (u ''pid'') = Some (PInt (lg_pid g))"
    "dict_get (items (entry_doc g d ts)) (u ''resolved'') = Some (PStr (lg_resolved g))"
    "dict_get (items (entry_doc g d ts)) (u ''outcome'') = Some (PStr (lg_outcome g))"
    "dict_get (items (entry_doc g d ts)) (u ''phase'') = Some (PStr (phase_value (lg_phase g)))"
  by (subst entry_get [OF assms]; simp add: entry_pairs_def dict_get_def)+

lemma foldr_max_zero: "(\<And>x. x \<in> set xs \<Longrightarrow> f x = (0 :: nat)) \<Longrightarrow> foldr max (map f xs) 0 = 0"
  by (induction xs) auto

lemma entry_storable:
  assumes "plain_details d" "dumpable (PInt (lg_seq g))" "dumpable (PInt (lg_pid g))" "1 \<le> recursion_limit env"
    and "list_all scalar (lg_op g)" "list_all scalar (lg_requested g)" "list_all scalar (lg_resolved g)"
      "list_all scalar (lg_outcome g)" "list_all scalar ts"
  shows "storable env (entry_doc g d ts)"
proof -
  let ?kvs = "entry_pairs g d ts"
  have leaf: "sort_keys v = v \<and> dumpable v \<and> container_depth v = 0 \<and> list_all scalar k" if "(k, v) \<in> set ?kvs" for k v
  proof (cases "(k, v) \<in> set d")
    case True
    then have "k \<in> u ` {''bytes'', ''count'', ''size'', ''existed''}"
      "case v of PInt i \<Rightarrow> \<bar>i\<bar> \<le> 2 ^ 63 | PBool _ \<Rightarrow> True | _ \<Rightarrow> False"
      using assms(1) by (force simp: plain_details_def list_all_iff)+
    then show ?thesis using short_int by (auto split: pyval.splits)
  next
    case False
    then show ?thesis using that assms(2-) by (auto simp: entry_pairs_def phase_value_def split: phase.splits)
  qed
  have v: "entry_doc g d ts = PObj Mut (sort_key fst ?kvs)"
    unfolding entry_doc_pairs [OF assms(1)] sort_keys_obj using leaf by (auto intro!: map_idI)
  have "container_depth (entry_doc g d ts) \<le> 1"
    unfolding v using leaf by (auto intro!: foldr_max_zero)
  moreover have "dumpable (entry_doc g d ts)"
    unfolding v using leaf entry_pairs_distinct [OF assms(1), of g ts] by (auto simp: distinct_map)
  ultimately show ?thesis using assms(4) v by (auto simp: storable_def)
qed

text \<open>The two entries of a call, as objects.\<close>

definition attempt_doc :: "'s fixture_env \<Rightarrow> string \<Rightarrow> ustr \<Rightarrow> 's fixture_world \<Rightarrow> pyval" where
  "attempt_doc e op req w =
     entry_doc (base_entry e (fw_seq w + 1) (u op) req Attempt (u ''attempted'')) [] (fx_now e (fw_log w))"

definition end_doc :: "'s fixture_env \<Rightarrow> string \<Rightarrow> ustr \<Rightarrow> ustr \<Rightarrow> details \<Rightarrow> 's fixture_world \<Rightarrow> pyval" where
  "end_doc e op req out d w =
     entry_doc (base_entry e (fw_seq w + 1) (u op) req Ended out) d (fx_now e (fw_log w @ attempt_line e op req w))"

lemma line_docs:
  "attempt_line e op req w = doc_line (fx_py e) (attempt_doc e op req w)"
  "end_line e op req out d w = doc_line (fx_py e) (end_doc e op req out d w)"
  by (simp_all add: attempt_line_def end_line_def attempt_doc_def end_doc_def entry_line_def doc_line_def)

text \<open>Texts without lone surrogates, and a counter below the limit on digits.\<close>

definition writable_entry :: "'s fixture_env \<Rightarrow> ustr \<Rightarrow> 's fixture_world \<Rightarrow> bool" where
  "writable_entry e req w \<longleftrightarrow>
     list_all scalar req \<and> list_all scalar (naive_resolve (fx_root e) req) \<and> (\<forall>b. list_all scalar (fx_now e b))
   \<and> dumpable (PInt (fw_seq w + 1)) \<and> 1 \<le> recursion_limit (fx_py e)"

lemma entry_docs_storable:
  assumes "writable_entry e req w" "plain_details d" "list_all scalar out"
  shows "storable (fx_py e) (attempt_doc e op req w)" "storable (fx_py e) (end_doc e op req out d w)"
proof -
  have "\<bar>sint (fx_pid e)\<bar> \<le> 2 ^ 63" using sint_ge [of "fx_pid e"] sint_lt [of "fx_pid e"] by simp
  then have p: "dumpable (PInt (sint (fx_pid e)))" by (rule short_int)
  show "storable (fx_py e) (attempt_doc e op req w)" "storable (fx_py e) (end_doc e op req out d w)"
    unfolding attempt_doc_def end_doc_def using assms p
    by (auto intro!: entry_storable simp: base_entry_def writable_entry_def)
qed

section \<open>Examples\<close>

text \<open>A fixture with one file besides its log.\<close>

definition demo_fixture :: "ustr fixture_env" where
  "demo_fixture =
     \<lparr> fx_py = plain_env, fx_root = [u ''var'', u ''fixture''], fx_pid = 7, fx_now = (\<lambda>_. u ''now''), fx_commit = (\<lambda>_ _. (0, Some (Inr ()))),
       fx_read_text = (\<lambda>p. (\<lambda>(s, l). (Some (Inr s), s, l))), fx_names = (\<lambda>p s. (Some (Inr []), s)),
       fx_stat = (\<lambda>p s. (Some (Inl (PyError ''FileNotFoundError'')), s)), fx_is_dir = (\<lambda>p s. (Some (Inr False), s)),
       fx_exists = (\<lambda>p s. (Some (Inr True), s)), fx_mkdirs = (\<lambda>p s. (Some (Inr ()), s)),
       fx_write_text = (\<lambda>p t. (\<lambda>(s, l).
         (Some (Inr ()), if p = pure_join [u ''var'', u ''fixture''] (u ''../oplog'') then (s, map of_nat t) else (t, l)))),
       fx_open_append = (\<lambda>p s. (Some (Inr ()), s)), fx_append_text = (\<lambda>p t (s, l). (Some (Inr ()), s @ t, l)),
       fx_unlink = (\<lambda>p s. (Some (Inl (PyError ''FileNotFoundError'')), s)) \<rparr>"

definition demo_world :: "ustr fixture_world" where
  "demo_world = \<lparr> fw_disk = u ''old'', fw_log = [], fw_seq = 0 \<rparr>"

definition demo_args :: details where
  "demo_args = [(u ''path'', PStr (u ''a'')), (u ''content'', PStr (u ''new''))]"

lemma demo_leaves_log: "leaves_log demo_fixture (pure_join (fx_root demo_fixture) (u ''a''))"
proof -
  have "pure_join [u ''var'', u ''fixture''] (u ''a'') \<noteq> pure_join [u ''var'', u ''fixture''] (u ''../oplog'')" by code_simp
  then show ?thesis by (auto simp: leaves_log_def untouched_def demo_fixture_def)
qed

lemma demo_write_succeeds: "succeeds (fst (call demo_fixture (u ''write_file'') demo_args demo_world))"
  by (simp add: call_def TOOLS_def dict_get_def call_params_def demo_args_def run_tool_def Let_def write_file_def
      oplog_def bindW_def giveW_def next_seq_def append_entry_def on_files_def demo_fixture_def demo_world_def py_len_def)

theorem operation_is_logged_witness:
  "\<exists>out d. fw_log (snd (call demo_fixture (u ''write_file'') demo_args demo_world))
     = attempt_line demo_fixture ''write'' (u ''a'') demo_world @ end_line demo_fixture ''write'' (u ''a'') out d demo_world
     \<and> out = u ''ok''"
proof -
  have p: "path_argument demo_args = PStr (u ''a'')" by (simp add: path_argument_def demo_args_def dict_get_def)
  have w: "op_word (u ''write_file'') = ''write''" by (simp add: op_word_def)
  from operation_is_logged [of demo_fixture "u ''write_file''" demo_args demo_world "fst (call demo_fixture (u ''write_file'') demo_args demo_world)"
      "snd (call demo_fixture (u ''write_file'') demo_args demo_world)"]
  show ?thesis using demo_write_succeeds demo_leaves_log p w by (auto simp: demo_world_def)
qed

end
