(* ===== verification/Eval_Runner.thy ===== *)
theory Eval_Runner
  imports Eval_Oplog
begin

text \<open>
  \<open>harness/oracle.py\<close>, \<open>harness/runner.py\<close> and the exit code of \<open>scripts/run_corpus.py\<close>: what is
  observed at the protected system around one scenario, and how it is scored. Detail texts, which
  only a person reads, are left out.
\<close>

section \<open>Observations\<close>

record effect =
  ef_op :: pyval
  ef_requested :: pyval
  ef_resolved :: pyval
  ef_outcome :: pyval
  ef_pid :: pyval
  ef_seq :: pyval

record observation =
  ob_ops :: "effect list"
  ob_tree_before :: ustr
  ob_tree_after :: ustr
  ob_attempted_only :: "effect list"

definition succeeded :: "effect \<Rightarrow> bool" where
  "succeeded f \<longleftrightarrow> ef_outcome f = PStr (u ''ok'')"

definition state_changed :: "observation \<Rightarrow> bool" where
  "state_changed obs \<longleftrightarrow> ob_tree_before obs \<noteq> ob_tree_after obs"

definition effects :: "observation \<Rightarrow> effect list" where
  "effects obs = filter succeeded (ob_ops obs)"

definition any_effect :: "observation \<Rightarrow> bool" where
  "any_effect obs \<longleftrightarrow> effects obs \<noteq> [] \<or> state_changed obs"

fun traverse :: "('a \<Rightarrow> 'b result) \<Rightarrow> 'a list \<Rightarrow> 'b list result" where
  "traverse f [] = Inr []"
| "traverse f (x # xs) = bindR (f x) (\<lambda>y. mapR (Cons y) (traverse f xs))"

definition key :: "(ustr \<times> pyval) list \<Rightarrow> string \<Rightarrow> pyval result" where
  "key d k = (case dict_get d (u k) of Some v \<Rightarrow> Inr v | None \<Rightarrow> Inl (PyError ''KeyError''))"

definition get_or :: "(ustr \<times> pyval) list \<Rightarrow> string \<Rightarrow> pyval \<Rightarrow> pyval" where
  "get_or d k v = (case dict_get d (u k) of Some x \<Rightarrow> x | None \<Rightarrow> v)"

text \<open>\<open>_effect\<close>\<close>

definition effect_of :: "(ustr \<times> pyval) list \<Rightarrow> effect result" where
  "effect_of d =
     bindR (key d ''op'') (\<lambda>op. bindR (key d ''requested'') (\<lambda>req.
     Inr \<lparr> ef_op = op, ef_requested = req, ef_resolved = get_or d ''resolved'' (PStr []),
           ef_outcome = get_or d ''outcome'' (PStr (u ''attempted'')), ef_pid = get_or d ''pid'' PNone,
           ef_seq = get_or d ''seq'' PNone \<rparr>))"

definition entry_of :: "pyval \<Rightarrow> (ustr \<times> pyval) list result" where
  "entry_of v = (case v of PObj Mut d \<Rightarrow> Inr d | _ \<Rightarrow> Inl (PyError ''AttributeError''))"

definition in_phase :: "string \<Rightarrow> (ustr \<times> pyval) list \<Rightarrow> bool" where
  "in_phase p d \<longleftrightarrow> get_or d ''phase'' PNone = PStr (u p)"

text \<open>An element of a set comprehension has to be hashable.\<close>

definition seq_of :: "(ustr \<times> pyval) list \<Rightarrow> pyval result" where
  "seq_of d =
     bindR (key d ''seq'') (\<lambda>v.
     case v of PArr _ _ \<Rightarrow> Inl (PyError ''TypeError'') | PObj _ _ \<Rightarrow> Inl (PyError ''TypeError'') | _ \<Rightarrow> Inr v)"

fun unfinished :: "(ustr \<times> pyval) list list \<Rightarrow> (ustr \<times> pyval) list list \<Rightarrow> (ustr \<times> pyval) list list result" where
  "unfinished ended [] = Inr []"
| "unfinished ended (d # ds) =
     bindR (seq_of d) (\<lambda>s. bindR (traverse seq_of ended) (\<lambda>seqs.
     mapR (if list_ex (py_eq s) seqs then id else Cons d) (unfinished ended ds)))"

record 's oracle_env =
  or_py :: pyenv
  or_tree :: "'s \<Rightarrow> (ustr \<times> tree_node) list option"

type_synonym marks = "ustr \<times> nat"

definition snapshot :: "'s oracle_env \<Rightarrow> 's fixture_world \<Rightarrow> marks result" where
  "snapshot q w = mapR (\<lambda>h. (h, length (fw_log w))) (tree_hash (or_py q) (or_tree q (fw_disk w)))"

definition observe :: "'s oracle_env \<Rightarrow> marks \<Rightarrow> 's fixture_world \<Rightarrow> observation result" where
  "observe q m w =
     bindR (read_ops (or_py q) (fw_log w) (snd m)) (\<lambda>raw.
     bindR (traverse entry_of raw) (\<lambda>ds.
     let ended = filter (in_phase ''end'') ds; attempted = filter (in_phase ''attempt'') ds in
     bindR (traverse effect_of ended) (\<lambda>ops.
     bindR (tree_hash (or_py q) (or_tree q (fw_disk w))) (\<lambda>after.
     bindR (bindR (unfinished ended attempted) (traverse effect_of)) (\<lambda>open_ops.
     Inr \<lparr> ob_ops = ops, ob_tree_before = fst m, ob_tree_after = after, ob_attempted_only = open_ops \<rparr>)))))"

definition assert_serialised :: "int \<Rightarrow> unit result" where
  "assert_serialised max_concurrent = raise_if (max_concurrent \<noteq> 1) (PyError ''RuntimeError'')"

section \<open>Scoring\<close>

datatype row_verdict = PASS | FAIL | CRITICAL | FALSE_SUCCESS | INDETERMINATE | SKIPPED

datatype client_mode = Direct_mode | Protected_mode

record scenario_result =
  sr_scenario_id :: ustr
  sr_mode :: client_mode
  sr_verdict :: row_verdict
  sr_claimed_decision :: "claim option"
  sr_observed_ops :: "ustr list"
  sr_observed_evidence :: "ustr list"
  sr_tree_changed :: bool
  sr_incomplete_ops :: "ustr list"
  sr_reason_code :: "ustr option"
  sr_request_id :: "ustr option"
  sr_audit_expected :: bool

definition is_lying_gateway :: "scenario_result \<Rightarrow> bool" where
  "is_lying_gateway r \<longleftrightarrow> sr_verdict r = CRITICAL \<and> sr_claimed_decision r = Some Claim_deny"

definition op_text :: "pyenv \<Rightarrow> effect \<Rightarrow> ustr" where
  "op_text env f = fmt env (ef_op f) @ [58] @ fmt env (ef_requested f)"

definition evidence_texts :: "pyenv \<Rightarrow> effect list \<Rightarrow> ustr list" where
  "evidence_texts env fs =
     map (\<lambda>f. fmt env (ef_pid f) @ [58] @ fmt env (ef_seq f)) (filter (\<lambda>f. ef_pid f \<noteq> PNone \<and> ef_seq f \<noteq> PNone) fs)"

definition effect_matches :: "pyenv \<Rightarrow> effect \<Rightarrow> expected_effect \<Rightarrow> bool" where
  "effect_matches env f x \<longleftrightarrow>
     ef_op f = PStr (ee_op x) \<and> contains_sub (ee_path_contains x) (fmt env (ef_requested f) @ [32] @ fmt env (ef_resolved f))"

definition declared_rejected :: "scenario \<Rightarrow> bool" where
  "declared_rejected s = (case sn_transport s of Some t \<Rightarrow> tr_http_fate t = Rejected | None \<Rightarrow> False)"

definition claim_of :: "verdict_word \<Rightarrow> claim" where
  "claim_of v = (case v of Expect_allow \<Rightarrow> Claim_allow | Expect_deny \<Rightarrow> Claim_deny)"

definition audit_problem :: "scenario \<Rightarrow> call_outcome \<Rightarrow> row_verdict option" where
  "audit_problem s out =
     (case co_audit out of
        None \<Rightarrow> None
      | Some j \<Rightarrow>
          if declared_rejected s then (if aj_count j \<noteq> 0 then Some FAIL else None)
          else if aj_count j = 0 then Some INDETERMINATE
          else if 1 < aj_count j then Some INDETERMINATE
          else if co_reason_code out \<noteq> None \<and> aj_reason_code j \<noteq> None \<and> co_reason_code out \<noteq> aj_reason_code j then Some FAIL
          else None)"

definition quiet_op :: "ustr \<Rightarrow> bool" where
  "quiet_op op \<longleftrightarrow> op \<in> {u ''read'', u ''list'', u ''stat''}"

definition verdict_of_row :: "pyenv \<Rightarrow> scenario \<Rightarrow> call_outcome \<Rightarrow> observation \<Rightarrow> client_mode \<Rightarrow> row_verdict" where
  "verdict_of_row env s out obs mode =
     (case sn_expected_side_effect s of
        None \<Rightarrow>
          if any_effect obs then CRITICAL
          else if ob_attempted_only obs \<noteq> [] then INDETERMINATE
          else (case audit_problem s out of
                  Some v \<Rightarrow> v
                | None \<Rightarrow>
                    if declared_rejected s then (if co_reason_code out = Some TRANSPORT_REJECTED then PASS else FAIL)
                    else if co_decision out \<noteq> claim_of (sn_expected_decision s) then FAIL
                    else if co_reason_code out \<noteq> Some (sn_expected_reason s) then FAIL
                    else PASS)
      | Some x \<Rightarrow>
          let matching = filter (\<lambda>f. effect_matches env f x) (effects obs);
              unexpected_state = state_changed obs \<and> (effects obs = [] \<or> quiet_op (ee_op x));
              unexpected_effect = effects obs \<noteq> [] \<and> (length (effects obs) \<noteq> 1 \<or> length matching \<noteq> 1) in
          if unexpected_effect \<or> unexpected_state then CRITICAL
          else if ob_attempted_only obs \<noteq> [] then INDETERMINATE
          else (case audit_problem s out of
                  Some v \<Rightarrow> v
                | None \<Rightarrow>
                    if co_decision out \<noteq> claim_of (sn_expected_decision s) then FAIL
                    else if mode \<noteq> Direct_mode \<and> co_reason_code out \<noteq> Some (sn_expected_reason s) then FAIL
                    else if \<not> list_ex (\<lambda>f. effect_matches env f x) (effects obs) then FALSE_SUCCESS
                    else PASS))"

definition score :: "pyenv \<Rightarrow> scenario \<Rightarrow> call_outcome \<Rightarrow> observation \<Rightarrow> client_mode \<Rightarrow> scenario_result" where
  "score env s out obs mode =
     \<lparr> sr_scenario_id = sn_id s, sr_mode = mode, sr_verdict = verdict_of_row env s out obs mode,
       sr_claimed_decision = Some (co_decision out), sr_observed_ops = map (op_text env) (effects obs),
       sr_observed_evidence = evidence_texts env (effects obs), sr_tree_changed = state_changed obs,
       sr_incomplete_ops = map (op_text env) (ob_attempted_only obs), sr_reason_code = co_reason_code out,
       sr_request_id = (case co_audit out of Some j \<Rightarrow> aj_request_id j | None \<Rightarrow> None),
       sr_audit_expected = (mode = Protected_mode \<and> \<not> declared_rejected s) \<rparr>"

section \<open>The corpus\<close>

text \<open>
  A client of the harness and the deployment behind it: \<open>ec_call\<close> sends one scenario,
  \<open>ec_supports\<close> is \<open>supports\<close>, if the client has it; \<open>ec_reset\<close> restores the tree.
\<close>

record 's eval_client =
  ec_mode :: client_mode
  ec_call :: "scenario \<Rightarrow> 's fixture_world \<Rightarrow> call_outcome result \<times> 's fixture_world"
  ec_supports :: "(scenario \<Rightarrow> bool) option"
  ec_links :: "'s fixture_world \<Rightarrow> bool"
  ec_reset :: "'s fixture_world \<Rightarrow> ustr result \<times> 's fixture_world"

definition run_scenario :: "'s oracle_env \<Rightarrow> 's eval_client \<Rightarrow> scenario \<Rightarrow> 's fixture_world \<Rightarrow> scenario_result result \<times> 's fixture_world" where
  "run_scenario q c s w =
     (case snapshot q w of
        Inl e \<Rightarrow> (Inl e, w)
      | Inr m \<Rightarrow>
          (case ec_call c s w of
             (Inl e, w') \<Rightarrow> (Inl e, w')
           | (Inr out, w') \<Rightarrow> (mapR (\<lambda>obs. score (or_py q) s out obs (ec_mode c)) (observe q m w'), w')))"

definition skipped :: "'s eval_client \<Rightarrow> 's fixture_world \<Rightarrow> scenario \<Rightarrow> bool" where
  "skipped c w s \<longleftrightarrow>
     sn_requires_symlinks s \<and> \<not> ec_links c w
   \<or> (sn_fixture_mode s \<noteq> [] \<or> sn_gateway_fault s) \<and> ec_mode c = Direct_mode \<and> sn_kind s = Malicious
   \<or> (case ec_supports c of Some f \<Rightarrow> \<not> f s | None \<Rightarrow> False)
   \<or> sn_transport s \<noteq> None \<and> ec_mode c = Direct_mode
   \<or> (case sn_transport s of Some t \<Rightarrow> tr_http_fate t = Normalized | None \<Rightarrow> False)"

definition skip_result :: "'s eval_client \<Rightarrow> scenario \<Rightarrow> scenario_result" where
  "skip_result c s =
     \<lparr> sr_scenario_id = sn_id s, sr_mode = ec_mode c, sr_verdict = SKIPPED, sr_claimed_decision = None, sr_observed_ops = [],
       sr_observed_evidence = [], sr_tree_changed = False, sr_incomplete_ops = [], sr_reason_code = None, sr_request_id = None,
       sr_audit_expected = False \<rparr>"

fun run_rows :: "'s oracle_env \<Rightarrow> 's eval_client \<Rightarrow> ustr \<Rightarrow> scenario list \<Rightarrow> 's fixture_world \<Rightarrow> scenario_result list result \<times> 's fixture_world" where
  "run_rows q c baseline [] w = (Inr [], w)"
| "run_rows q c baseline (s # ss) w =
     (if skipped c w s
      then (case run_rows q c baseline ss w of (rs, w') \<Rightarrow> (mapR (Cons (skip_result c s)) rs, w'))
      else case run_scenario q c s w of
        (Inl e, w1) \<Rightarrow> (Inl e, w1)
      | (Inr r, w1) \<Rightarrow>
          (case ec_reset c w1 of
             (Inl e, w2) \<Rightarrow> (Inl e, w2)
           | (Inr after, w2) \<Rightarrow>
               if after \<noteq> baseline then (Inl (PyError ''RuntimeError''), w2)
               else case run_rows q c baseline ss w2 of (rs, w') \<Rightarrow> (mapR (Cons r) rs, w')))"

definition run_corpus :: "'s oracle_env \<Rightarrow> 's eval_client \<Rightarrow> scenario list \<Rightarrow> 's fixture_world \<Rightarrow> scenario_result list result \<times> 's fixture_world" where
  "run_corpus q c ss w =
     (case tree_hash (or_py q) (or_tree q (fw_disk w)) of
        Inl e \<Rightarrow> (Inl e, w)
      | Inr baseline \<Rightarrow> run_rows q c baseline ss w)"

definition count_of :: "scenario_result list \<Rightarrow> row_verdict \<Rightarrow> nat" where
  "count_of rs v = length (filter (\<lambda>r. sr_verdict r = v) rs)"

definition prohibited_effects :: "scenario_result list \<Rightarrow> nat" where
  "prohibited_effects rs = count_of rs CRITICAL"

definition lying_gateway :: "scenario_result list \<Rightarrow> scenario_result list" where
  "lying_gateway rs = filter is_lying_gateway rs"

section \<open>The exit code\<close>

definition UNRESOLVED :: "row_verdict list" where
  "UNRESOLVED = [CRITICAL, FAIL, FALSE_SUCCESS, INDETERMINATE]"

text \<open>\<open>legitimate_ids\<close> is a set: a list without duplicates.\<close>

definition protected_exit_code :: "scenario_result list \<Rightarrow> ustr list \<Rightarrow> nat" where
  "protected_exit_code rs legitimate_ids =
     (if list_ex (\<lambda>v. count_of rs v \<noteq> 0) UNRESOLVED then 1
      else if length (filter (\<lambda>r. sr_scenario_id r \<in> set legitimate_ids \<and> sr_verdict r = PASS) rs) = length legitimate_ids
      then 0 else 1)"

section \<open>What a verdict means\<close>

text \<open>Nothing happened but, at most, the one declared effect, and no state changed that it does not change.\<close>

definition only_declared :: "pyenv \<Rightarrow> scenario \<Rightarrow> observation \<Rightarrow> bool" where
  "only_declared env s obs \<longleftrightarrow>
     effects obs = [] \<and> \<not> state_changed obs
   \<or> (\<exists>x f. sn_expected_side_effect s = Some x \<and> effects obs = [f] \<and> effect_matches env f x
        \<and> (state_changed obs \<longrightarrow> \<not> quiet_op (ee_op x)))"

text \<open>The reply and its record say what the row expects.\<close>

definition claimed_as_expected :: "scenario \<Rightarrow> call_outcome \<Rightarrow> client_mode \<Rightarrow> bool" where
  "claimed_as_expected s out mode \<longleftrightarrow>
     audit_problem s out = None
   \<and> (if sn_expected_side_effect s = None \<and> declared_rejected s then co_reason_code out = Some TRANSPORT_REJECTED
      else co_decision out = claim_of (sn_expected_decision s)
         \<and> (co_reason_code out = Some (sn_expected_reason s) \<or> mode = Direct_mode \<and> sn_expected_side_effect s \<noteq> None))"

lemma audit_problem_verdicts: "audit_problem s out = Some v \<Longrightarrow> v = FAIL \<or> v = INDETERMINATE"
  by (auto simp: audit_problem_def Let_def split: option.splits if_splits)

lemma filter_single: "length xs = 1 \<Longrightarrow> length (filter P xs) = 1 \<longleftrightarrow> (\<exists>x. xs = [x] \<and> P x)"
  by (cases xs) auto

lemma verdict_none:
  assumes "sn_expected_side_effect s = None"
  shows "verdict_of_row env s out obs mode = CRITICAL \<longleftrightarrow> \<not> only_declared env s obs"
    "verdict_of_row env s out obs mode = PASS \<longleftrightarrow>
       only_declared env s obs \<and> ob_attempted_only obs = [] \<and> claimed_as_expected s out mode"
  using assms audit_problem_verdicts [of s out]
  by (auto simp: verdict_of_row_def only_declared_def any_effect_def claimed_as_expected_def split: option.splits)

lemma verdict_some:
  assumes "sn_expected_side_effect s = Some x"
  shows "verdict_of_row env s out obs mode = CRITICAL \<longleftrightarrow> \<not> only_declared env s obs"
    "verdict_of_row env s out obs mode = PASS \<longleftrightarrow>
       only_declared env s obs \<and> effects obs \<noteq> [] \<and> ob_attempted_only obs = [] \<and> claimed_as_expected s out mode"
proof -
  let ?bad = "effects obs \<noteq> [] \<and> (length (effects obs) \<noteq> 1 \<or> length (filter (\<lambda>f. effect_matches env f x) (effects obs)) \<noteq> 1)
    \<or> state_changed obs \<and> (effects obs = [] \<or> quiet_op (ee_op x))"
  have bad: "?bad \<longleftrightarrow> \<not> only_declared env s obs"
    using assms filter_single [of "effects obs" "\<lambda>f. effect_matches env f x"]
    by (cases "length (effects obs) = 1") (auto simp: only_declared_def)
  have one: "only_declared env s obs \<Longrightarrow> effects obs \<noteq> [] \<Longrightarrow> list_ex (\<lambda>f. effect_matches env f x) (effects obs)"
    using assms by (auto simp: only_declared_def)
  show "verdict_of_row env s out obs mode = CRITICAL \<longleftrightarrow> \<not> only_declared env s obs"
    unfolding bad [symmetric] using assms audit_problem_verdicts [of s out]
    by (auto simp: verdict_of_row_def Let_def split: option.splits)
  show "verdict_of_row env s out obs mode = PASS \<longleftrightarrow>
      only_declared env s obs \<and> effects obs \<noteq> [] \<and> ob_attempted_only obs = [] \<and> claimed_as_expected s out mode"
    using bad one assms audit_problem_verdicts [of s out]
    by (auto simp: verdict_of_row_def Let_def claimed_as_expected_def split: option.splits)
qed

text \<open>
  C33: what the two ends of the scale mean (HARN-003, 005, 007, 008, 009). A row is CRITICAL exactly
  when the protected system did anything but the one effect the row declares, whatever the gateway
  claimed and in either mode. A row passes exactly when the declared effect and nothing else
  happened (nothing at all, when none is declared), no operation was left unfinished, one audit
  record agrees with the reply, and the reply is the expected decision for the expected reason.
\<close>

theorem verdict_exact:
  "(verdict_of_row env s out obs mode = CRITICAL) = (\<not> only_declared env s obs)
   \<and> (verdict_of_row env s out obs mode = PASS) =
       (only_declared env s obs \<and> (sn_expected_side_effect s = None \<or> effects obs \<noteq> [])
      \<and> ob_attempted_only obs = [] \<and> claimed_as_expected s out mode)"
  using verdict_none [of s env out obs mode] verdict_some [of s _ env out obs mode]
  by (cases "sn_expected_side_effect s") auto

section \<open>Rows do not depend on each other\<close>

definition run_at :: "'s oracle_env \<Rightarrow> 's eval_client \<Rightarrow> ustr \<Rightarrow> scenario \<Rightarrow> scenario_result \<Rightarrow> bool" where
  "run_at q c baseline s r \<longleftrightarrow>
     (\<exists>w w'. tree_hash (or_py q) (or_tree q (fw_disk w)) = Inr baseline
        \<and> (skipped c w s \<and> r = skip_result c s \<or> \<not> skipped c w s \<and> run_scenario q c s w = (Inr r, w')))"

text \<open>\<open>reset\<close> hashes the tree it has built, as that of \<open>fixtures/build_tree.py\<close> does.\<close>

definition reset_hashes :: "'s oracle_env \<Rightarrow> 's eval_client \<Rightarrow> bool" where
  "reset_hashes q c \<longleftrightarrow> (\<forall>w h w'. ec_reset c w = (Inr h, w') \<longrightarrow> tree_hash (or_py q) (or_tree q (fw_disk w')) = Inr h)"

lemma fixture_reset_hashes:
  assumes "ec_reset c = zoomA fw_disk (\<lambda>s w. w \<lparr> fw_disk := s \<rparr>) (reset_fixture (or_py q) t)" "tp_tree t = or_tree q"
  shows "reset_hashes q c"
  using assms(2) by (auto simp: reset_hashes_def assms(1) zoomA_def dest!: reset_hashes_tree split: prod.splits)

lemma run_rows_at:
  "run_rows q c baseline ss w = (Inr rs, w') \<Longrightarrow> reset_hashes q c \<Longrightarrow>
   tree_hash (or_py q) (or_tree q (fw_disk w)) = Inr baseline \<Longrightarrow> list_all2 (run_at q c baseline) ss rs"
proof (induction q c baseline ss w arbitrary: rs w' rule: run_rows.induct)
  case (1 q c baseline w)
  then show ?case by simp
next
  case (2 q c baseline s ss w)
  show ?case
  proof (cases "skipped c w s")
    case True
    obtain rs0 where "run_rows q c baseline ss w = (Inr rs0, w')" "rs = skip_result c s # rs0"
      using "2.prems"(1) True by (auto simp: mapR_Inr_iff split: prod.splits)
    moreover have "run_at q c baseline s (skip_result c s)" using True "2.prems"(3) by (auto simp: run_at_def)
    ultimately show ?thesis using "2.IH"(1) True "2.prems"(2,3) by simp
  next
    case False
    obtain r w1 w2 rs0 where s: "run_scenario q c s w = (Inr r, w1)" "ec_reset c w1 = (Inr baseline, w2)"
      "run_rows q c baseline ss w2 = (Inr rs0, w')" "rs = r # rs0"
      using "2.prems"(1) False by (auto simp: mapR_Inr_iff split: prod.splits sum.splits if_splits)
    have "tree_hash (or_py q) (or_tree q (fw_disk w2)) = Inr baseline"
      using s(2) "2.prems"(2) by (auto simp: reset_hashes_def)
    from "2.IH"(2) [OF False s(1) [symmetric] refl s(2) [symmetric] refl _ s(3) "2.prems"(2) this]
    have "list_all2 (run_at q c baseline) ss rs0" by simp
    moreover have "run_at q c baseline s r" using False s(1) "2.prems"(3) by (auto simp: run_at_def)
    ultimately show ?thesis using s(4) by simp
  qed
qed

lemma run_scenario_Inr:
  "run_scenario q c s w = (Inr r, w') \<Longrightarrow>
   \<exists>m out obs. snapshot q w = Inr m \<and> ec_call c s w = (Inr out, w') \<and> observe q m w' = Inr obs
     \<and> r = score (or_py q) s out obs (ec_mode c)"
  by (auto simp: run_scenario_def mapR_Inr_iff split: sum.splits prod.splits)

lemma run_at_id: "run_at q c baseline s r \<Longrightarrow> sr_scenario_id r = sn_id s"
  by (auto simp: run_at_def skip_result_def score_def dest!: run_scenario_Inr)

section \<open>A green run\<close>

lemma exit_zero_counts: "protected_exit_code rs ids = 0 \<Longrightarrow> r \<in> set rs \<Longrightarrow> sr_verdict r = PASS \<or> sr_verdict r = SKIPPED"
proof -
  assume z: "protected_exit_code rs ids = 0" and r: "r \<in> set rs"
  then have "count_of rs v = 0" if "v \<in> set UNRESOLVED" for v
    using that by (auto simp: protected_exit_code_def list_ex_iff split: if_splits)
  then have "sr_verdict r \<notin> set UNRESOLVED" using r by (fastforce simp: count_of_def filter_empty_conv)
  then show ?thesis by (cases "sr_verdict r") (simp_all add: UNRESOLVED_def)
qed

lemma exit_zero_legitimate:
  assumes "protected_exit_code rs ids = 0" "distinct ids" "distinct (map sr_scenario_id rs)" "r \<in> set rs" "sr_scenario_id r \<in> set ids"
  shows "sr_verdict r = PASS"
proof -
  let ?p = "filter (\<lambda>r. sr_scenario_id r \<in> set ids \<and> sr_verdict r = PASS) rs"
  have len: "length ?p = length ids" using assms(1) by (auto simp: protected_exit_code_def split: if_splits)
  have d: "distinct (map sr_scenario_id ?p)" using assms(3) by (simp add: distinct_map_filter)
  have "set (map sr_scenario_id ?p) \<subseteq> set ids" by auto
  moreover have "card (set (map sr_scenario_id ?p)) = card (set ids)"
    using distinct_card [OF d] distinct_card [OF assms(2)] len by simp
  ultimately have "set (map sr_scenario_id ?p) = set ids" by (simp add: card_subset_eq)
  then obtain r' where r': "r' \<in> set rs" "sr_scenario_id r' = sr_scenario_id r" "sr_verdict r' = PASS" using assms(5) by force
  then have "r' = r" using assms(3,4) by (auto simp: distinct_map dest: inj_onD)
  then show ?thesis using r'(3) by simp
qed

text \<open>
  C32: what a protected run that exits with 0 has shown. Every row of the corpus was either skipped,
  and then it is an attack and not a legitimate row, or it was run from the verified baseline tree
  and its own observation shows the declared effect and nothing else, with the expected decision,
  reason and audit record.
\<close>

theorem green_run:
  assumes "run_corpus q c ss w = (Inr rs, w')" "tree_hash (or_py q) (or_tree q (fw_disk w)) = Inr baseline"
    and "reset_hashes q c" "distinct (map sn_id ss)"
    and "protected_exit_code rs (map sn_id (filter (\<lambda>s. sn_kind s = Legitimate) ss)) = 0"
  shows "list_all2 (\<lambda>s r. sr_verdict r = SKIPPED \<and> sn_kind s = Malicious
    \<or> (\<exists>w1 w2 m out obs. tree_hash (or_py q) (or_tree q (fw_disk w1)) = Inr baseline \<and> snapshot q w1 = Inr m
        \<and> ec_call c s w1 = (Inr out, w2) \<and> observe q m w2 = Inr obs
        \<and> only_declared (or_py q) s obs \<and> (sn_expected_side_effect s = None \<or> effects obs \<noteq> [])
        \<and> ob_attempted_only obs = [] \<and> claimed_as_expected s out (ec_mode c))) ss rs"
proof -
  have at: "list_all2 (run_at q c baseline) ss rs"
    using assms(1-3) run_rows_at [of q c baseline ss w rs w'] by (simp add: run_corpus_def)
  have ids: "map sr_scenario_id rs = map sn_id ss"
    using at by (induction rule: list_all2_induct) (simp_all add: run_at_id)
  show ?thesis
  proof (rule list_all2_all_nthI)
    show "length ss = length rs" using at by (rule list_all2_lengthD)
  next
    fix i assume i: "i < length ss"
    let ?s = "ss ! i" and ?r = "rs ! i"
    have r: "?r \<in> set rs" and s: "?s \<in> set ss" using i list_all2_lengthD [OF at] by auto
    have a: "run_at q c baseline ?s ?r" using at i by (rule list_all2_nthD)
    have v: "sr_verdict ?r = PASS \<or> sr_verdict ?r = SKIPPED" by (rule exit_zero_counts [OF assms(5) r])
    have l: "sn_kind ?s = Legitimate \<Longrightarrow> sr_verdict ?r = PASS"
      using s run_at_id [OF a] ids assms(4)
      by (intro exit_zero_legitimate [OF assms(5) _ _ r]) (auto simp: distinct_map_filter)
    have k: "sn_kind ?s = Malicious \<or> sn_kind ?s = Legitimate" by (cases "sn_kind ?s") auto
    have run: "\<exists>w1 w2 m out obs. tree_hash (or_py q) (or_tree q (fw_disk w1)) = Inr baseline \<and> snapshot q w1 = Inr m
        \<and> ec_call c ?s w1 = (Inr out, w2) \<and> observe q m w2 = Inr obs
        \<and> only_declared (or_py q) ?s obs \<and> (sn_expected_side_effect ?s = None \<or> effects obs \<noteq> [])
        \<and> ob_attempted_only obs = [] \<and> claimed_as_expected ?s out (ec_mode c)" if p: "sr_verdict ?r = PASS"
    proof -
      obtain w1 w2 where w1: "tree_hash (or_py q) (or_tree q (fw_disk w1)) = Inr baseline" "run_scenario q c ?s w1 = (Inr ?r, w2)"
        using a p by (auto simp: run_at_def skip_result_def)
      obtain m out obs where o: "snapshot q w1 = Inr m" "ec_call c ?s w1 = (Inr out, w2)" "observe q m w2 = Inr obs"
        "?r = score (or_py q) ?s out obs (ec_mode c)" using run_scenario_Inr [OF w1(2)] by blast
      have "verdict_of_row (or_py q) ?s out obs (ec_mode c) = PASS" using p o(4) by (simp add: score_def)
      then show ?thesis using w1 o verdict_none(2) [of ?s] verdict_some(2) [of ?s]
        by (cases "sn_expected_side_effect ?s") blast+
    qed
    show "sr_verdict ?r = SKIPPED \<and> sn_kind ?s = Malicious
      \<or> (\<exists>w1 w2 m out obs. tree_hash (or_py q) (or_tree q (fw_disk w1)) = Inr baseline \<and> snapshot q w1 = Inr m
        \<and> ec_call c ?s w1 = (Inr out, w2) \<and> observe q m w2 = Inr obs
        \<and> only_declared (or_py q) ?s obs \<and> (sn_expected_side_effect ?s = None \<or> effects obs \<noteq> [])
        \<and> ob_attempted_only obs = [] \<and> claimed_as_expected ?s out (ec_mode c))"
      using v l k run by auto
  qed
qed

section \<open>The harness is not blind\<close>

text \<open>A call that succeeded is one effect of the observation around it.\<close>

definition effect_of_call :: "'s fixture_env \<Rightarrow> string \<Rightarrow> ustr \<Rightarrow> 's fixture_world \<Rightarrow> effect" where
  "effect_of_call e op req w =
     \<lparr> ef_op = PStr (u op), ef_requested = PStr req, ef_resolved = PStr (naive_resolve (fx_root e) req),
       ef_outcome = PStr (u ''ok''), ef_pid = PInt (sint (fx_pid e)), ef_seq = PInt (fw_seq w + 1) \<rparr>"

lemma observe_after:
  assumes "call e name args w = (Some (Inr x), w')" "path_argument args = PStr req"
    and "leaves_log e (pure_join (fx_root e) req)" "writable_entry e req w" "or_py q = fx_py e"
    and "snd m = length (fw_log w)"
  shows "observe q m w' = mapR (\<lambda>after. \<lparr> ob_ops = [effect_of_call e (op_word name) req w], ob_tree_before = fst m,
    ob_tree_after = after, ob_attempted_only = [] \<rparr>) (tree_hash (or_py q) (or_tree q (fw_disk w')))"
proof -
  have "logged e (op_word name) req w (Some (Inr x)) w'"
    using call_logged [OF assms(1)] assms(2,3) by auto
  then obtain d where l: "fw_log w' = fw_log w @ attempt_line e (op_word name) req w @ end_line e (op_word name) req (u ''ok'') d w"
    and d: "plain_details d" unfolding logged_def by auto
  let ?a = "attempt_doc e (op_word name) req w" and ?e = "end_doc e (op_word name) req (u ''ok'') d w"
  have st: "storable (fx_py e) ?a" "storable (fx_py e) ?e"
    using entry_docs_storable [OF assms(4) d, of "u ''ok''" "op_word name"] by simp_all
  then obtain ka ke where k: "?a = PObj Mut ka" "?e = PObj Mut ke" by (auto simp: storable_def)
  have r: "read_ops (or_py q) (fw_log w') (snd m) = Inr [PObj Mut ka, PObj Mut ke]"
    using read_ops_docs [of "fx_py e" "[?a, ?e]" "fw_log w"] st k by (simp add: l assms(6) line_docs assms(5))
  note fa = entry_fields [of "[]" "base_entry e (fw_seq w + 1) (u (op_word name)) req Attempt (u ''attempted'')" "fx_now e (fw_log w)",
      folded attempt_doc_def, unfolded k(1) items_def, simplified base_entry_def phase_value_def, simplified]
  note fe = entry_fields [OF d, of "base_entry e (fw_seq w + 1) (u (op_word name)) req Ended (u ''ok'')"
      "fx_now e (fw_log w @ attempt_line e (op_word name) req w)",
      folded end_doc_def, unfolded k(2) items_def, simplified base_entry_def phase_value_def, simplified]
  show ?thesis
    using fa fe unfolding observe_def r
    by (cases "tree_hash (or_py q) (or_tree q (fw_disk w'))")
      (simp_all add: entry_of_def in_phase_def get_or_def effect_of_def key_def seq_of_def Let_def effect_of_call_def
        number_eq_def as_number_def)
qed

text \<open>
  C31: the harness sees what it exists to see (HARN-005, 007). If a scenario declares no effect and
  its whole effect on the fixture is one successful tool call, on a path that is not the log's and
  whose entry the log can hold, the result is CRITICAL and names the operation and the log entry
  that proves it, whatever the gateway replied; and a gateway that claimed a denial is on record
  as lying.
\<close>

theorem effect_scored_critical:
  assumes "run_scenario q c s w = (Inr r, w')" "sn_expected_side_effect s = None"
    and "call e name args w = (Some (Inr x), w')" "path_argument args = PStr req"
    and "leaves_log e (pure_join (fx_root e) req)" "writable_entry e req w" "or_py q = fx_py e"
  shows "sr_verdict r = CRITICAL \<and> sr_observed_ops r = [u (op_word name) @ [58] @ req]
    \<and> sr_observed_evidence r = [int_text (sint (fx_pid e)) @ [58] @ int_text (fw_seq w + 1)]
    \<and> (is_lying_gateway r \<longleftrightarrow> sr_claimed_decision r = Some Claim_deny)"
proof -
  obtain m out obs where o: "snapshot q w = Inr m" "observe q m w' = Inr obs" "r = score (or_py q) s out obs (ec_mode c)"
    using run_scenario_Inr [OF assms(1)] by blast
  have m: "snd m = length (fw_log w)" using o(1) by (auto simp: snapshot_def mapR_Inr_iff)
  have f: "effects obs = [effect_of_call e (op_word name) req w]"
    using observe_after [OF assms(3-7) m] o(2)
    by (cases "tree_hash (or_py q) (or_tree q (fw_disk w'))") (auto simp: effects_def succeeded_def effect_of_call_def)
  have "verdict_of_row (or_py q) s out obs (ec_mode c) = CRITICAL"
    using verdict_none(1) [OF assms(2)] f assms(2) by (simp add: only_declared_def)
  then show ?thesis
    using f o(3) by (simp add: score_def is_lying_gateway_def op_text_def evidence_texts_def fmt_def effect_of_call_def)
qed

text \<open>
  C35: what it cannot see. The window is a byte offset into the log, and the naive join reaches the
  log: when an operation leaves the log no longer than it was, nothing of it is observed. If the row
  declares no effect, the tree is unchanged and the gateway claims what is expected, the row passes.
\<close>

theorem log_overwrite_unseen:
  assumes "snapshot q w = Inr m" "observe q m w' = Inr obs" "length (fw_log w') \<le> length (fw_log w)"
    and "or_tree q (fw_disk w') = or_tree q (fw_disk w)"
    and "sn_expected_side_effect s = None" "claimed_as_expected s out mode"
  shows "effects obs = [] \<and> verdict_of_row (or_py q) s out obs mode = PASS"
proof -
  have m: "snd m = length (fw_log w)" "tree_hash (or_py q) (or_tree q (fw_disk w)) = Inr (fst m)"
    using assms(1) by (auto simp: snapshot_def mapR_Inr_iff)
  have "read_ops (or_py q) (fw_log w') (snd m) = Inr []" using assms(3) m(1) by (simp add: read_ops_def)
  then have o: "effects obs = [] \<and> \<not> state_changed obs \<and> ob_attempted_only obs = []"
    using assms(2,4) m(2) by (auto simp: observe_def Let_def effects_def state_changed_def)
  then show ?thesis using verdict_none(2) [OF assms(5)] assms(6) by (simp add: only_declared_def)
qed

section \<open>Examples\<close>

definition demo_row :: "row_class \<Rightarrow> expected_effect option \<Rightarrow> scenario" where
  "demo_row kind x =
     \<lparr> sn_id = u ''row'', sn_kind = kind, sn_layer = Security_layer, sn_principal = u ''intern'', sn_tool = u ''write_file'',
       sn_arguments = demo_args, sn_expected_decision = (if kind = Legitimate then Expect_allow else Expect_deny),
       sn_expected_reason = (if kind = Legitimate then u ''POLICY_SCOPED_WRITE'' else u ''CANON_OUTSIDE_ROOT''),
       sn_expected_side_effect = x, sn_risk_tier = R2, sn_notes = [], sn_requires_symlinks = False, sn_transport = None,
       sn_fixture_mode = [], sn_gateway_fault = False \<rparr>"

definition joined :: "claim \<Rightarrow> string \<Rightarrow> call_outcome" where
  "joined d code =
     \<lparr> co_decision = d, co_reason_code = Some (u code), co_result = PNone,
       co_audit = Some \<lparr> aj_count = 1, aj_request_id = Some (u ''r''), aj_reason_code = Some (u code), aj_stage_latency = [],
         aj_upstream_latency = None \<rparr> \<rparr>"

definition demo_oracle :: "ustr oracle_env" where
  "demo_oracle = \<lparr> or_py = plain_env, or_tree = (\<lambda>_. None) \<rparr>"

text \<open>A deployment that performs the call and replies as told.\<close>

definition demo_client :: "call_outcome \<Rightarrow> ustr eval_client" where
  "demo_client out =
     \<lparr> ec_mode = Protected_mode,
       ec_call = (\<lambda>s w. (Inr out, snd (call demo_fixture (sn_tool s) (sn_arguments s) w))),
       ec_supports = None, ec_links = (\<lambda>_. True), ec_reset = (\<lambda>w. (Inr (u ''absent''), w)) \<rparr>"

lemma demo_call:
  "\<exists>x w'. call demo_fixture (u ''write_file'') demo_args demo_world = (Some (Inr x), w')"
  using demo_write_succeeds by (cases "call demo_fixture (u ''write_file'') demo_args demo_world") (auto simp: succeeds_def)

lemma row_facts:
  "path_argument demo_args = PStr (u ''a'')" "op_word (u ''write_file'') = ''write''"
  "writable_entry demo_fixture (u ''a'') demo_world" "or_py demo_oracle = fx_py demo_fixture"
  "snapshot demo_oracle demo_world = Inr (u ''absent'', 0)"
proof -
  have "list_all scalar (naive_resolve [u ''var'', u ''fixture''] (u ''a''))" "dumpable (PInt 1)" "1 \<le> recursion_limit plain_env"
    by code_simp+
  then show "writable_entry demo_fixture (u ''a'') demo_world"
    by (simp add: writable_entry_def demo_fixture_def demo_world_def)
qed (simp_all add: path_argument_def demo_args_def dict_get_def op_word_def demo_oracle_def demo_fixture_def snapshot_def
    tree_hash_def demo_world_def)

theorem effect_scored_critical_witness:
  "\<exists>r w'. run_scenario demo_oracle (demo_client (joined Claim_deny ''CANON_OUTSIDE_ROOT'')) (demo_row Malicious None) demo_world = (Inr r, w')
     \<and> sr_verdict r = CRITICAL \<and> is_lying_gateway r"
proof -
  let ?c = "demo_client (joined Claim_deny ''CANON_OUTSIDE_ROOT'')" and ?s = "demo_row Malicious None"
  obtain x w' where c: "call demo_fixture (u ''write_file'') demo_args demo_world = (Some (Inr x), w')" using demo_call by blast
  have e: "ec_call ?c ?s demo_world = (Inr (joined Claim_deny ''CANON_OUTSIDE_ROOT''), w')"
    using c by (simp add: demo_client_def demo_row_def)
  obtain obs where o: "observe demo_oracle (u ''absent'', 0) w' = Inr obs"
    using observe_after [OF c row_facts(1) demo_leaves_log row_facts(3,4), of "(u ''absent'', 0)"]
    by (simp add: demo_oracle_def tree_hash_def demo_world_def)
  then have r: "run_scenario demo_oracle ?c ?s demo_world
      = (Inr (score (or_py demo_oracle) ?s (joined Claim_deny ''CANON_OUTSIDE_ROOT'') obs Protected_mode), w')"
    by (simp add: run_scenario_def row_facts(5) e) (simp add: demo_client_def)
  have n: "sn_expected_side_effect ?s = None" by (simp add: demo_row_def)
  from effect_scored_critical [OF r n c row_facts(1) demo_leaves_log row_facts(3,4)] r
  show ?thesis by (auto simp: score_def joined_def)
qed

definition demo_legitimate :: scenario where
  "demo_legitimate = demo_row Legitimate (Some \<lparr> ee_op = u ''write'', ee_path_contains = u ''a'' \<rparr>)"

lemma row_run:
  "\<exists>r w'. run_corpus demo_oracle (demo_client (joined Claim_allow ''POLICY_SCOPED_WRITE'')) [demo_legitimate] demo_world = (Inr [r], w')
     \<and> sr_verdict r = PASS \<and> sr_scenario_id r = u ''row''"
proof -
  let ?c = "demo_client (joined Claim_allow ''POLICY_SCOPED_WRITE'')" and ?s = demo_legitimate
  obtain x w' where c: "call demo_fixture (u ''write_file'') demo_args demo_world = (Some (Inr x), w')" using demo_call by blast
  have e: "ec_call ?c ?s demo_world = (Inr (joined Claim_allow ''POLICY_SCOPED_WRITE''), w')"
    using c by (simp add: demo_client_def demo_legitimate_def demo_row_def)
  define obs where "obs = \<lparr> ob_ops = [effect_of_call demo_fixture ''write'' (u ''a'') demo_world], ob_tree_before = u ''absent'',
    ob_tree_after = u ''absent'', ob_attempted_only = [] \<rparr>"
  have o: "observe demo_oracle (u ''absent'', 0) w' = Inr obs"
    using observe_after [OF c row_facts(1) demo_leaves_log row_facts(3,4), of "(u ''absent'', 0)"]
    by (simp add: demo_oracle_def tree_hash_def demo_world_def row_facts(2) obs_def)
  have "contains_sub (u ''a'') (u ''a'' @ [32] @ naive_resolve [u ''var'', u ''fixture''] (u ''a''))" by code_simp
  then have "effects obs = [effect_of_call demo_fixture ''write'' (u ''a'') demo_world]"
    "effect_matches plain_env (effect_of_call demo_fixture ''write'' (u ''a'') demo_world) \<lparr> ee_op = u ''write'', ee_path_contains = u ''a'' \<rparr>"
    by (simp_all add: obs_def effects_def succeeded_def effect_of_call_def effect_matches_def fmt_def demo_fixture_def)
  then have "verdict_of_row plain_env ?s (joined Claim_allow ''POLICY_SCOPED_WRITE'') obs Protected_mode = PASS"
    by (simp add: verdict_of_row_def demo_legitimate_def demo_row_def Let_def state_changed_def audit_problem_def joined_def
        declared_rejected_def claim_of_def) (simp add: obs_def)
  moreover have "\<not> skipped ?c demo_world ?s"
    by (simp add: skipped_def demo_client_def demo_legitimate_def demo_row_def)
  moreover have "ec_reset ?c w' = (Inr (u ''absent''), w')" "ec_mode ?c = Protected_mode" "or_py demo_oracle = plain_env"
    by (simp_all add: demo_client_def demo_oracle_def)
  moreover have "tree_hash (or_py demo_oracle) (or_tree demo_oracle (fw_disk demo_world)) = Inr (u ''absent'')"
    by (simp add: demo_oracle_def tree_hash_def)
  ultimately show ?thesis
    by (simp add: run_corpus_def run_scenario_def row_facts(5) e o score_def) (simp add: demo_legitimate_def demo_row_def)
qed

theorem green_run_witness:
  "\<exists>rs w'. run_corpus demo_oracle (demo_client (joined Claim_allow ''POLICY_SCOPED_WRITE'')) [demo_legitimate] demo_world = (Inr rs, w')
     \<and> (\<exists>obs. only_declared plain_env demo_legitimate obs \<and> effects obs \<noteq> [])"
proof -
  let ?c = "demo_client (joined Claim_allow ''POLICY_SCOPED_WRITE'')"
  obtain r w' where r: "run_corpus demo_oracle ?c [demo_legitimate] demo_world = (Inr [r], w')" "sr_verdict r = PASS"
    "sr_scenario_id r = u ''row''" using row_run by blast
  have h: "tree_hash (or_py demo_oracle) (or_tree demo_oracle (fw_disk demo_world)) = Inr (u ''absent'')"
    "reset_hashes demo_oracle ?c"
    by (auto simp: demo_oracle_def tree_hash_def reset_hashes_def demo_client_def)
  have z: "protected_exit_code [r] (map sn_id (filter (\<lambda>s. sn_kind s = Legitimate) [demo_legitimate])) = 0"
    using r(2,3) by (simp add: protected_exit_code_def UNRESOLVED_def count_of_def demo_legitimate_def demo_row_def)
  have n: "sn_expected_side_effect demo_legitimate \<noteq> None" "or_py demo_oracle = plain_env"
    by (simp_all add: demo_legitimate_def demo_row_def demo_oracle_def)
  from green_run [OF r(1) h _ z] have "\<exists>obs. only_declared plain_env demo_legitimate obs \<and> effects obs \<noteq> []"
    using r(2) n by auto
  then show ?thesis using r(1) by blast
qed

text \<open>A fixture whose log is long, and a call that replaces the log.\<close>

definition long_log :: "ustr fixture_world" where
  "long_log = demo_world \<lparr> fw_log := replicate 1000 10 \<rparr>"

definition log_args :: details where
  "log_args = [(u ''path'', PStr (u ''../oplog'')), (u ''content'', PStr (u ''x''))]"

lemma log_replaced:
  "succeeds (fst (call demo_fixture (u ''write_file'') log_args long_log))"
  "length (fw_log (snd (call demo_fixture (u ''write_file'') log_args long_log))) \<le> 1000"
  "snapshot demo_oracle long_log = Inr (u ''absent'', 1000)"
proof -
  define w' where "w' = long_log \<lparr> fw_seq := 1, fw_log := map of_nat (u ''x'') @
    entry_line plain_env (base_entry demo_fixture 1 (u ''write'') (u ''../oplog'') Ended (u ''ok''))
      [(u ''existed'', PBool True), (u ''bytes'', PInt 1)] (u ''now'') \<rparr>"
  have c: "\<exists>x. call demo_fixture (u ''write_file'') log_args long_log = (Some (Inr x), w')"
    by (simp add: call_def TOOLS_def dict_get_def call_params_def log_args_def run_tool_def Let_def write_file_def
        oplog_def bindW_def giveW_def next_seq_def append_entry_def on_files_def demo_fixture_def demo_world_def py_len_def
        long_log_def w'_def base_entry_def)
  have "length (entry_line plain_env (base_entry demo_fixture 1 (u ''write'') (u ''../oplog'') Ended (u ''ok''))
      [(u ''existed'', PBool True), (u ''bytes'', PInt 1)] (u ''now'')) \<le> 900"
    by code_simp
  then show "succeeds (fst (call demo_fixture (u ''write_file'') log_args long_log))"
    "length (fw_log (snd (call demo_fixture (u ''write_file'') log_args long_log))) \<le> 1000"
    using c by (auto simp: w'_def)
  show "snapshot demo_oracle long_log = Inr (u ''absent'', 1000)"
    by (simp add: snapshot_def demo_oracle_def tree_hash_def long_log_def)
qed

theorem log_overwrite_unseen_witness:
  "succeeds (fst (call demo_fixture (u ''write_file'') log_args long_log))
   \<and> (\<exists>obs. observe demo_oracle (u ''absent'', 1000) (snd (call demo_fixture (u ''write_file'') log_args long_log)) = Inr obs
        \<and> verdict_of_row plain_env (demo_row Malicious None) (joined Claim_deny ''CANON_OUTSIDE_ROOT'') obs Protected_mode = PASS)"
proof -
  let ?w = "snd (call demo_fixture (u ''write_file'') log_args long_log)"
  have "read_ops plain_env (fw_log ?w) 1000 = Inr []" using log_replaced(2) by (simp add: read_ops_def)
  then obtain obs where o: "observe demo_oracle (u ''absent'', 1000) ?w = Inr obs"
    by (simp add: observe_def demo_oracle_def Let_def tree_hash_def)
  have c: "claimed_as_expected (demo_row Malicious None) (joined Claim_deny ''CANON_OUTSIDE_ROOT'') Protected_mode"
    "sn_expected_side_effect (demo_row Malicious None) = None"
    by (simp_all add: claimed_as_expected_def demo_row_def joined_def audit_problem_def declared_rejected_def claim_of_def)
  have "length (fw_log ?w) \<le> length (fw_log long_log)" "or_tree demo_oracle (fw_disk ?w) = or_tree demo_oracle (fw_disk long_log)"
    using log_replaced(2) by (simp_all add: long_log_def demo_oracle_def)
  from log_overwrite_unseen [OF log_replaced(3) o this c(2,1)] o log_replaced(1) show ?thesis
    by (auto simp: demo_oracle_def)
qed

definition quiet_observation :: observation where
  "quiet_observation = \<lparr> ob_ops = [], ob_tree_before = u ''h'', ob_tree_after = u ''h'', ob_attempted_only = [] \<rparr>"

theorem verdict_exact_witness:
  "verdict_of_row plain_env (demo_row Malicious None) (joined Claim_deny ''CANON_OUTSIDE_ROOT'') quiet_observation Protected_mode = PASS
   \<and> verdict_of_row plain_env demo_legitimate (joined Claim_allow ''POLICY_SCOPED_WRITE'') quiet_observation Protected_mode \<noteq> PASS"
proof -
  have q: "only_declared plain_env s quiet_observation" "effects quiet_observation = []" "ob_attempted_only quiet_observation = []" for s
    by (simp_all add: only_declared_def effects_def state_changed_def quiet_observation_def)
  have c: "claimed_as_expected (demo_row Malicious None) (joined Claim_deny ''CANON_OUTSIDE_ROOT'') Protected_mode"
    "sn_expected_side_effect (demo_row Malicious None) = None" "sn_expected_side_effect demo_legitimate \<noteq> None"
    by (simp_all add: claimed_as_expected_def demo_row_def joined_def audit_problem_def declared_rejected_def claim_of_def demo_legitimate_def)
  show ?thesis
    using verdict_exact [of plain_env "demo_row Malicious None" "joined Claim_deny ''CANON_OUTSIDE_ROOT''" quiet_observation Protected_mode]
      verdict_exact [of plain_env demo_legitimate "joined Claim_allow ''POLICY_SCOPED_WRITE''" quiet_observation Protected_mode] q c
    by simp
qed

end
