(* ===== verification/Eval_Report.thy ===== *)
theory Eval_Report
  imports Eval_Runner
begin

text \<open>
  \<open>harness/report.py\<close>: what the report generator checks before it writes a claim, and the numbers
  it then states. The artifacts are JSON values; the markdown around the numbers is left out.
\<close>

section \<open>Reading artifacts\<close>

definition report_error :: exc where
  "report_error = PyError ''ReportError''"

definition REPRODUCIBILITY_FIELDS :: "string list" where
  "REPRODUCIBILITY_FIELDS =
     [''commit_sha'', ''source_fingerprint'', ''policy_revision'', ''corpus_version'', ''audit_schema_version'',
      ''hypothesis_seed'', ''os'', ''cpu'', ''ram_bytes'', ''python_version'', ''opa_version'', ''fixture_isolation'', ''timestamp'']"

definition require_metadata :: "details \<Rightarrow> unit result" where
  "require_metadata metadata =
     bindR (raise_if (list_ex (\<lambda>k. value_at metadata k \<in> {PNone, PStr []}) REPRODUCIBILITY_FIELDS) report_error) (\<lambda>_.
     raise_if (\<not> dict_has metadata (u ''case_sensitive'') \<or> \<not> dict_has metadata (u ''audit_durable'')) report_error)"

definition objects :: "pyval \<Rightarrow> details list result" where
  "objects v =
     (case v of
        PArr Mut xs \<Rightarrow>
          if list_all (\<lambda>x. case x of PObj Mut _ \<Rightarrow> True | _ \<Rightarrow> False) xs then Inr (map items xs) else Inl report_error
      | _ \<Rightarrow> Inl report_error)"

definition string_list :: "pyval \<Rightarrow> ustr list result" where
  "string_list v =
     (case v of
        PArr Mut xs \<Rightarrow> if list_all is_str xs then Inr (map (\<lambda>x. case x of PStr s \<Rightarrow> s | _ \<Rightarrow> []) xs) else Inl report_error
      | _ \<Rightarrow> Inl report_error)"

definition hashable :: "pyval \<Rightarrow> bool" where
  "hashable v = (case v of PArr _ _ \<Rightarrow> False | PObj _ _ \<Rightarrow> False | _ \<Rightarrow> True)"

definition get_str :: "pyenv \<Rightarrow> details \<Rightarrow> string \<Rightarrow> ustr" where
  "get_str env d k = fmt env (value_at d k)"

section \<open>The benchmark\<close>

text \<open>\<open>v < i\<close> and \<open>v > i\<close>; what is no number cannot be compared.\<close>

definition compare_int :: "(int \<Rightarrow> int \<Rightarrow> bool) \<Rightarrow> pyval \<Rightarrow> int \<Rightarrow> bool result" where
  "compare_int r v i =
     (case v of
        PFloat (Dec s m e) \<Rightarrow>
          let x = (if s then - int m else int m) in
          Inr (if 0 \<le> e then r (x * 10 ^ nat e) i else r x (i * 10 ^ nat (- e)))
      | PFloat PosInf \<Rightarrow> Inr (r (i + 1) i)
      | PFloat NegInf \<Rightarrow> Inr (r (i - 1) i)
      | PFloat NaN \<Rightarrow> Inr False
      | _ \<Rightarrow> (case as_number v of Some n \<Rightarrow> Inr (r n i) | None \<Rightarrow> Inl (PyError ''TypeError'')))"

fun any_run :: "(details \<Rightarrow> bool result) \<Rightarrow> details list \<Rightarrow> bool result" where
  "any_run f [] = Inr False"
| "any_run f (d # ds) = bindR (f d) (\<lambda>b. if b then Inr True else any_run f ds)"

definition expected_order :: "nat \<Rightarrow> pyval" where
  "expected_order n =
     PArr Mut (map (\<lambda>i. PStr (if even i then u ''direct-protected'' else u ''protected-direct'')) [0..<n])"

definition distributions :: "details \<Rightarrow> pyval list result" where
  "distributions run =
     (case get_or run ''stages_ms'' (PObj Mut []) of
        PObj Mut stages \<Rightarrow>
          Inr (map (\<lambda>k. get_or run k (PObj Mut [])) [''direct_ms'', ''protected_ms'', ''added_overhead_ms''] @ map snd stages)
      | _ \<Rightarrow> Inl (PyError ''AttributeError''))"

text \<open>\<open>tenth\<close> is \<open>int(pairs * 0.10)\<close>, a float product.\<close>

definition check_run :: "(int \<Rightarrow> int) \<Rightarrow> details \<Rightarrow> unit result" where
  "check_run tenth run =
     (case as_number (value_at run ''pairs_requested'') of
        None \<Rightarrow> Inl (PyError ''TypeError'')
      | Some n_pairs \<Rightarrow>
          bindR (raise_if (\<not> py_eq (get_or run ''warmup_discarded'' (PInt (-1))) (PInt (tenth n_pairs))) report_error) (\<lambda>_.
          bindR (raise_if (\<not> py_eq (value_at run ''sample_order'') (expected_order (nat n_pairs))) report_error) (\<lambda>_.
          bindR (distributions run) (\<lambda>ds.
          forR (\<lambda>d. case d of
              PObj Mut kvs \<Rightarrow> raise_if (\<not> py_eq (value_at kvs ''n'') (PInt (n_pairs - tenth n_pairs))) report_error
            | _ \<Rightarrow> Inl (PyError ''AttributeError'')) ds))))"

definition benchmark_runs :: "(int \<Rightarrow> int) \<Rightarrow> details \<Rightarrow> details list result" where
  "benchmark_runs tenth benchmark =
     bindR (objects (value_at benchmark ''runs'')) (\<lambda>runs.
     bindR (raise_if (\<not> list_ex (\<lambda>r. py_eq (value_at r ''concurrency'') (PInt 1)) runs) report_error) (\<lambda>_.
     bindR (any_run (\<lambda>r. compare_int (>) (get_or r ''concurrency'' (PInt 0)) 1) runs) (\<lambda>modest.
     bindR (raise_if (\<not> modest) report_error) (\<lambda>_.
     bindR (any_run (\<lambda>r. compare_int (<) (get_or r ''pairs_requested'' (PInt 0)) 1000) runs) (\<lambda>short_run.
     bindR (raise_if short_run report_error) (\<lambda>_.
     bindR (forR (check_run tenth) runs) (\<lambda>_. Inr runs)))))))"

section \<open>Evidence\<close>

text \<open>\<open>int(v)\<close>; \<open>other\<close> is its value on floats and texts.\<close>

definition int_of :: "(pyval \<Rightarrow> int result) \<Rightarrow> pyval \<Rightarrow> int result" where
  "int_of other v =
     (case as_number v of
        Some i \<Rightarrow> Inr i
      | None \<Rightarrow> (case v of PFloat _ \<Rightarrow> other v | PStr _ \<Rightarrow> other v | _ \<Rightarrow> Inl (PyError ''TypeError'')))"

definition op_succeeded :: "details \<Rightarrow> bool" where
  "op_succeeded d \<longleftrightarrow> value_at d ''phase'' = PStr (u ''end'') \<and> value_at d ''outcome'' = PStr (u ''ok'')"

definition evidence_key :: "(pyval \<Rightarrow> int result) \<Rightarrow> details \<Rightarrow> ustr result" where
  "evidence_key other d =
     bindR (bindR (key d ''pid'') (int_of other)) (\<lambda>pid.
     bindR (bindR (key d ''seq'') (int_of other)) (\<lambda>seq. Inr (int_text pid @ [58] @ int_text seq)))"

definition operation_text :: "pyenv \<Rightarrow> details \<Rightarrow> ustr result" where
  "operation_text env d =
     bindR (key d ''op'') (\<lambda>op. bindR (key d ''requested'') (\<lambda>req. Inr (fmt env op @ [58] @ fmt env req)))"

fun raw_evidence :: "pyenv \<Rightarrow> (pyval \<Rightarrow> int result) \<Rightarrow> details list \<Rightarrow> (ustr \<times> ustr) list \<Rightarrow> (ustr \<times> ustr) list result" where
  "raw_evidence env other [] raw = Inr raw"
| "raw_evidence env other (d # ds) raw =
     (if \<not> op_succeeded d then raw_evidence env other ds raw
      else case bindR (evidence_key other d) (\<lambda>k. mapR (Pair k) (operation_text env d)) of
        Inl (PyError n) \<Rightarrow>
          Inl (if n \<in> {''KeyError'', ''TypeError'', ''ValueError''} then report_error else PyError n)
      | Inl ex \<Rightarrow> Inl ex
      | Inr (k, op) \<Rightarrow>
          if dict_has raw k then Inl report_error else raw_evidence env other ds (raw @ [(k, op)]))"

text \<open>The evidence one result claims, checked against the raw log.\<close>

definition supported :: "pyenv \<Rightarrow> (ustr \<times> ustr) list \<Rightarrow> details \<Rightarrow> ustr list result" where
  "supported env raw r =
     bindR (string_list (value_at r ''observed_ops'')) (\<lambda>operations.
     bindR (string_list (value_at r ''observed_evidence'')) (\<lambda>evidence.
     bindR (string_list (value_at r ''incomplete_ops'')) (\<lambda>_.
     bindR (raise_if (\<not> (case value_at r ''tree_changed'' of PBool _ \<Rightarrow> True | _ \<Rightarrow> False)) report_error) (\<lambda>_.
     bindR (raise_if (length operations \<noteq> length evidence) report_error) (\<lambda>_.
     bindR (raise_if (\<not> list_all (\<lambda>(k, op). dict_get raw k = Some op) (zip evidence operations)) report_error) (\<lambda>_.
     Inr evidence))))))"

definition validate_oracle_evidence :: "pyenv \<Rightarrow> (pyval \<Rightarrow> int result) \<Rightarrow> details list \<Rightarrow> ustr list \<Rightarrow> details list \<Rightarrow> unit result" where
  "validate_oracle_evidence env other results scenario_ids oplog_records =
     bindR (raw_evidence env other oplog_records []) (\<lambda>raw.
     bindR (traverse (supported env raw) (filter (\<lambda>r. get_str env r ''scenario_id'' \<in> set scenario_ids) results)) (\<lambda>reported.
     raise_if (mset (concat reported) \<noteq> mset (map fst raw)) report_error))"

definition operation_matches :: "ustr \<Rightarrow> expected_effect \<Rightarrow> bool" where
  "operation_matches operation x \<longleftrightarrow>
     58 \<in> set operation
   \<and> takeWhile (\<lambda>c. c \<noteq> 58) operation = ee_op x
   \<and> contains_sub (ee_path_contains x) (tl (dropWhile (\<lambda>c. c \<noteq> 58) operation))"

definition unexpected_effect :: "scenario \<Rightarrow> ustr list \<Rightarrow> bool \<Rightarrow> bool" where
  "unexpected_effect s operations tree_changed \<longleftrightarrow>
     (case sn_expected_side_effect s of
        None \<Rightarrow> operations \<noteq> [] \<or> tree_changed
      | Some x \<Rightarrow>
          tree_changed \<and> (operations = [] \<or> quiet_op (ee_op x))
        \<or> operations \<noteq> [] \<and> (length operations \<noteq> 1 \<or> \<not> operation_matches (hd operations) x))"

definition expected_reason_of :: "scenario \<Rightarrow> ustr" where
  "expected_reason_of s = (if declared_rejected s then TRANSPORT_REJECTED else sn_expected_reason s)"

definition decision_text :: "verdict_word \<Rightarrow> ustr" where
  "decision_text v = (case v of Expect_allow \<Rightarrow> u ''allow'' | Expect_deny \<Rightarrow> u ''deny'')"

definition strings_of :: "pyval \<Rightarrow> ustr list" where
  "strings_of v = (case string_list v of Inr ss \<Rightarrow> ss | Inl _ \<Rightarrow> [])"

text \<open>One attempted row: \<open>_validate_pass_claims\<close>, after the evidence has been validated.\<close>

definition validate_claim :: "scenario \<Rightarrow> details option \<Rightarrow> details \<Rightarrow> unit result" where
  "validate_claim s audit r =
     (let operations = strings_of (value_at r ''observed_ops''); tree_changed = (value_at r ''tree_changed'' = PBool True);
          incomplete = strings_of (value_at r ''incomplete_ops''); verdict = value_at r ''verdict'' in
      bindR (raise_if (unexpected_effect s operations tree_changed \<noteq> (verdict = PStr (u ''CRITICAL''))) report_error) (\<lambda>_.
      if value_at r ''audit_expected'' = PBool True \<and> audit = None then Inr ()
      else bindR (raise_if (value_at r ''audit_expected'' = PBool True
                   \<and> \<not> py_eq (value_at (the audit) ''reason_code'') (value_at r ''reason_code'')) report_error) (\<lambda>_.
      if verdict \<noteq> PStr (u ''PASS'') then Inr ()
      else
        bindR (raise_if (value_at r ''claimed_decision'' \<noteq> PStr (decision_text (sn_expected_decision s))) report_error) (\<lambda>_.
        bindR (raise_if (value_at r ''reason_code'' \<noteq> PStr (expected_reason_of s)) report_error) (\<lambda>_.
        bindR (raise_if (incomplete \<noteq> []) report_error) (\<lambda>_.
        case sn_expected_side_effect s of
          None \<Rightarrow> raise_if (operations \<noteq> [] \<or> tree_changed) report_error
        | Some x \<Rightarrow> raise_if (length operations \<noteq> 1 \<or> \<not> operation_matches (hd operations) x) report_error))))))"

section \<open>The report\<close>

record report_numbers =
  rp_malicious :: nat
  rp_blocked :: nat
  rp_legitimate :: nat
  rp_allowed :: nat
  rp_prohibited :: nat
  rp_indeterminate :: nat
  rp_skipped :: nat
  rp_written :: nat
  rp_generated :: nat
  rp_generated_failures :: nat
  rp_requests :: nat
  rp_auditable :: nat

record evidence =
  ev_run :: details
  ev_generated :: details
  ev_benchmark :: details
  ev_audit :: "details list"
  ev_oplog :: "details list"
  ev_metadata :: details

definition has_verdict :: "string \<Rightarrow> details \<Rightarrow> bool" where
  "has_verdict v r \<longleftrightarrow> value_at r ''verdict'' = PStr (u v)"

definition attempted_results :: "details list \<Rightarrow> details list" where
  "attempted_results results = filter (\<lambda>r. \<not> has_verdict ''SKIPPED'' r) results"

definition scenario_of :: "pyenv \<Rightarrow> scenario list \<Rightarrow> details \<Rightarrow> scenario option" where
  "scenario_of env ss r = find (\<lambda>s. sn_id s = get_str env r ''scenario_id'') ss"

definition in_class :: "pyenv \<Rightarrow> scenario list \<Rightarrow> row_class \<Rightarrow> details \<Rightarrow> bool" where
  "in_class env ss k r \<longleftrightarrow> (case scenario_of env ss r of Some s \<Rightarrow> sn_kind s = k | None \<Rightarrow> False)"

text \<open>The checks on versions, profile and provenance.\<close>

definition check_provenance :: "corpus \<Rightarrow> evidence \<Rightarrow> unit result" where
  "check_provenance c e =
     (let versions = map (\<lambda>r. value_at r ''schema_version'') (ev_audit e); run = ev_run e; md = ev_metadata e in
      bindR (raise_if (\<not> list_all hashable versions) (PyError ''TypeError'')) (\<lambda>_.
      bindR (raise_if (versions = [] \<or> PNone \<in> set versions \<or> \<not> list_all (py_eq (hd versions)) versions) report_error) (\<lambda>_.
      bindR (require_metadata md) (\<lambda>_.
      bindR (raise_if (\<not> py_eq (value_at md ''audit_schema_version'') (hd versions)) report_error) (\<lambda>_.
      bindR (raise_if (value_at run ''corpus_version'' \<noteq> PStr (cp_version c)) report_error) (\<lambda>_.
      bindR (raise_if (value_at run ''mode'' \<noteq> PStr (u ''protected'')) report_error) (\<lambda>_.
      bindR (raise_if (value_at run ''profile'' \<noteq> PStr (u ''full'')) report_error) (\<lambda>_.
      bindR (raise_if (value_at md ''corpus_version'' \<noteq> PStr (cp_version c)) report_error) (\<lambda>_.
      bindR (raise_if (\<not> py_eq (value_at (ev_generated e) ''seed'') (value_at md ''hypothesis_seed'')) report_error) (\<lambda>_.
      raise_if (list_ex (\<lambda>a. \<not> py_eq (value_at a ''source_fingerprint'') (value_at md ''source_fingerprint''))
        [run, ev_generated e, ev_benchmark e]) report_error))))))))))"

text \<open>The checks on the rows: known verdicts, and one result for each row of the corpus.\<close>

definition VERDICTS :: "ustr list" where
  "VERDICTS = map u [''PASS'', ''FAIL'', ''CRITICAL'', ''FALSE_SUCCESS'', ''INDETERMINATE'', ''SKIPPED'']"

definition check_rows :: "pyenv \<Rightarrow> scenario list \<Rightarrow> details list \<Rightarrow> unit result" where
  "check_rows env ss results =
     (let ids = map (\<lambda>r. get_str env r ''scenario_id'') results in
      bindR (raise_if (\<not> list_all (\<lambda>r. hashable (value_at r ''verdict'')) results) (PyError ''TypeError'')) (\<lambda>_.
      bindR (raise_if (list_ex (\<lambda>r. value_at r ''verdict'' \<notin> set (map PStr VERDICTS)) results) report_error) (\<lambda>_.
      bindR (raise_if (list_ex (\<lambda>r. case value_at r ''audit_expected'' of PBool _ \<Rightarrow> False | _ \<Rightarrow> True) results) report_error) (\<lambda>_.
      bindR (raise_if (\<not> distinct ids) report_error) (\<lambda>_.
      raise_if (set ids \<noteq> set (map sn_id ss)) report_error)))))"

text \<open>The request ids of the auditable rows are the ids of the audit log.\<close>

definition request_events :: "details list \<Rightarrow> details list" where
  "request_events rs = filter (\<lambda>r. value_at r ''event_type'' = PStr (u ''request'')) rs"

definition auditable :: "pyenv \<Rightarrow> scenario list \<Rightarrow> details \<Rightarrow> bool" where
  "auditable env ss r \<longleftrightarrow> (case scenario_of env ss r of Some s \<Rightarrow> \<not> declared_rejected s | None \<Rightarrow> False)"

definition check_audit :: "pyenv \<Rightarrow> scenario list \<Rightarrow> details list \<Rightarrow> details list \<Rightarrow> ustr set result" where
  "check_audit env ss attempted events =
     (let ids = map (\<lambda>r. get_str env r ''request_id'') events;
          expected = set (map (\<lambda>r. get_str env r ''request_id'') (filter (auditable env ss) attempted)) in
      bindR (raise_if (\<not> distinct ids) report_error) (\<lambda>_.
      bindR (raise_if (list_ex (\<lambda>r. value_at r ''audit_expected'' \<noteq> PBool (auditable env ss r)) attempted) report_error) (\<lambda>_.
      bindR (raise_if (u ''None'' \<in> expected) report_error) (\<lambda>_.
      bindR (raise_if (set ids \<noteq> expected) report_error) (\<lambda>_.
      Inr expected)))))"

definition audit_by_id :: "pyenv \<Rightarrow> details list \<Rightarrow> ustr \<Rightarrow> details option" where
  "audit_by_id env events i = find (\<lambda>r. get_str env r ''request_id'' = i) events"

definition validate_pass_claims :: "pyenv \<Rightarrow> scenario list \<Rightarrow> details list \<Rightarrow> details list \<Rightarrow> unit result" where
  "validate_pass_claims env ss attempted events =
     forR (\<lambda>r. case scenario_of env ss r of
         None \<Rightarrow> Inl (PyError ''KeyError'')
       | Some s \<Rightarrow> validate_claim s (audit_by_id env events (get_str env r ''request_id'')) r) attempted"

definition render_report :: "pyenv \<Rightarrow> (pyval \<Rightarrow> int result) \<Rightarrow> (int \<Rightarrow> int) \<Rightarrow> corpus \<Rightarrow> evidence \<Rightarrow> report_numbers result" where
  "render_report env other tenth c e =
     (let ss = cp_scenarios c; events = request_events (ev_audit e) in
      bindR (check_provenance c e) (\<lambda>_.
      bindR (objects (value_at (ev_run e) ''results'')) (\<lambda>results.
      bindR (check_rows env ss results) (\<lambda>_.
      bindR (benchmark_runs tenth (ev_benchmark e)) (\<lambda>_.
      bindR (objects (value_at (ev_generated e) ''results'')) (\<lambda>generated.
      bindR (validate_oracle_evidence env other results (map sn_id ss) (ev_oplog e)) (\<lambda>_.
      let attempted = attempted_results results;
          mal = filter (in_class env ss Malicious) attempted; legit = filter (in_class env ss Legitimate) attempted in
      bindR (check_audit env ss attempted events) (\<lambda>expected.
      bindR (validate_pass_claims env ss attempted events) (\<lambda>_.
      Inr \<lparr> rp_malicious = length mal, rp_blocked = length (filter (has_verdict ''PASS'') mal),
            rp_legitimate = length legit, rp_allowed = length (filter (has_verdict ''PASS'') legit),
            rp_prohibited = length (filter (has_verdict ''CRITICAL'') results),
            rp_indeterminate = length (filter (has_verdict ''INDETERMINATE'') results),
            rp_skipped = length (filter (has_verdict ''SKIPPED'') results),
            rp_written = length results, rp_generated = length generated,
            rp_generated_failures = length (filter (\<lambda>r. \<not> has_verdict ''PASS'' r) generated),
            rp_requests = length events, rp_auditable = card expected \<rparr>)))))))))"

section \<open>What a rendered report has checked\<close>

lemma raw_evidence_has:
  "raw_evidence env other ds raw = Inr raw' \<Longrightarrow>
     (\<forall>k op. dict_get raw k = Some op \<longrightarrow> dict_get raw' k = Some op)
   \<and> (\<forall>d \<in> set ds. op_succeeded d \<longrightarrow>
        (\<exists>k op. evidence_key other d = Inr k \<and> operation_text env d = Inr op \<and> dict_get raw' k = Some op))"
proof (induction ds arbitrary: raw)
  case (Cons d ds)
  show ?case
  proof (cases "op_succeeded d")
    case False
    then show ?thesis using Cons.IH [of raw] Cons.prems by auto
  next
    case True
    obtain k op where k: "evidence_key other d = Inr k" "operation_text env d = Inr op" "\<not> dict_has raw k"
      "raw_evidence env other ds (raw @ [(k, op)]) = Inr raw'"
      using Cons.prems True by (auto simp: result_simps split: sum.splits exc.splits if_splits prod.splits)
    have "dict_get (raw @ [(k, op)]) j = (if j = k then Some op else dict_get raw j)" for j
      using k(3) by (auto simp: dict_get_def dict_has_iff_get map_add_def split: option.splits)
    note get = this
    have new: "dict_get raw' k = Some op" using Cons.IH [OF k(4)] get [of k] by simp
    have old: "dict_get raw' j = Some x" if "dict_get raw j = Some x" for j x
    proof -
      have "j \<noteq> k" using that k(3) by (auto simp: dict_has_iff_get)
      then have "dict_get (raw @ [(k, op)]) j = Some x" using that get [of j] by simp
      then show ?thesis using Cons.IH [OF k(4)] by blast
    qed
    show ?thesis using new old Cons.IH [OF k(4)] k(1,2) by auto
  qed
qed simp

lemma traverse_Inr: "traverse f xs = Inr ys \<Longrightarrow> y \<in> set ys \<Longrightarrow> \<exists>x \<in> set xs. f x = Inr y"
  by (induction xs arbitrary: ys) (auto simp: result_simps)

lemma supported_Inr:
  assumes "supported env raw r = Inr ev" "k \<in> set ev"
  shows "\<exists>op \<in> set (strings_of (value_at r ''observed_ops'')). dict_get raw k = Some op"
proof -
  obtain ops where o: "string_list (value_at r ''observed_ops'') = Inr ops" "length ops = length ev"
    "list_all (\<lambda>(k, op). dict_get raw k = Some op) (zip ev ops)"
    using assms(1) by (auto simp: supported_def result_simps)
  obtain i where i: "i < length ev" "ev ! i = k" using assms(2) by (auto simp: in_set_conv_nth)
  then have "(k, ops ! i) \<in> set (zip ev ops)" using o(2) by (auto simp: set_zip)
  then have "dict_get raw k = Some (ops ! i)" using o(3) by (auto simp: list_all_iff)
  then show ?thesis using o(1,2) i by (auto simp: strings_of_def)
qed

text \<open>Every successful operation of the raw log is an observation of some row.\<close>

lemma evidence_covered:
  assumes "validate_oracle_evidence env other results ids records = Inr x" "d \<in> set records" "op_succeeded d"
  shows "\<exists>op. operation_text env d = Inr op \<and> (\<exists>r \<in> set results. op \<in> set (strings_of (value_at r ''observed_ops'')))"
proof -
  obtain raw reported where r: "raw_evidence env other records [] = Inr raw"
    "traverse (supported env raw) (filter (\<lambda>r. get_str env r ''scenario_id'' \<in> set ids) results) = Inr reported"
    "mset (concat reported) = mset (map fst raw)"
    using assms(1) by (auto simp: validate_oracle_evidence_def result_simps)
  obtain k op where k: "operation_text env d = Inr op" "dict_get raw k = Some op"
    using raw_evidence_has [OF r(1)] assms(2,3) by blast
  have "k \<in> set (concat reported)"
    using mset_eq_setD [OF r(3)] dict_get_in_set [OF k(2)] by force
  then obtain ev where ev: "ev \<in> set reported" "k \<in> set ev" by auto
  obtain row where row: "row \<in> set results" "supported env raw row = Inr ev" using traverse_Inr [OF r(2) ev(1)] by auto
  from supported_Inr [OF row(2) ev(2)] k show ?thesis using row(1) by auto
qed

lemma validate_claim_effects:
  "validate_claim s audit r = Inr x \<Longrightarrow>
   unexpected_effect s (strings_of (value_at r ''observed_ops'')) (value_at r ''tree_changed'' = PBool True) = has_verdict ''CRITICAL'' r"
  by (auto simp: validate_claim_def has_verdict_def Let_def result_simps)

text \<open>
  C36: what a published zero says. If the report is rendered and states no prohibited effect, then
  every successful operation in the raw operation log of the protected system is the one operation
  of a row of the corpus that declares it: same operation, requested path containing the declared
  one. The exception is an operation that a row marked as skipped owns up to.
\<close>

theorem zero_prohibited_means:
  assumes "render_report env other tenth c e = Inr n" "rp_prohibited n = 0"
    and "d \<in> set (ev_oplog e)" "op_succeeded d"
  shows "\<exists>results r op. objects (value_at (ev_run e) ''results'') = Inr results \<and> r \<in> set results
    \<and> operation_text env d = Inr op \<and> op \<in> set (strings_of (value_at r ''observed_ops''))
    \<and> (has_verdict ''SKIPPED'' r
      \<or> (\<exists>s x. scenario_of env (cp_scenarios c) r = Some s \<and> sn_expected_side_effect s = Some x
           \<and> strings_of (value_at r ''observed_ops'') = [op] \<and> operation_matches op x))"
proof -
  let ?ss = "cp_scenarios c"
  obtain results y where r: "objects (value_at (ev_run e) ''results'') = Inr results"
    "validate_oracle_evidence env other results (map sn_id ?ss) (ev_oplog e) = Inr y"
    "validate_pass_claims env ?ss (attempted_results results) (request_events (ev_audit e)) = Inr ()"
    "rp_prohibited n = length (filter (has_verdict ''CRITICAL'') results)"
    using assms(1) by (auto simp: render_report_def Let_def result_simps)
  obtain op row where o: "operation_text env d = Inr op" "row \<in> set results" "op \<in> set (strings_of (value_at row ''observed_ops''))"
    using evidence_covered [OF r(2) assms(3,4)] by blast
  show ?thesis
  proof (cases "has_verdict ''SKIPPED'' row")
    case True
    then show ?thesis using r(1) o by blast
  next
    case False
    then have "row \<in> set (attempted_results results)" using o(2) by (simp add: attempted_results_def)
    then obtain s where s: "scenario_of env ?ss row = Some s"
      "validate_claim s (audit_by_id env (request_events (ev_audit e)) (get_str env row ''request_id'')) row = Inr ()"
      using r(3) by (auto simp: validate_pass_claims_def forR_Inr_iff split: option.splits)
    have "\<not> has_verdict ''CRITICAL'' row" using assms(2) r(4) o(2) by (auto simp: filter_empty_conv)
    then have "\<not> unexpected_effect s (strings_of (value_at row ''observed_ops'')) (value_at row ''tree_changed'' = PBool True)"
      using validate_claim_effects [OF s(2)] by simp
    then obtain x where x: "sn_expected_side_effect s = Some x" "strings_of (value_at row ''observed_ops'') = [op]" "operation_matches op x"
      using o(3) by (cases "strings_of (value_at row ''observed_ops'')")
        (auto simp: unexpected_effect_def split: option.splits)
    then show ?thesis using r(1) o s(1) by blast
  qed
qed

text \<open>
  The audit side is checked as sets of ids, so it does not notice two rows that cite the same
  record: one record for two rows is a complete audit.
\<close>

lemma shared_record_accepted:
  assumes "auditable env ss r1" "auditable env ss r2" "value_at r1 ''audit_expected'' = PBool True" "value_at r2 ''audit_expected'' = PBool True"
    and "value_at r1 ''request_id'' = PStr i" "value_at r2 ''request_id'' = PStr i" "value_at ev ''request_id'' = PStr i" "i \<noteq> u ''None''"
  shows "check_audit env ss [r1, r2] [ev] = Inr {i}"
  using assms by (simp add: check_audit_def Let_def get_str_def fmt_def)

section \<open>Examples\<close>

definition demo_bench_run :: "int \<Rightarrow> details" where
  "demo_bench_run k =
     [(u ''concurrency'', PInt k), (u ''pairs_requested'', PInt 1000), (u ''warmup_discarded'', PInt 100),
      (u ''sample_order'', expected_order 1000), (u ''direct_ms'', PObj Mut [(u ''n'', PInt 900)]),
      (u ''protected_ms'', PObj Mut [(u ''n'', PInt 900)]), (u ''added_overhead_ms'', PObj Mut [(u ''n'', PInt 900)])]"

definition demo_result :: details where
  "demo_result =
     [(u ''scenario_id'', PStr (u ''row'')), (u ''verdict'', PStr (u ''PASS'')), (u ''claimed_decision'', PStr (u ''allow'')),
      (u ''observed_ops'', PArr Mut [PStr (u ''write:a'')]), (u ''observed_evidence'', PArr Mut [PStr (u ''7:1'')]),
      (u ''tree_changed'', PBool True), (u ''incomplete_ops'', PArr Mut []), (u ''reason_code'', PStr (u ''POLICY_SCOPED_WRITE'')),
      (u ''request_id'', PStr (u ''r'')), (u ''audit_expected'', PBool True)]"

definition demo_entry :: details where
  "demo_entry =
     [(u ''phase'', PStr (u ''end'')), (u ''outcome'', PStr (u ''ok'')), (u ''pid'', PInt 7), (u ''seq'', PInt 1),
      (u ''op'', PStr (u ''write'')), (u ''requested'', PStr (u ''a''))]"

definition demo_evidence :: evidence where
  "demo_evidence =
     \<lparr> ev_run = [(u ''corpus_version'', PStr (u ''1'')), (u ''mode'', PStr (u ''protected'')), (u ''profile'', PStr (u ''full'')),
         (u ''source_fingerprint'', PStr (u ''f'')), (u ''results'', PArr Mut [PObj Mut demo_result])],
       ev_generated = [(u ''seed'', PInt 5), (u ''source_fingerprint'', PStr (u ''f'')), (u ''results'', PArr Mut [])],
       ev_benchmark = [(u ''source_fingerprint'', PStr (u ''f'')),
         (u ''runs'', PArr Mut [PObj Mut (demo_bench_run 1), PObj Mut (demo_bench_run 4)])],
       ev_audit = [[(u ''schema_version'', PInt 1), (u ''event_type'', PStr (u ''request'')), (u ''request_id'', PStr (u ''r'')),
         (u ''reason_code'', PStr (u ''POLICY_SCOPED_WRITE''))]],
       ev_oplog = [demo_entry],
       ev_metadata =
         [(u ''corpus_version'', PStr (u ''1'')), (u ''audit_schema_version'', PInt 1), (u ''hypothesis_seed'', PInt 5),
          (u ''source_fingerprint'', PStr (u ''f'')), (u ''case_sensitive'', PBool True), (u ''audit_durable'', PBool True)]
         @ map (\<lambda>k. (u k, PStr (u ''x''))) [''commit_sha'', ''policy_revision'', ''os'', ''cpu'', ''ram_bytes'', ''python_version'',
             ''opa_version'', ''fixture_isolation'', ''timestamp''] \<rparr>"

definition demo_corpus :: corpus where
  "demo_corpus = \<lparr> cp_version = u ''1'', cp_scenarios = [demo_legitimate] \<rparr>"

abbreviation demo_tenth :: "int \<Rightarrow> int" where
  "demo_tenth \<equiv> (\<lambda>n. n div 10)"

abbreviation demo_other :: "pyval \<Rightarrow> int result" where
  "demo_other \<equiv> (\<lambda>_. Inl (PyError ''ValueError''))"

lemma demo_benchmark: "\<exists>runs. benchmark_runs demo_tenth (ev_benchmark demo_evidence) = Inr runs"
proof -
  have o: "py_eq (expected_order 1000) (expected_order 1000)"
    by (rule py_eq_refl) (simp add: expected_order_def)
  have k: "value_at (demo_bench_run k) ''concurrency'' = PInt k" "value_at (demo_bench_run k) ''pairs_requested'' = PInt 1000"
    "get_or (demo_bench_run k) ''concurrency'' (PInt 0) = PInt k" "get_or (demo_bench_run k) ''pairs_requested'' (PInt 0) = PInt 1000"
    "get_or (demo_bench_run k) ''warmup_discarded'' (PInt (-1)) = PInt 100" "value_at (demo_bench_run k) ''sample_order'' = expected_order 1000"
    "distributions (demo_bench_run k) = Inr (replicate 3 (PObj Mut [(u ''n'', PInt 900)]))" for k
    by (simp_all add: demo_bench_run_def value_at_def get_or_def dict_get_def distributions_def numeral_3_eq_3)
  have m: "value_at [(u ''n'', PInt 900)] ''n'' = PInt 900" by (simp add: value_at_def dict_get_def)
  have r: "check_run demo_tenth (demo_bench_run k) = Inr ()" for k
    using o m by (simp add: check_run_def k as_number_def numeral_3_eq_3 number_eq_def)
  have "value_at (ev_benchmark demo_evidence) ''runs'' = PArr Mut [PObj Mut (demo_bench_run 1), PObj Mut (demo_bench_run 4)]"
    by (simp add: demo_evidence_def value_at_def dict_get_def)
  then show ?thesis
    by (simp add: benchmark_runs_def objects_def k compare_int_def as_number_def r number_eq_def)
qed

lemma demo_report: "\<exists>n. render_report plain_env demo_other demo_tenth demo_corpus demo_evidence = Inr n \<and> rp_prohibited n = 0"
proof -
  obtain runs where b: "benchmark_runs demo_tenth (ev_benchmark demo_evidence) = Inr runs" using demo_benchmark by blast
  have p: "check_provenance demo_corpus demo_evidence = Inr ()"
    by (simp add: check_provenance_def demo_corpus_def demo_evidence_def value_at_def dict_get_def Let_def hashable_def require_metadata_def
        REPRODUCIBILITY_FIELDS_def dict_has_def number_eq_def as_number_def)
  have res: "objects (value_at (ev_run demo_evidence) ''results'') = Inr [demo_result]"
    "objects (value_at (ev_generated demo_evidence) ''results'') = Inr []"
    by (simp_all add: demo_evidence_def value_at_def dict_get_def objects_def)
  have s: "scenario_of plain_env [demo_legitimate] demo_result = Some demo_legitimate" "sn_id demo_legitimate = u ''row''"
    "get_str plain_env demo_result ''scenario_id'' = u ''row''"
    by (simp_all add: scenario_of_def get_str_def demo_result_def value_at_def dict_get_def fmt_def demo_legitimate_def demo_row_def)
  have rows: "check_rows plain_env [demo_legitimate] [demo_result] = Inr ()"
    using s by (simp add: check_rows_def Let_def) (simp add: demo_result_def value_at_def dict_get_def hashable_def VERDICTS_def)
  have v: "validate_oracle_evidence plain_env demo_other [demo_result] [u ''row''] [demo_entry] = Inr ()"
    by code_simp
  have ev: "request_events (ev_audit demo_evidence) = ev_audit demo_evidence" "ev_oplog demo_evidence = [demo_entry]"
    by (simp_all add: request_events_def demo_evidence_def value_at_def dict_get_def)
  have at: "attempted_results [demo_result] = [demo_result]" "\<not> has_verdict ''CRITICAL'' demo_result"
    by (simp_all add: attempted_results_def has_verdict_def demo_result_def value_at_def dict_get_def)
  have au: "check_audit plain_env [demo_legitimate] [demo_result] (ev_audit demo_evidence) = Inr {u ''r''}"
    using s(1) by (simp add: check_audit_def Let_def auditable_def declared_rejected_def get_str_def fmt_def)
      (simp add: demo_result_def demo_evidence_def value_at_def dict_get_def fmt_def demo_legitimate_def demo_row_def)
  have id: "audit_by_id plain_env (ev_audit demo_evidence) (get_str plain_env demo_result ''request_id'') = Some (hd (ev_audit demo_evidence))"
    by (simp add: audit_by_id_def get_str_def demo_result_def demo_evidence_def value_at_def dict_get_def fmt_def)
  have val: "strings_of (value_at demo_result ''observed_ops'') = [u ''write:a'']" "value_at demo_result ''tree_changed'' = PBool True"
    "strings_of (value_at demo_result ''incomplete_ops'') = []" "value_at demo_result ''verdict'' = PStr (u ''PASS'')"
    "value_at demo_result ''audit_expected'' = PBool True" "value_at demo_result ''reason_code'' = PStr (u ''POLICY_SCOPED_WRITE'')"
    "value_at demo_result ''claimed_decision'' = PStr (u ''allow'')"
    "value_at (hd (ev_audit demo_evidence)) ''reason_code'' = PStr (u ''POLICY_SCOPED_WRITE'')"
    by (simp_all add: demo_result_def demo_evidence_def value_at_def dict_get_def strings_of_def string_list_def is_str_def)
  have row: "sn_expected_side_effect demo_legitimate = Some \<lparr> ee_op = u ''write'', ee_path_contains = u ''a'' \<rparr>"
    "sn_expected_decision demo_legitimate = Expect_allow" "expected_reason_of demo_legitimate = u ''POLICY_SCOPED_WRITE''"
    by (simp_all add: demo_legitimate_def demo_row_def expected_reason_of_def declared_rejected_def)
  have "operation_matches (u ''write:a'') \<lparr> ee_op = u ''write'', ee_path_contains = u ''a'' \<rparr>" by code_simp
  then have "validate_claim demo_legitimate (Some (hd (ev_audit demo_evidence))) demo_result = Inr ()"
    by (simp add: validate_claim_def val row unexpected_effect_def quiet_op_def decision_text_def)
  then have pc: "validate_pass_claims plain_env [demo_legitimate] [demo_result] (ev_audit demo_evidence) = Inr ()"
    by (simp add: validate_pass_claims_def s(1) id)
  show ?thesis
    using b p res rows v ev at au pc s(2) by (simp add: render_report_def Let_def demo_corpus_def)
qed

theorem zero_prohibited_means_witness:
  "\<exists>op. operation_text plain_env demo_entry = Inr op \<and> (\<exists>x. operation_matches op x)"
proof -
  obtain n where n: "render_report plain_env demo_other demo_tenth demo_corpus demo_evidence = Inr n" "rp_prohibited n = 0"
    using demo_report by blast
  have d: "demo_entry \<in> set (ev_oplog demo_evidence)" "op_succeeded demo_entry"
    by (simp_all add: demo_evidence_def op_succeeded_def demo_entry_def value_at_def dict_get_def)
  have k: "\<not> has_verdict ''SKIPPED'' demo_result" "objects (value_at (ev_run demo_evidence) ''results'') = Inr [demo_result]"
    by (simp_all add: has_verdict_def demo_result_def demo_evidence_def value_at_def dict_get_def objects_def)
  from zero_prohibited_means [OF n d] k show ?thesis by auto
qed

end
