(* ===== verification/Eval_Measure.thy ===== *)
theory Eval_Measure
  imports Eval_Report
begin

text \<open>
  \<open>harness/benchmark.py\<close> and the scoring of \<open>harness/generated.py\<close>: paired samples in alternating
  order, their summary, and the invariant generated requests are held to. Float arithmetic and the
  percentiles of \<open>statistics\<close> are parameters; the pool that schedules concurrent pairs is not modelled.
\<close>

section \<open>Paired samples\<close>

record pair_sample =
  ps_order :: ustr
  ps_direct_ns :: int
  ps_protected_ns :: int
  ps_stages :: "(ustr \<times> pyfloat) list"
  ps_upstream :: "pyfloat option"

text \<open>A timed call: its nanoseconds and what the client observed.\<close>

type_synonym 'w timed = "('w, int \<times> call_outcome) wait"

definition DIRECT_FIRST :: ustr where "DIRECT_FIRST = u ''direct-protected''"
definition PROTECTED_FIRST :: ustr where "PROTECTED_FIRST = u ''protected-direct''"

definition sample_of :: "ustr \<Rightarrow> int \<times> call_outcome \<Rightarrow> int \<times> call_outcome \<Rightarrow> pair_sample result" where
  "sample_of order d p =
     (if co_decision (snd d) \<noteq> Claim_allow \<or> co_decision (snd p) \<noteq> Claim_allow then Inl (PyError ''RuntimeError'')
      else Inr \<lparr> ps_order = order, ps_direct_ns = fst d, ps_protected_ns = fst p,
                 ps_stages = (case co_audit (snd p) of Some j \<Rightarrow> aj_stage_latency j | None \<Rightarrow> []),
                 ps_upstream = (case co_audit (snd p) of
                   Some j \<Rightarrow> (case aj_upstream_latency j of Some (PFloat f) \<Rightarrow> Some f | _ \<Rightarrow> None) | None \<Rightarrow> None) \<rparr>)"

definition one_pair :: "'w timed \<Rightarrow> 'w timed \<Rightarrow> nat \<Rightarrow> ('w, pair_sample) wait" where
  "one_pair direct protected index =
     (if even index then bindW direct (\<lambda>d. bindW protected (\<lambda>p. giveW (sample_of DIRECT_FIRST d p)))
      else bindW protected (\<lambda>p. bindW direct (\<lambda>d. giveW (sample_of PROTECTED_FIRST d p))))"

fun pairs_from :: "'w timed \<Rightarrow> 'w timed \<Rightarrow> nat \<Rightarrow> nat \<Rightarrow> ('w, pair_sample list) wait" where
  "pairs_from direct protected index 0 = giveW (Inr [])"
| "pairs_from direct protected index (Suc n) =
     bindW (one_pair direct protected index) (\<lambda>s. bindW (pairs_from direct protected (Suc index) n) (\<lambda>ss. giveW (Inr (s # ss))))"

text \<open>\<open>concurrency == 1\<close>.\<close>

definition collect_pairs :: "int \<Rightarrow> 'w timed \<Rightarrow> 'w timed \<Rightarrow> ('w, pair_sample list) wait" where
  "collect_pairs n direct protected =
     (if n < 1 then giveW (Inl (PyError ''ValueError'')) else pairs_from direct protected 0 (nat n))"

section \<open>The summary\<close>

record float_lib =
  fl_ms :: "int \<Rightarrow> pyfloat"
  fl_add :: "pyfloat \<Rightarrow> pyfloat \<Rightarrow> pyfloat"
  fl_sub :: "pyfloat \<Rightarrow> pyfloat \<Rightarrow> pyfloat"
  fl_p50 :: "pyfloat list \<Rightarrow> pyfloat"
  fl_p95 :: "pyfloat list \<Rightarrow> pyfloat"
  fl_p99 :: "pyfloat list \<Rightarrow> pyfloat"
  fl_min :: "pyfloat list \<Rightarrow> pyfloat"
  fl_max :: "pyfloat list \<Rightarrow> pyfloat"
  fl_tenth :: "int \<Rightarrow> int"

definition distribution :: "float_lib \<Rightarrow> pyfloat list \<Rightarrow> pyval result" where
  "distribution L vs =
     (if vs = [] then Inl (PyError ''ValueError'')
      else Inr (PObj Mut [(u ''n'', PInt (int (length vs))), (u ''p50'', PFloat (fl_p50 L vs)), (u ''p95'', PFloat (fl_p95 L vs)),
        (u ''p99'', PFloat (fl_p99 L vs)), (u ''minimum'', PFloat (fl_min L vs)), (u ''maximum'', PFloat (fl_max L vs))]))"

text \<open>\<open>values.setdefault(k, []).append(x)\<close>\<close>

definition push :: "ustr \<Rightarrow> pyfloat \<Rightarrow> (ustr \<times> pyfloat list) list \<Rightarrow> (ustr \<times> pyfloat list) list" where
  "push k x d = dict_set d k ((case dict_get d k of Some xs \<Rightarrow> xs | None \<Rightarrow> []) @ [x])"

definition stage_values :: "float_lib \<Rightarrow> pair_sample \<Rightarrow> (ustr \<times> pyfloat) list" where
  "stage_values L s =
     (case (dict_get (ps_stages s) (u ''protocol''), dict_get (ps_stages s) (u ''canonical'')) of
        (Some a, Some b) \<Rightarrow> [(u ''protocol+canonicalization'', fl_add L a b)] | _ \<Rightarrow> [])
   @ (case dict_get (ps_stages s) (u ''policy'') of Some a \<Rightarrow> [(u ''policy'', a)] | None \<Rightarrow> [])
   @ (case ps_upstream s of Some a \<Rightarrow> [(u ''upstream'', a)] | None \<Rightarrow> [])
   @ (case dict_get (ps_stages s) (u ''audit'') of Some a \<Rightarrow> [(u ''audit'', a)] | None \<Rightarrow> [])"

definition append_stages :: "float_lib \<Rightarrow> (ustr \<times> pyfloat list) list \<Rightarrow> pair_sample \<Rightarrow> (ustr \<times> pyfloat list) list" where
  "append_stages L d s = foldl (\<lambda>d (k, x). push k x d) d (stage_values L s)"

definition sample_stages :: "float_lib \<Rightarrow> pair_sample list \<Rightarrow> (ustr \<times> pyfloat list) list" where
  "sample_stages L ss = foldl (append_stages L) [] ss"

definition REQUIRED_STAGES :: "ustr list" where
  "REQUIRED_STAGES = map u [''audit'', ''policy'', ''protocol+canonicalization'', ''upstream'']"

text \<open>A literal of two lines.\<close>

definition COLOCATION_CAVEAT :: ustr where
  "COLOCATION_CAVEAT =
     u ''Client, gateway, policy engine, fixture, and load generator ran on the same ''
   @ u ''machine. These are co-located development measurements, not capacity claims.''"

text \<open>\<open>summarize\<close> without aggregated stages, as the object \<open>asdict\<close> writes.\<close>

definition summarize :: "float_lib \<Rightarrow> ustr \<Rightarrow> pair_sample list \<Rightarrow> int \<Rightarrow> details result" where
  "summarize L label samples concurrency =
     (let n = int (length samples); warmup = fl_tenth L n; kept = drop (nat warmup) samples;
          direct = map (\<lambda>s. fl_ms L (ps_direct_ns s)) kept; protected = map (\<lambda>s. fl_ms L (ps_protected_ns s)) kept;
          overhead = map2 (fl_sub L) protected direct; stages = sample_stages L kept in
      if n < 1000 then Inl (PyError ''ValueError'')
      else
        bindR (traverse (\<lambda>(k, vs). mapR (Pair k) (distribution L vs)) stages) (\<lambda>stage_stats.
        bindR (distribution L direct) (\<lambda>dd. bindR (distribution L protected) (\<lambda>dp. bindR (distribution L overhead) (\<lambda>dv.
        Inr [(u ''label'', PStr label), (u ''concurrency'', PInt concurrency), (u ''pairs_requested'', PInt n),
             (u ''warmup_discarded'', PInt warmup), (u ''direct_ms'', dd), (u ''protected_ms'', dp), (u ''added_overhead_ms'', dv),
             (u ''stages_ms'', PObj Mut stage_stats),
             (u ''unavailable_stages'', PArr Mut (map PStr (filter (\<lambda>k. \<not> dict_has stage_stats k) REQUIRED_STAGES))),
             (u ''sample_order'', PArr Mut (map (PStr \<circ> ps_order) samples)), (u ''caveat'', PStr COLOCATION_CAVEAT)])))))"

section \<open>Generated requests\<close>

datatype family = Path_family | Encoding_family | Identifier_family | Numeric_family | Json_family

fun family_value :: "family \<Rightarrow> ustr" where
  "family_value Path_family = u ''path''"
| "family_value Encoding_family = u ''encoding''"
| "family_value Identifier_family = u ''identifier''"
| "family_value Numeric_family = u ''numeric''"
| "family_value Json_family = u ''json_structure''"

record generated_case =
  gc_family :: family
  gc_value :: pyval

definition generated_arguments :: "generated_case \<Rightarrow> (ustr \<times> pyval) list" where
  "generated_arguments c =
     [(u ''path'', if gc_family c \<in> {Path_family, Encoding_family, Numeric_family} then gc_value c
                   else PStr (u ''public/documentation.txt''))]"

definition generated_transport :: "pyenv \<Rightarrow> generated_case \<Rightarrow> transport option result" where
  "generated_transport env c =
     (case gc_family c of
        Identifier_family \<Rightarrow> Inr (Some (Transport \<lparr> tr_jsonrpc_id := gc_value c \<rparr>))
      | Json_family \<Rightarrow> mapR (\<lambda>b. Some (Transport \<lparr> tr_raw_body := Some (map unat b) \<rparr>)) (json_dumps env (gc_value c))
      | _ \<Rightarrow> Inr None)"

text \<open>\<open>f"{index:05d}"\<close>\<close>

definition pad5 :: "nat \<Rightarrow> ustr" where
  "pad5 n = replicate (5 - length (nat_text n)) 48 @ nat_text n"

definition generated_scenario :: "pyenv \<Rightarrow> generated_case \<Rightarrow> nat \<Rightarrow> scenario result" where
  "generated_scenario env c index =
     bindR (generated_transport env c) (\<lambda>t.
       case validate_scenario
         \<lparr> sn_id = u ''generated-'' @ family_value (gc_family c) @ u ''-'' @ pad5 index, sn_kind = Legitimate,
           sn_layer = Protocol_layer, sn_principal = u ''intern'', sn_tool = u ''read_file'', sn_arguments = generated_arguments c,
           sn_expected_decision = Expect_allow, sn_expected_reason = u ''POLICY_SCOPED_READ'',
           sn_expected_side_effect = Some \<lparr> ee_op = u ''read'', ee_path_contains = u ''public/documentation.txt'' \<rparr>,
           sn_risk_tier = R1, sn_notes = u ''Hypothesis-generated; scored by invariant, not this placeholder.'',
           sn_requires_symlinks = False, sn_transport = t, sn_fixture_mode = [], sn_gateway_fault = False \<rparr> of
         None \<Rightarrow> Inl (PyError ''ValidationError'')
       | Some s \<Rightarrow> Inr s)"

text \<open>\<open>inside\<close>: the resolved path, resolved again, lies under the fixture root.\<close>

definition generated_verdict :: "pyenv \<Rightarrow> (ustr \<Rightarrow> bool) \<Rightarrow> call_outcome \<Rightarrow> observation \<Rightarrow> row_verdict" where
  "generated_verdict env inside out obs =
     (if list_ex (\<lambda>f. ef_resolved f \<notin> {PNone, PStr []} \<and> \<not> inside (fmt env (ef_resolved f))) (effects obs) then CRITICAL
      else if co_decision out = Claim_deny \<and> any_effect obs then CRITICAL
      else if (case co_audit out of Some j \<Rightarrow> aj_count j \<noteq> 1 | None \<Rightarrow> False) then INDETERMINATE
      else if (case co_reason_code out of Some c \<Rightarrow> c \<in> set CLIENT_CODES | None \<Rightarrow> False) \<or> co_decision out = Claim_error then FAIL
      else PASS)"

text \<open>A result is its family and verdict; the case as text and the wording are left out.\<close>

type_synonym generated_result = "family \<times> row_verdict"

definition run_case :: "'s oracle_env \<Rightarrow> 's eval_client \<Rightarrow> ('s fixture_world \<Rightarrow> ustr \<Rightarrow> bool) \<Rightarrow> nat \<Rightarrow> generated_case
    \<Rightarrow> 's fixture_world \<Rightarrow> generated_result result \<times> 's fixture_world" where
  "run_case q cl inside index c w =
     (case generated_scenario (or_py q) c index of
        Inl e \<Rightarrow> (Inl e, w)
      | Inr s \<Rightarrow>
          (case snapshot q w of
             Inl e \<Rightarrow> (Inl e, w)
           | Inr m \<Rightarrow>
               (case ec_call cl s w of
                  (Inl e, w') \<Rightarrow> (Inl e, w')
                | (Inr out, w') \<Rightarrow> (mapR (\<lambda>obs. (gc_family c, generated_verdict (or_py q) (inside w') out obs)) (observe q m w'), w'))))"

fun run_cases :: "'s oracle_env \<Rightarrow> 's eval_client \<Rightarrow> ('s fixture_world \<Rightarrow> ustr \<Rightarrow> bool) \<Rightarrow> ustr \<Rightarrow> nat \<Rightarrow> generated_case list
    \<Rightarrow> 's fixture_world \<Rightarrow> generated_result list result \<times> 's fixture_world" where
  "run_cases q cl inside baseline index [] w = (Inr [], w)"
| "run_cases q cl inside baseline index (c # cs) w =
     (case run_case q cl inside index c w of
        (Inl e, w1) \<Rightarrow> (Inl e, w1)
      | (Inr r, w1) \<Rightarrow>
          (case ec_reset cl w1 of
             (Inl e, w2) \<Rightarrow> (Inl e, w2)
           | (Inr after, w2) \<Rightarrow>
               if after \<noteq> baseline then (Inl (PyError ''RuntimeError''), w2)
               else case run_cases q cl inside baseline (Suc index) cs w2 of (rs, w') \<Rightarrow> (mapR (Cons r) rs, w')))"

definition run_generated :: "'s oracle_env \<Rightarrow> 's eval_client \<Rightarrow> ('s fixture_world \<Rightarrow> ustr \<Rightarrow> bool) \<Rightarrow> generated_case list
    \<Rightarrow> 's fixture_world \<Rightarrow> generated_result list result \<times> 's fixture_world" where
  "run_generated q cl inside cs w =
     (case tree_hash (or_py q) (or_tree q (fw_disk w)) of
        Inl e \<Rightarrow> (Inl e, w)
      | Inr baseline \<Rightarrow> run_cases q cl inside baseline 0 cs w)"

section \<open>What the benchmark writes, the report accepts\<close>

lemma pairs_alternate:
  "pairs_from direct protected i n w = (Some (Inr ss), w') \<Longrightarrow>
   map ps_order ss = map (\<lambda>j. if even j then DIRECT_FIRST else PROTECTED_FIRST) [i..<i + n]"
proof (induction n arbitrary: i w ss)
  case 0
  then show ?case by (simp add: giveW_def)
next
  case (Suc n)
  obtain s w1 rest where s: "one_pair direct protected i w = (Some (Inr s), w1)"
    "pairs_from direct protected (Suc i) n w1 = (Some (Inr rest), w')" "ss = s # rest"
    using Suc.prems by (auto simp: bindW_def giveW_def split: prod.splits option.splits sum.splits)
  have "ps_order s = (if even i then DIRECT_FIRST else PROTECTED_FIRST)"
    using s(1) by (auto simp: one_pair_def bindW_def giveW_def sample_of_def split: prod.splits option.splits sum.splits if_splits)
  then show ?case using Suc.IH [OF s(2)] s(3) by (simp add: upt_conv_Cons del: upt_Suc)
qed

text \<open>How many values a stage has, and how many samples know the stage.\<close>

definition stage_count :: "(ustr \<times> pyfloat list) list \<Rightarrow> ustr \<Rightarrow> nat" where
  "stage_count d k = (case dict_get d k of Some xs \<Rightarrow> length xs | None \<Rightarrow> 0)"

definition staged :: "(ustr \<times> pyfloat list) list \<Rightarrow> bool" where
  "staged d \<longleftrightarrow> distinct_keys d \<and> (\<forall>(k, vs) \<in> set d. vs \<noteq> [])"

lemma push_staged: "staged d \<Longrightarrow> staged (push k x d)"
  using set_dict_set_subset [of d k] by (fastforce simp: staged_def push_def intro: distinct_dict_set)

lemma push_count: "stage_count (push k x d) j = stage_count d j + (if j = k then 1 else 0)"
  by (simp add: stage_count_def push_def split: option.splits)

lemma pushes: "staged d \<Longrightarrow> staged (foldl (\<lambda>d (k, x). push k x d) d kxs) \<and>
    stage_count (foldl (\<lambda>d (k, x). push k x d) d kxs) j = stage_count d j + length (filter (\<lambda>kx. fst kx = j) kxs)"
  by (induction kxs arbitrary: d) (auto simp: push_staged push_count)

lemma stage_values_distinct: "distinct (map fst (stage_values L s))"
  by (auto simp: stage_values_def split: option.splits)

lemma stages_appended:
  assumes "staged d"
  shows "staged (append_stages L d s)"
    "stage_count (append_stages L d s) j = stage_count d j + (if j \<in> set (map fst (stage_values L s)) then 1 else 0)"
proof -
  have "length (filter (\<lambda>kx. fst kx = j) kxs) = (if j \<in> set (map fst kxs) then 1 else 0)" if "distinct (map fst kxs)" for kxs :: "(ustr \<times> pyfloat) list"
    using that by (induction kxs) (force simp: filter_empty_conv)+
  from this [OF stage_values_distinct] show "staged (append_stages L d s)"
    "stage_count (append_stages L d s) j = stage_count d j + (if j \<in> set (map fst (stage_values L s)) then 1 else 0)"
    using pushes [OF assms, of "stage_values L s" j] by (simp_all add: append_stages_def)
qed

lemma sample_stages_count:
  "staged (sample_stages L ss)"
  "stage_count (sample_stages L ss) j = length (filter (\<lambda>s. j \<in> set (map fst (stage_values L s))) ss)"
proof -
  have "staged d \<Longrightarrow> staged (foldl (append_stages L) d ss)
    \<and> stage_count (foldl (append_stages L) d ss) j = stage_count d j + length (filter (\<lambda>s. j \<in> set (map fst (stage_values L s))) ss)" for d
    by (induction ss arbitrary: d) (auto simp: stages_appended)
  from this [of "[]"] show "staged (sample_stages L ss)"
    "stage_count (sample_stages L ss) j = length (filter (\<lambda>s. j \<in> set (map fst (stage_values L s))) ss)"
    by (simp_all add: sample_stages_def staged_def stage_count_def dict_get_def)
qed

lemma stage_lengths:
  assumes "(k, vs) \<in> set (sample_stages L ss)" "\<And>s. s \<in> set ss \<Longrightarrow> map fst (stage_values L s) = ks"
  shows "length vs = length ss"
proof -
  have st: "staged (sample_stages L ss)" by (rule sample_stages_count)
  then have "dict_get (sample_stages L ss) k = Some vs" "vs \<noteq> []" using assms(1) by (auto simp: staged_def dict_get_def)
  then have c: "stage_count (sample_stages L ss) k = length vs" "length vs \<noteq> 0" by (simp_all add: stage_count_def)
  have "filter (\<lambda>s. k \<in> set (map fst (stage_values L s))) ss = filter (\<lambda>s. k \<in> set ks) ss"
    by (rule filter_cong) (simp_all only: assms(2))
  then have "filter (\<lambda>s. k \<in> set (map fst (stage_values L s))) ss = (if k \<in> set ks then ss else [])"
    by (simp add: filter_True)
  then show ?thesis using c sample_stages_count(2) [of L ss k] by (auto split: if_splits)
qed

text \<open>
  A run that was collected pair by pair and summarized passes the report's checks on warm-up,
  order and counts, when the samples agree on the stages they measured.
\<close>

lemma summary_accepted:
  assumes "collect_pairs n direct protected w = (Some (Inr samples), w')" "summarize L label samples c = Inr run"
    and "\<And>s. s \<in> set samples \<Longrightarrow> map fst (stage_values L s) = ks"
    and "0 \<le> fl_tenth L n" "fl_tenth L n \<le> n"
  shows "check_run (fl_tenth L) run = Inr ()"
proof -
  have n: "1 \<le> n" and al: "map ps_order samples = map (\<lambda>j. if even j then DIRECT_FIRST else PROTECTED_FIRST) [0..<nat n]"
    using assms(1) pairs_alternate [of direct protected 0 "nat n" w samples w'] by (auto simp: collect_pairs_def giveW_def split: if_splits)
  have len: "int (length samples) = n" using arg_cong [OF al, of length] n by simp
  let ?kept = "drop (nat (fl_tenth L n)) samples"
  have kept: "int (length ?kept) = n - fl_tenth L n" using len assms(4,5) by simp
  obtain st dd dp dv where st: "traverse (\<lambda>(k, vs). mapR (Pair k) (distribution L vs)) (sample_stages L ?kept) = Inr st"
    and d: "distribution L (map (\<lambda>s. fl_ms L (ps_direct_ns s)) ?kept) = Inr dd"
      "distribution L (map (\<lambda>s. fl_ms L (ps_protected_ns s)) ?kept) = Inr dp"
      "distribution L (map2 (fl_sub L) (map (\<lambda>s. fl_ms L (ps_protected_ns s)) ?kept) (map (\<lambda>s. fl_ms L (ps_direct_ns s)) ?kept)) = Inr dv"
    and run: "run = [(u ''label'', PStr label), (u ''concurrency'', PInt c), (u ''pairs_requested'', PInt n),
             (u ''warmup_discarded'', PInt (fl_tenth L n)), (u ''direct_ms'', dd), (u ''protected_ms'', dp), (u ''added_overhead_ms'', dv),
             (u ''stages_ms'', PObj Mut st),
             (u ''unavailable_stages'', PArr Mut (map PStr (filter (\<lambda>k. \<not> dict_has st k) REQUIRED_STAGES))),
             (u ''sample_order'', PArr Mut (map (PStr \<circ> ps_order) samples)), (u ''caveat'', PStr COLOCATION_CAVEAT)]"
    using assms(2) by (auto simp: summarize_def Let_def len result_simps split: if_splits)
  have count: "\<exists>kvs. v = PObj Mut kvs \<and> value_at kvs ''n'' = PInt (n - fl_tenth L n)"
    if "distribution L vs = Inr v" "length vs = length ?kept" for v vs
    using that kept by (auto simp: distribution_def value_at_def dict_get_def split: if_splits)
  have stages: "\<exists>kvs. v = PObj Mut kvs \<and> value_at kvs ''n'' = PInt (n - fl_tenth L n)" if v: "v \<in> snd ` set st" for v
  proof -
    obtain kv where kv: "kv \<in> set st" "v = snd kv" using v by blast
    obtain k vs where k: "(k, vs) \<in> set (sample_stages L ?kept)" "distribution L vs = Inr v"
      using traverse_Inr [OF st kv(1)] kv(2) by (auto simp: mapR_Inr_iff)
    have "length vs = length ?kept" by (rule stage_lengths [OF k(1)]) (use assms(3) in \<open>auto dest: in_set_dropD\<close>)
    with count [OF k(2)] show ?thesis by blast
  qed
  have "map (PStr \<circ> ps_order) samples = map (\<lambda>i. PStr (if even i then u ''direct-protected'' else u ''protected-direct'')) [0..<nat n]"
    using arg_cong [OF al, of "map PStr"] by (simp add: DIRECT_FIRST_def PROTECTED_FIRST_def comp_def)
  then have order: "value_at run ''sample_order'' = expected_order (nat n)"
    by (simp add: run value_at_def dict_get_def expected_order_def)
  have "py_eq (expected_order (nat n)) (expected_order (nat n))"
    by (rule py_eq_refl) (simp add: expected_order_def)
  moreover have dist: "distributions run = Inr ([dd, dp, dv] @ map snd st)"
    by (simp add: run distributions_def get_or_def dict_get_def)
  have dists: "\<exists>kvs. v = PObj Mut kvs \<and> value_at kvs ''n'' = PInt (n - fl_tenth L n)" if "v \<in> set ([dd, dp, dv] @ map snd st)" for v
    using that count [OF d(1)] count [OF d(2)] count [OF d(3)] stages [of v] by auto
  have forR: "forR (\<lambda>d. case d of
      PObj Mut kvs \<Rightarrow> raise_if (\<not> py_eq (value_at kvs ''n'') (PInt (n - fl_tenth L n))) report_error
    | _ \<Rightarrow> Inl (PyError ''AttributeError'')) ([dd, dp, dv] @ map snd st) = Inr ()"
    unfolding forR_Inr_iff
  proof (intro ballI)
    fix v
    assume "v \<in> set ([dd, dp, dv] @ map snd st)"
    with dists obtain kvs where "v = PObj Mut kvs" "value_at kvs ''n'' = PInt (n - fl_tenth L n)" by blast
    then show "(case v of
      PObj Mut kvs \<Rightarrow> raise_if (\<not> py_eq (value_at kvs ''n'') (PInt (n - fl_tenth L n))) report_error
    | _ \<Rightarrow> Inl (PyError ''AttributeError'')) = Inr ()" by (simp add: number_eq_def as_number_def)
  qed
  moreover have "value_at run ''pairs_requested'' = PInt n" "get_or run ''warmup_discarded'' (PInt (-1)) = PInt (fl_tenth L n)"
    by (simp_all add: run value_at_def get_or_def dict_get_def)
  ultimately show ?thesis using forR by (simp add: check_run_def dist order as_number_def number_eq_def)
qed

text \<open>A generated request that passes was not denied after an effect, and touched nothing outside the root.\<close>

lemma generated_pass:
  assumes "generated_verdict env inside out obs = PASS"
  shows "(\<forall>f \<in> set (effects obs). ef_resolved f \<in> {PNone, PStr []} \<or> inside (fmt env (ef_resolved f)))
    \<and> (co_decision out = Claim_allow \<or> co_decision out = Claim_deny \<and> \<not> any_effect obs)"
  using assms by (cases "co_decision out") (auto simp: generated_verdict_def list_ex_iff split: if_splits)

text \<open>The world a case is run in: the tree is the baseline, whatever the cases before it did.\<close>

definition case_at :: "'s oracle_env \<Rightarrow> 's eval_client \<Rightarrow> ('s fixture_world \<Rightarrow> ustr \<Rightarrow> bool) \<Rightarrow> ustr \<Rightarrow> generated_case \<Rightarrow> generated_result \<Rightarrow> bool" where
  "case_at q cl inside baseline c r \<longleftrightarrow>
     (\<exists>i w w'. tree_hash (or_py q) (or_tree q (fw_disk w)) = Inr baseline \<and> run_case q cl inside i c w = (Inr r, w'))"

lemma run_cases_at:
  assumes "reset_hashes q cl"
  shows "run_cases q cl inside baseline i cs w = (Inr rs, w') \<Longrightarrow> tree_hash (or_py q) (or_tree q (fw_disk w)) = Inr baseline
    \<Longrightarrow> list_all2 (case_at q cl inside baseline) cs rs"
proof (induction cs arbitrary: i w rs)
  case Nil
  then show ?case by simp
next
  case (Cons c cs)
  obtain r w1 w2 rest where r: "run_case q cl inside i c w = (Inr r, w1)" "ec_reset cl w1 = (Inr baseline, w2)"
    "run_cases q cl inside baseline (Suc i) cs w2 = (Inr rest, w')" "rs = r # rest"
    using Cons.prems(1) by (auto simp: mapR_Inr_iff split: prod.splits sum.splits if_splits)
  have "tree_hash (or_py q) (or_tree q (fw_disk w2)) = Inr baseline" using assms r(2) by (auto simp: reset_hashes_def)
  with Cons.IH [OF r(3)] have "list_all2 (case_at q cl inside baseline) cs rest" .
  moreover have "case_at q cl inside baseline c r" using r(1) Cons.prems(2) by (auto simp: case_at_def)
  ultimately show ?case using r(4) by simp
qed

text \<open>
  A run without a verdict other than PASS: every case was run from the baseline, and every effect it
  had was inside the fixture root at a call the client took to be allowed.
\<close>

lemma green_generated_run:
  assumes "run_generated q cl inside cs w = (Inr rs, w')" "reset_hashes q cl" "\<forall>r \<in> set rs. snd r = PASS" "c \<in> set cs"
    and "tree_hash (or_py q) (or_tree q (fw_disk w)) = Inr baseline"
  shows "\<exists>i m w0 w1 s out obs. generated_scenario (or_py q) c i = Inr s
    \<and> tree_hash (or_py q) (or_tree q (fw_disk w0)) = Inr baseline
    \<and> snapshot q w0 = Inr m \<and> ec_call cl s w0 = (Inr out, w1) \<and> observe q m w1 = Inr obs
    \<and> (\<forall>f \<in> set (effects obs). ef_resolved f \<in> {PNone, PStr []} \<or> inside w1 (fmt (or_py q) (ef_resolved f)))
    \<and> (co_decision out = Claim_allow \<or> co_decision out = Claim_deny \<and> \<not> any_effect obs)"
proof -
  have "list_all2 (case_at q cl inside baseline) cs rs"
    using run_cases_at [OF assms(2)] assms(1,5) by (auto simp: run_generated_def)
  then obtain r where r: "r \<in> set rs" "case_at q cl inside baseline c r"
    using assms(4) by (metis list_all2_conv_all_nth in_set_conv_nth)
  then obtain i w0 w1 where w0: "tree_hash (or_py q) (or_tree q (fw_disk w0)) = Inr baseline" "run_case q cl inside i c w0 = (Inr r, w1)"
    by (auto simp: case_at_def)
  then obtain s m out obs where s: "generated_scenario (or_py q) c i = Inr s" "snapshot q w0 = Inr m" "ec_call cl s w0 = (Inr out, w1)"
    "observe q m w1 = Inr obs" "r = (gc_family c, generated_verdict (or_py q) (inside w1) out obs)"
    by (auto simp: run_case_def mapR_Inr_iff split: sum.splits prod.splits)
  have "generated_verdict (or_py q) (inside w1) out obs = PASS" using assms(3) r(1) s(5) by auto
  with generated_pass s w0(1) show ?thesis by blast
qed

end
