(* ===== verification/Spec2Isabelle.thy ===== *)
theory Spec2Isabelle
  imports Gateway_Service Startup Audited_Requests Eval_Wire Eval_Measure
begin

text \<open>
  \<^bold>\<open>The program.\<close> The Zero-Trust MCP Gateway stands between an MCP client and one stdio tool server.
  A request passes eight stages in one order: the edge (\<open>gateway/edge.py\<close>), the protocol guard
  (\<open>protocol.py\<close>), identity (\<open>identity.py\<close>), the registry (\<open>registry.py\<close>), canonicalization of paths
  (\<open>canonicalize/fs.py\<close>), the policy decision by OPA (\<open>policy.py\<close> and \<open>policies/rego\<close>), the route to
  the child (\<open>router.py\<close>, \<open>bridge.py\<close>) and the response guard (\<open>response.py\<close>). \<open>pipeline.py\<close> calls them,
  and writes one audit record whatever happens (\<open>audit.py\<close>, \<open>audit_schema.py\<close>); \<open>startup.py\<close> decides
  whether the gateway serves at all. The claims the project makes about it rest on an evaluation:
  \<open>harness/\<close> sends a corpus of requests to the gateway, observes at the deliberately naive tools of
  \<open>fixtures/\<close> what was really done, scores it, and generates the report. Both halves are modelled.

  \<^bold>\<open>How the model is built.\<close> Text is a list of code points, bytes are 8-bit words, a dictionary is an
  association list in insertion order, a Python integer is \<open>int\<close>. A pydantic model or dataclass is a
  record, an enumeration a datatype. A function that may raise returns a sum; the left side is the
  exception. Code that changes state is a function from a state to a result and the state at that
  point (\<open>Gateway_Effects\<close>), so what was done before an exception stays done, and cancellation and
  the deadline are values that arrive at the points where the code awaits. Third-party code (OPA,
  the MCP SDK, jsonschema, pydantic's coercion of fields, SHA-256, float printing and arithmetic)
  and the operating system are arguments of the definitions that use them.

  \<^bold>\<open>Ground.\<close> \<open>Gateway_Prelude\<close>, \<open>Gateway_Effects\<close> (results, actions, shared lemmas); the standard
  library as far as it is used: \<open>Py_Text\<close> (codecs, \<open>unquote\<close>), \<open>Py_Value\<close> (JSON values, also
  \<open>deep_freeze\<close> of \<open>types.py\<close>), \<open>Json_Text\<close> and \<open>Json_Ascii\<close> (\<open>json.loads\<close>, \<open>json.dumps\<close>, \<open>==\<close>),
  \<open>Py_Path\<close> (file system, \<open>realpath\<close> of Python 3.12 and 3.13). Their main results are round trips
  of codecs and JSON, and that a resolved path follows no link; \<open>path_resolver\<close> is the interface
  canonicalization relies on.

  \<^bold>\<open>The gateway.\<close>
  \<^item> \<open>Gateway_Errors\<close> (\<open>errors.py\<close>), \<open>Gateway_Types\<close> (\<open>types.py\<close>, \<open>timing.py\<close>), \<open>Gateway_Config\<close>
    (\<open>config.py\<close>), \<open>Hashing\<close> (\<open>hashing.py\<close>; locale \<open>codec\<close>: a serialization that reads back
    identifies the value), \<open>Identity\<close> (\<open>identity.py\<close>).
  \<^item> \<open>Prescan\<close>, \<open>Protocol_Guard\<close> (\<open>protocol.py\<close>): a validated request describes exactly its body;
    on UTF-8 nothing but a coded denial; on UTF-16 the prescan is blind.
  \<^item> \<open>Registry\<close> (\<open>registry.py\<close>): default deny, drift, agreement of \<open>tools/list\<close> with calls.
  \<^item> \<open>Canonicalize\<close> (\<open>canonicalize/fs.py\<close>): containment, and that the upstream opens the path decided on.
  \<^item> \<open>Rego_Policy\<close> (the bundle), \<open>Policy_Broker\<close> (\<open>policy.py\<close>; locale \<open>opa_sidecar\<close>: an engine that
    serves the bundle): fail closed, and refinement of the bundle.
  \<^item> \<open>Audit_Event\<close>, \<open>Audit_Sink\<close> (\<open>audit_schema.py\<close>, \<open>audit.py\<close>): well-typed records, exact rotation and
    retention, when a write returns and what it can raise, reading back.
  \<^item> \<open>Upstream_Bridge\<close>, \<open>Upstream_Router\<close>, \<open>Router_Effects\<close>, \<open>Response_Guard\<close> (\<open>bridge.py\<close>, \<open>router.py\<close>,
    \<open>response.py\<close>): how every call to the child ends. \<open>Router_Effects\<close> holds the locales \<open>quiet_invariant\<close> and \<open>step_invariant\<close>: an
    invariant kept by the primitive steps is kept by every operation; \<open>Pipeline\<close> interprets them on
    the builder's invariant and on the growth of the trace.
  \<^item> \<open>Pipeline\<close>, \<open>Pipeline_Progress\<close>, \<open>Request_Lifecycle\<close> (\<open>pipeline.py\<close>, the function \<open>handle\<close>): what
    reached the child was authorised and recorded first, one record per request, which always
    finalizes, and an undisturbed admitted request answered. \<open>Audited_Requests\<close> puts \<open>handle\<close> on
    the sink of \<open>audit.py\<close>: which failures are coded, and which are the sink's own.
  \<^item> \<open>Edge\<close> (\<open>edge.py\<close>), \<open>Gateway_Service\<close> (edge and pipeline together), \<open>Startup\<close> (\<open>startup.py\<close>).

  \<^bold>\<open>The evaluation.\<close>
  \<^item> \<open>Eval_Scenario\<close> (\<open>harness/scenario.py\<close>): corpus rows, loader, smoke profile.
  \<^item> \<open>Eval_Wire\<close> (\<open>harness/wire.py\<close>): the request a row is sent as, boundary probes, response bytes.
  \<^item> \<open>Eval_Client\<close> (\<open>harness/clients.py\<close>): reply and audit tail as a claim; composed with \<open>Edge\<close>.
  \<^item> \<open>Eval_Fixture\<close>, \<open>Eval_Oplog\<close> (\<open>fixtures/\<close>): naive tools, operation log (an entry may get to the file
    in part when its write or sync fails), building, resetting
    and hashing the tree, misbehaviour.
  \<^item> \<open>Eval_Runner\<close> (\<open>harness/oracle.py\<close>, \<open>harness/runner.py\<close>, \<open>scripts/run_corpus.py\<close>): observation,
    scoring and exit code; from a performed operation to the verdict of its row.
  \<^item> \<open>Eval_Report\<close> (\<open>harness/report.py\<close>): the checks behind each number of the report.
  \<^item> \<open>Eval_Measure\<close> (\<open>harness/benchmark.py\<close>, \<open>harness/generated.py\<close>): paired samples whose summary the
    report accepts; generated requests and the invariant they are held to.

  \<^bold>\<open>Bounds.\<close> The JSON scanner recurses on fuel \<open>2 * length s + 2\<close>, which \<open>json_decode_no_fuel\<close> proves
  enough. \<open>realpath\<close> of 3.12 bounds the nesting of links by their number, also proved enough; the
  walk of the kernel stops after 40 links, as Linux does. \<open>write_sync\<close> and \<open>rotate\<close> may call each
  other for ever: they are a \<open>partial_function\<close>, with one theorem on when the write returns and one
  on when it does not. Every other loop is a total function.

  \<^bold>\<open>Not modelled.\<close> The context variable of \<open>context.py\<close>, whose builder is a component of the state
  instead. Of the event loop, only where it may interrupt a request; of the time budgets, only that
  they expire. File-system errors beyond a missing entry or a link loop in \<open>Py_Path\<close> (permissions,
  name lengths, names that cannot be encoded); partial writes of an audit line; a recursion limit hit by \<open>json.dumps\<close>. Of the
  evaluation: processes, ports, sockets and generated configuration files of \<open>clients.py\<close>; the
  markdown and machine metadata of the report; the wording of details; percentiles, the thread pool
  and aggregation over audit files of the benchmark; the Hypothesis strategies; the
  schemas the fixture advertises and its isolation by the operating system; the source fingerprint; the remaining scripts, which download, start processes or rewrite
  files; and the tests.
\<close>

end
